(* ===== verification/Prelude.thy ===== *)
theory Prelude
  imports Main "HOL-Library.Word" "HOL-Library.Monad_Syntax"
begin

text \<open>
  Shared vocabulary of the development: the machine types of the C code, the memory
  accesses that can go wrong, and the list and word facts the components use.

  Conventions.
  \<^item> \<open>uint8_t\<close>, \<open>uint16_t\<close>, \<open>uint32_t\<close>, \<open>uint64_t\<close> are words of that width; the platform is the
    64-bit one (LP64) the program is built for: \<open>int\<close> has 32 bits, \<open>size_t\<close> 64.
  \<^item> A \<open>size_t\<close> is a \<open>nat\<close>; every subtraction of the code that could go below zero is
    \<open>size_sub\<close>, which wraps as C does.
  \<^item> The \<open>option\<close> monad is the C abstract machine: \<open>None\<close> is an access outside the buffer or a
    division by zero, where the program has no defined behaviour. Error codes the code
    returns are ordinary values inside \<open>Some\<close>.
\<close>

unbundle bit_operations_syntax

section \<open>Types\<close>

type_synonym byte = "8 word"
type_synonym u16 = "16 word"
type_synonym u32 = "32 word"
type_synonym u64 = "64 word"

section \<open>Collections of facts\<close>

named_theorems fault_iff \<open>when a step of the option monad succeeds\<close>
named_theorems size_simps \<open>size_t arithmetic that stays in range\<close>

lemma bind_Some_iff [fault_iff]: "Option.bind m f = Some y \<longleftrightarrow> (\<exists>x. m = Some x \<and> f x = Some y)"
  by (cases m) auto

lemma if_Some_iff [fault_iff]: "(if c then Some x else None) = Some y \<longleftrightarrow> c \<and> x = y"
  by auto

section \<open>\<open>size_t\<close> and pointer arithmetic\<close>

definition size_sub :: "nat \<Rightarrow> nat \<Rightarrow> nat" where
  "size_sub a b = nat ((int a - int b) mod 2 ^ 64)"

lemma size_sub_ge [size_simps]: "b \<le> a \<Longrightarrow> a < 2 ^ 64 \<Longrightarrow> size_sub a b = a - b"
  unfolding size_sub_def of_nat_diff [symmetric] by simp

lemma size_sub_self [simp]: "size_sub a a = 0"
  by (simp add: size_sub_def)

lemma size_sub_wraps: "a < b \<Longrightarrow> b \<le> 2 ^ 64 \<Longrightarrow> size_sub a b = 2 ^ 64 + a - b"
proof -
  assume "a < b" "b \<le> 2 ^ 64"
  then have "(int a - int b + 2 ^ 64) mod 2 ^ 64 = int a - int b + 2 ^ 64"
    by (intro mod_pos_pos_trivial) auto
  then have "(int a - int b) mod 2 ^ 64 = int a - int b + 2 ^ 64"
    by simp
  also have "\<dots> = int (2 ^ 64 + a - b)"
    using \<open>a < b\<close> \<open>b \<le> 2 ^ 64\<close> by simp
  finally show ?thesis by (simp add: size_sub_def)
qed

text \<open>An \<open>int\<close> value converted to \<open>size_t\<close> is sign-extended.\<close>

definition size_of_int32 :: "u32 \<Rightarrow> nat" where
  "size_of_int32 w = unat (scast w :: u64)"

text \<open>
  The element a pointer refers to after adding a \<open>size_t\<close> offset: addresses are computed
  modulo \<open>2 ^ 64\<close>, so an offset in the upper half moves the pointer backwards.
\<close>

definition ptr_index :: "nat \<Rightarrow> nat \<Rightarrow> int" where
  "ptr_index base off = (if off < 2 ^ 63 then int base + int off else int base + int off - 2 ^ 64)"

lemma ptr_index_small [size_simps]: "off < 2 ^ 63 \<Longrightarrow> ptr_index base off = int (base + off)"
  by (simp add: ptr_index_def)

lemma ptr_index_back:
  assumes "a < b" "b \<le> 2 ^ 63"
  shows "ptr_index base (size_sub a b) = int base + int a - int b"
  using assms by (simp add: ptr_index_def size_sub_wraps)

section \<open>Buffers\<close>

definition rd :: "'a list \<Rightarrow> int \<Rightarrow> 'a option" where
  "rd m i = (if 0 \<le> i \<and> i < int (length m) then Some (m ! nat i) else None)"

definition rd_slice :: "'a list \<Rightarrow> int \<Rightarrow> nat \<Rightarrow> 'a list option" where
  "rd_slice m i n =
     (if 0 \<le> i \<and> i + int n \<le> int (length m) then Some (take n (drop (nat i) m)) else None)"

definition wr_slice :: "'a list \<Rightarrow> int \<Rightarrow> 'a list \<Rightarrow> 'a list option" where
  "wr_slice m i bs =
     (if 0 \<le> i \<and> i + int (length bs) \<le> int (length m)
      then Some (take (nat i) m @ bs @ drop (nat i + length bs) m) else None)"

lemma rd_Some_iff [fault_iff]:
  "rd m i = Some b \<longleftrightarrow> 0 \<le> i \<and> i < int (length m) \<and> b = m ! nat i"
  by (auto simp: rd_def)

lemma rd_of_nat [simp]: "n < length m \<Longrightarrow> rd m (int n) = Some (m ! n)"
  by (simp add: rd_def)

lemma rd_slice_of_nat [simp]: "i + n \<le> length m \<Longrightarrow> rd_slice m (int i) n = Some (take n (drop i m))"
  by (simp add: rd_slice_def)

lemma rd_slice_Some_iff [fault_iff]:
  "rd_slice m i n = Some bs \<longleftrightarrow>
     0 \<le> i \<and> i + int n \<le> int (length m) \<and> bs = take n (drop (nat i) m)"
  by (auto simp: rd_slice_def)

lemma rd_slice_length: "rd_slice m i n = Some bs \<Longrightarrow> length bs = n"
  by (auto simp: rd_slice_def split: if_splits)

lemma wr_slice_of_nat [simp]:
  "i + length bs \<le> length m \<Longrightarrow>
   wr_slice m (int i) bs = Some (take i m @ bs @ drop (i + length bs) m)"
  by (simp add: wr_slice_def)

lemma wr_slice_length: "wr_slice m i bs = Some m' \<Longrightarrow> length m' = length m"
  by (auto simp: wr_slice_def split: if_splits)

lemma take_drop_wr:
  "i + length bs \<le> length m \<Longrightarrow>
   take (length bs) (drop i (take i m @ bs @ drop (i + length bs) m)) = bs"
  by simp

lemma take_drop_append_wr:
  assumes "j + n = i" "i + length bs \<le> length m"
  shows "take (n + length bs) (drop j (take i m @ bs @ drop (i + length bs) m))
         = take n (drop j m) @ bs"
proof -
  have "i - j = n" "j \<le> i" "i \<le> length m" using assms by auto
  then have "drop j (take i m) = take n (drop j m)"
    by (simp add: drop_take)
  with \<open>j \<le> i\<close> \<open>i \<le> length m\<close> \<open>i - j = n\<close> show ?thesis using assms by simp
qed

section \<open>Slices of slices\<close>

lemma take_drop_take:
  "i + n \<le> k \<Longrightarrow> take n (drop i (take k xs)) = take n (drop i xs)"
  by (simp add: drop_take min_def)

lemma list4_eq:
  "length bs = 4 \<Longrightarrow> bs = [bs ! 0, bs ! 1, bs ! 2, bs ! 3]"
  by (simp add: list_eq_iff_nth_eq nth_Cons' eval_nat_numeral less_Suc_eq)

lemma nth_take_drop: "i < n \<Longrightarrow> take n (drop j xs) ! i = drop j xs ! i"
  by simp

lemma sint32_eq: "sint (w :: u32) = (if uint w < 2 ^ 31 then uint w else uint w - 2 ^ 32)"
proof -
  have "sint w = (uint w + 2 ^ 31) mod 2 ^ 32 - 2 ^ 31"
    by (simp add: sint_uint signed_take_bit_eq_take_bit_shift take_bit_eq_mod)
  moreover have "0 \<le> uint w" "uint w < 2 ^ 32"
    using uint_lt2p [of w] by simp_all
  ultimately show ?thesis by (auto simp: mod_pos_geq)
qed

lemma wrap64_neg: "- (2 ^ 64) \<le> k \<Longrightarrow> k < 0 \<Longrightarrow> k mod 2 ^ 64 = k + (2 ^ 64 :: int)"
proof -
  assume "- (2 ^ 64) \<le> k" "k < 0"
  then have "(k + 2 ^ 64) mod 2 ^ 64 = k + 2 ^ 64" by (intro mod_pos_pos_trivial) simp_all
  then show ?thesis by (simp only: mod_add_self2)
qed

lemma uint_scast64: "uint (scast (w :: u32) :: u64) = sint w mod 2 ^ 64"
  unfolding scast_eq by (simp only: uint_word_of_int) simp

lemma size_of_int32_uint:
  "int (size_of_int32 w) = (if uint w < 2 ^ 31 then uint w else 2 ^ 64 - 2 ^ 32 + uint w)"
proof (cases "uint w < 2 ^ 31")
  case True
  then have s: "sint w = uint w" by (simp add: sint32_eq)
  have "sint w mod 2 ^ 64 = sint w"
    using True s by (intro mod_pos_pos_trivial) simp_all
  then have "uint (scast w :: u64) = uint w"
    using s uint_scast64 [of w] by metis
  then show ?thesis unfolding size_of_int32_def uint_nat [symmetric] using True by metis
next
  case False
  have "uint w < 2 ^ 32" using uint_lt2p [of w] by simp
  with False have s: "sint w = uint w - 2 ^ 32" "sint w < 0" "- (2 ^ 64) \<le> sint w"
    by (simp_all add: sint32_eq)
  have "uint (scast w :: u64) = sint w + 2 ^ 64"
    unfolding uint_scast64 by (rule wrap64_neg) (use s in simp_all)
  then have "uint (scast w :: u64) = 2 ^ 64 - 2 ^ 32 + uint w"
    using s(1) by linarith
  then show ?thesis unfolding size_of_int32_def uint_nat [symmetric] using False by metis
qed

lemma size_of_int32_eq:
  "size_of_int32 w = (if unat w < 2 ^ 31 then unat w else 2 ^ 64 - 2 ^ 32 + unat w)"
proof -
  obtain k where k: "k = unat w" "uint w = int k" using uint_nat by blast
  show ?thesis using size_of_int32_uint [of w]
    unfolding k(2) k(1) [symmetric] by (cases "k < 2 ^ 31") simp_all
qed

lemma size_of_int32_small:
  "size_of_int32 w < 2 ^ 31 \<Longrightarrow> size_of_int32 w = unat w"
  by (auto simp: size_of_int32_eq split: if_splits)

lemma size_of_int32_of_nat:
  "n < 2 ^ 31 \<Longrightarrow> size_of_int32 (of_nat n) = n"
  by (simp add: size_of_int32_eq unat_of_nat)

lemma append_overlap:
  assumes "xs @ ys = zs @ ws" "length xs \<le> length zs"
  obtains u where "zs = xs @ u" "ys = u @ ws"
  using assms by (auto simp: append_eq_append_conv2)

lemma unat_ucast_byte_u32: "unat (ucast (w :: byte) :: u32) = unat w"
proof -
  have "unat w < 256" using unsigned_less [of w] by simp
  then show ?thesis by (simp add: unsigned_ucast_eq take_bit_nat_eq_self)
qed

end
