(* ===== verification/Unix_IO.thy ===== *)
theory Unix_IO
  imports Prelude
begin

text \<open>
  The POSIX calls the buffering code uses, as far as it can observe them. What the kernel will
  answer is written down beforehand as a script, one event per call, so that every schedule of
  short reads, short writes, interruptions and failures is a value of the script.
\<close>

section \<open>\<open>read\<close> and \<open>write\<close>\<close>

datatype errno = EAGAIN | EWOULDBLOCK | EINTR | EFATAL

definition transient :: "errno \<Rightarrow> bool" where
  "transient e \<longleftrightarrow> e = EAGAIN \<or> e = EWOULDBLOCK \<or> e = EINTR"

datatype rd_event = RdBytes "byte list" | RdErr errno

text \<open>
  \<open>read (fd, buf, n)\<close> returns at most \<open>n\<close> of the bytes that are there; the rest stays. An
  exhausted script is end of file.
\<close>

fun sys_read :: "nat \<Rightarrow> rd_event list \<Rightarrow> (errno + byte list) \<times> rd_event list" where
  "sys_read n [] = (Inr [], [])"
| "sys_read n (RdErr e # es) = (Inl e, es)"
| "sys_read n (RdBytes bs # es) =
     (Inr (take n bs), if length bs \<le> n then es else RdBytes (drop n bs) # es)"

fun rd_stream :: "rd_event list \<Rightarrow> byte list" where
  "rd_stream [] = []"
| "rd_stream (RdErr e # es) = rd_stream es"
| "rd_stream (RdBytes bs # es) = bs @ rd_stream es"

datatype wr_event = WrUpTo nat | WrErr errno

record outfd =
  wr_plan :: "wr_event list"
  written :: "byte list"

fun sys_write :: "byte list \<Rightarrow> outfd \<Rightarrow> (errno + nat) \<times> outfd" where
  "sys_write bs fd =
     (case wr_plan fd of
        [] \<Rightarrow> (Inr (length bs), fd\<lparr>written := written fd @ bs\<rparr>)
      | WrErr e # es \<Rightarrow> (Inl e, fd\<lparr>wr_plan := es\<rparr>)
      | WrUpTo k # es \<Rightarrow>
          (Inr (min k (length bs)), fd\<lparr>wr_plan := es, written := written fd @ take k bs\<rparr>))"

declare sys_write.simps [simp del]

lemma sys_read_Inr:
  "sys_read n es = (Inr bs, es') \<Longrightarrow> length bs \<le> n \<and> rd_stream es = bs @ rd_stream es'"
  by (induction n es rule: sys_read.induct) (auto split: if_splits)

lemma sys_read_Inl: "sys_read n es = (Inl e, es') \<Longrightarrow> rd_stream es' = rd_stream es"
  by (induction n es rule: sys_read.induct) auto

lemma sys_write_all: "wr_plan fd = [] \<Longrightarrow> sys_write bs fd = (Inr (length bs), fd\<lparr>written := written fd @ bs\<rparr>)"
  by (simp add: sys_write.simps)

lemma sys_write_Inr:
  "sys_write bs fd = (Inr n, fd') \<Longrightarrow> n \<le> length bs \<and> written fd' = written fd @ take n bs"
  by (auto simp: sys_write.simps min_def split: list.splits wr_event.splits)

lemma sys_write_Inl: "sys_write bs fd = (Inl e, fd') \<Longrightarrow> written fd' = written fd"
  by (auto simp: sys_write.simps split: list.splits wr_event.splits)

section \<open>\<open>poll\<close>\<close>

datatype pollflag = POLLIN | POLLPRI | POLLOUT | POLLERR | POLLHUP | POLLNVAL

record pollfd =
  pfd :: int
  events :: "pollflag list"
  revents :: "pollflag list"

definition hits :: "pollflag list \<Rightarrow> pollflag list \<Rightarrow> bool" where
  "hits fs rs \<longleftrightarrow> (\<exists>f \<in> set rs. f \<in> set fs)"

abbreviation collapsed :: "pollflag list" where
  "collapsed \<equiv> [POLLERR, POLLHUP, POLLNVAL]"

text \<open>\<open>poll\<close> reports the requested events and, requested or not, the three error conditions.\<close>

definition poll_reports :: "pollflag list \<Rightarrow> pollflag list \<Rightarrow> pollflag list" where
  "poll_reports requested actual = filter (\<lambda>f. f \<in> set requested \<or> f \<in> set collapsed) actual"

end
