(* ===== verification/Bufftools.thy ===== *)
theory Bufftools
  imports Unix_IO
begin

text \<open>
  The circular FIFO of \<open>src/bufftools.c\<close>: \<open>b\<close> is the memory block, \<open>dpos\<close> the start of the
  stored data and \<open>dlen\<close> its length; the data may run past the end of the block and continue at
  its start. \<open>fifo_contents\<close> is the abstract queue, and the two transfer operations are shown to
  append to its end what was read and to remove from its front what was written.
\<close>

section \<open>State and operations\<close>

definition BTFIFO_F_USE_WMIN :: u32 where "BTFIFO_F_USE_WMIN = 1"
definition BTFIFO_F_ASSUME_FD_READY :: u32 where "BTFIFO_F_ASSUME_FD_READY = 2"

record btfifo =
  bsize :: nat
  flags :: u32
  wmin :: nat
  b :: "byte list"
  dlen :: nat
  dpos :: nat
  p0 :: pollfd
  p1 :: pollfd

text \<open>
  \<open>malloc\<close> gives no block (\<open>None\<close>) or one with arbitrary contents. The initialisation of the
  poll descriptors is the source's, which sets the events of descriptor 1 twice.
\<close>

definition btfifo_create :: "btfifo \<Rightarrow> byte list option \<Rightarrow> int \<times> btfifo" where
  "btfifo_create f block =
     (case block of
        None \<Rightarrow> (1, f\<lparr>b := []\<rparr>)
      | Some m \<Rightarrow>
          (0, f\<lparr>b := m,
                p0 := (p0 f)\<lparr>pfd := -1\<rparr>,
                p1 := (p1 f)\<lparr>events := [POLLOUT], pfd := -1\<rparr>,
                dlen := 0, dpos := 0\<rparr>))"

text \<open>
  The code from the second \<open>read\<close> on (one free region, or the region that starts after the end
  of the block was reached).
\<close>

definition btfifo_fd_region2 :: "btfifo \<Rightarrow> rd_event list \<Rightarrow> (int \<times> btfifo \<times> rd_event list) option" where
  "btfifo_fd_region2 f es =
     (let f_len = size_sub (bsize f) (dlen f);
          wpos = (if dpos f = 0 then int (dlen f) else ptr_index 0 (size_sub (dpos f) f_len))
      in case sys_read f_len es of
           (Inl e, es') \<Rightarrow> Some (if transient e then -1 else -1401, f, es')
         | (Inr bs, es') \<Rightarrow>
             if bs = [] then Some (0, f, es')
             else do {
               m \<leftarrow> wr_slice (b f) wpos bs;
               Some (int (length bs), f\<lparr>b := m, dlen := dlen f + length bs\<rparr>, es')
             })"

text \<open>The transfer itself, after the preliminary test of the descriptor.\<close>

definition btfifo_fd_regions :: "btfifo \<Rightarrow> rd_event list \<Rightarrow> (int \<times> btfifo \<times> rd_event list) option" where
  "btfifo_fd_regions f es =
     (if size_sub (bsize f) (dlen f) = 0 then Some (-2, f, es)
      else if dpos f \<noteq> 0 \<and> dpos f + dlen f < bsize f then
        (let f_len = size_sub (bsize f) (dpos f + dlen f)
         in case sys_read f_len es of
              (Inl e, es') \<Rightarrow> Some (if transient e then -1 else -1301, f, es')
            | (Inr bs, es') \<Rightarrow>
                if bs = [] then Some (0, f, es')
                else do {
                  m \<leftarrow> wr_slice (b f) (int (dpos f + dlen f)) bs;
                  let g = f\<lparr>b := m, dlen := dlen f + length bs\<rparr>;
                  if length bs \<noteq> f_len then Some (int (length bs), g, es')
                  else btfifo_fd_region2 g es'
                })
      else btfifo_fd_region2 f es)"

definition btfifo_fd_to_fifo ::
    "btfifo \<Rightarrow> int \<Rightarrow> int \<times> pollflag list \<Rightarrow> rd_event list \<Rightarrow> (int \<times> btfifo \<times> rd_event list) option" where
  "btfifo_fd_to_fifo f fd polled es =
     (if flags f AND BTFIFO_F_ASSUME_FD_READY \<noteq> 0
      then btfifo_fd_regions (f\<lparr>p0 := (p0 f)\<lparr>pfd := fd\<rparr>\<rparr>) es
      else
        let g = f\<lparr>p0 := (p0 f)\<lparr>pfd := fd, revents := snd polled\<rparr>\<rparr>
        in if fst polled = -1 then Some (-103, g, es)
           else if hits collapsed (snd polled) then Some (-1201, g, es)
           else btfifo_fd_regions g es)"

definition btfifo_out_region2 :: "btfifo \<Rightarrow> outfd \<Rightarrow> (int \<times> btfifo \<times> outfd) option" where
  "btfifo_out_region2 f out =
     do {
       data \<leftarrow> rd_slice (b f) (int (dpos f)) (dlen f);
       (case sys_write data out of
          (Inl e, out') \<Rightarrow> Some (if transient e then -1 else -101, f, out')
        | (Inr n, out') \<Rightarrow>
            if n = 0 then Some (0, f, out')
            else
              let g = (if dlen f = 0 then f\<lparr>dpos := 0\<rparr> else f);
                  h = g\<lparr>dlen := size_sub (dlen g) n, dpos := dpos g + n\<rparr>
              in Some (int n, if dpos h = bsize h then h\<lparr>dpos := 0\<rparr> else h, out'))
     }"

definition btfifo_out_regions :: "btfifo \<Rightarrow> outfd \<Rightarrow> (int \<times> btfifo \<times> outfd) option" where
  "btfifo_out_regions f out =
     (if dlen f = 0 then Some (0, f, out)
      else if flags f AND BTFIFO_F_USE_WMIN \<noteq> 0 \<and> wmin f > dlen f then Some (0, f, out)
      else if dpos f \<noteq> 0 \<and> dpos f + dlen f > bsize f then
        (let u_len = size_sub (bsize f) (dpos f)
         in do {
              data \<leftarrow> rd_slice (b f) (int (dpos f)) u_len;
              (case sys_write data out of
                 (Inl e, out') \<Rightarrow> Some (if transient e then -1 else -101, f, out')
               | (Inr n, out') \<Rightarrow>
                   if n = 0 then Some (0, f, out')
                   else
                     let g = f\<lparr>dlen := size_sub (dlen f) n\<rparr>
                     in if n \<noteq> u_len then Some (int n, g\<lparr>dpos := dpos g + n\<rparr>, out')
                        else btfifo_out_region2 (g\<lparr>dpos := 0\<rparr>) out')
            })
      else btfifo_out_region2 f out)"

definition btfifo_fifo_to_fd ::
    "btfifo \<Rightarrow> int \<Rightarrow> int \<times> pollflag list \<Rightarrow> outfd \<Rightarrow> (int \<times> btfifo \<times> outfd) option" where
  "btfifo_fifo_to_fd f fd polled out =
     (if flags f AND BTFIFO_F_ASSUME_FD_READY \<noteq> 0 then btfifo_out_regions f out
      else
        let g = f\<lparr>p1 := (p1 f)\<lparr>pfd := fd, revents := snd polled\<rparr>\<rparr>
        in if fst polled = -1 then Some (-103, g, out)
           else if hits collapsed (snd polled) then Some (-101, g, out)
           else btfifo_out_regions g out)"

definition btfifo_get_free_len :: "btfifo \<Rightarrow> nat" where
  "btfifo_get_free_len f = size_sub (bsize f) (dlen f)"

definition btfifo_get_stored_len :: "btfifo \<Rightarrow> nat" where
  "btfifo_get_stored_len f = dlen f"

definition btfifo_destroy :: "btfifo \<Rightarrow> btfifo" where
  "btfifo_destroy f = f\<lparr>b := []\<rparr>"

section \<open>Rings\<close>

text \<open>\<open>ring m p n\<close>: the \<open>n\<close> elements that start at \<open>p\<close> in the block \<open>m\<close>, going around its end.\<close>

definition ring :: "'a list \<Rightarrow> nat \<Rightarrow> nat \<Rightarrow> 'a list" where
  "ring m p n = take n (drop p m @ take p m)"

lemma length_ring: "p \<le> length m \<Longrightarrow> n \<le> length m \<Longrightarrow> length (ring m p n) = n"
  by (simp add: ring_def)

lemma ring_straight: "p + n \<le> length m \<Longrightarrow> ring m p n = take n (drop p m)"
  by (simp add: ring_def)

lemma ring_wrapped:
  assumes "p + n = length m + w" "w \<le> p" "p \<le> length m"
  shows "ring m p n = drop p m @ take w m"
proof -
  have "n - (length m - p) = w" "length m - p \<le> n" using assms by auto
  then show ?thesis using assms by (simp add: ring_def min_def)
qed

lemma ring_append_straight:
  assumes "p + n + length bs \<le> length m"
  shows "ring (take (p + n) m @ bs @ drop (p + n + length bs) m) p (n + length bs) = ring m p n @ bs"
proof -
  have "take (n + length bs) (drop p (take (p + n) m @ bs @ drop (p + n + length bs) m))
        = take n (drop p m) @ bs"
    by (rule take_drop_append_wr) (use assms in simp_all)
  then show ?thesis using assms by (simp add: ring_straight)
qed

lemma ring_append_wrapped:
  assumes "p + n = length m + w" "w + length bs \<le> p" "p \<le> length m"
  shows "ring (take w m @ bs @ drop (w + length bs) m) p (n + length bs) = ring m p n @ bs"
proof -
  let ?m = "take w m @ bs @ drop (w + length bs) m"
  have len: "length ?m = length m" using assms by simp
  have "ring ?m p (n + length bs) = drop p ?m @ take (w + length bs) ?m"
    by (rule ring_wrapped) (use assms len in simp_all)
  also have "drop p ?m = drop p m" using assms by simp
  also have "take (w + length bs) ?m = take w m @ bs" using assms by simp
  finally show ?thesis using assms by (simp add: ring_wrapped)
qed

lemma ring_drop_straight:
  assumes "k \<le> n" "p + n \<le> length m"
  shows "ring m (p + k) (n - k) = drop k (ring m p n)"
  using assms by (simp add: ring_straight drop_take add.commute)

lemma ring_drop_wrapped:
  assumes "p + n = length m + w" "w \<le> p" "p + k \<le> length m"
  shows "ring m (p + k) (n - k) = drop k (ring m p n)"
proof -
  have "k \<le> n" using assms by simp
  then have "ring m (p + k) (n - k) = drop (p + k) m @ take w m"
    by (intro ring_wrapped) (use assms in simp_all)
  also have "\<dots> = drop k (drop p m @ take w m)" using assms by (simp add: add.commute)
  finally show ?thesis using assms by (simp add: ring_wrapped)
qed

lemma ring_full_turn: "n \<le> length m \<Longrightarrow> ring m (length m) n = ring m 0 n"
  by (simp add: ring_def)

section \<open>Invariant and abstraction\<close>

definition fifo_inv :: "btfifo \<Rightarrow> bool" where
  "fifo_inv f \<longleftrightarrow> length (b f) = bsize f \<and> 0 < bsize f \<and> bsize f < 2 ^ 63 \<and>
     dlen f \<le> bsize f \<and> dpos f < bsize f"

definition fifo_contents :: "btfifo \<Rightarrow> byte list" where
  "fifo_contents f = ring (b f) (dpos f) (dlen f)"

text \<open>The settings the caller made, which no transfer changes.\<close>

definition fifo_config :: "btfifo \<Rightarrow> nat \<times> u32 \<times> nat" where
  "fifo_config f = (bsize f, flags f, wmin f)"

lemma fifo_contents_p0 [simp]: "fifo_contents (f\<lparr>p0 := p\<rparr>) = fifo_contents f"
  by (simp add: fifo_contents_def)

lemma fifo_contents_p1 [simp]: "fifo_contents (f\<lparr>p1 := p\<rparr>) = fifo_contents f"
  by (simp add: fifo_contents_def)

lemma fifo_inv_p0 [simp]: "fifo_inv (f\<lparr>p0 := p\<rparr>) = fifo_inv f"
  by (simp add: fifo_inv_def)

lemma fifo_inv_p1 [simp]: "fifo_inv (f\<lparr>p1 := p\<rparr>) = fifo_inv f"
  by (simp add: fifo_inv_def)

lemma fifo_config_p [simp]:
  "fifo_config (f\<lparr>p0 := p\<rparr>) = fifo_config f" "fifo_config (f\<lparr>p1 := p\<rparr>) = fifo_config f"
  by (simp_all add: fifo_config_def)

lemma length_fifo_contents: "fifo_inv f \<Longrightarrow> length (fifo_contents f) = dlen f"
  by (simp add: fifo_inv_def fifo_contents_def length_ring)

definition fifo_took :: "btfifo \<Rightarrow> rd_event list \<Rightarrow> btfifo \<Rightarrow> rd_event list \<Rightarrow> byte list \<Rightarrow> bool" where
  "fifo_took f es f' es' bs \<longleftrightarrow>
     fifo_inv f' \<and> fifo_config f' = fifo_config f \<and>
     fifo_contents f' = fifo_contents f @ bs \<and> rd_stream es = bs @ rd_stream es'"

definition fifo_gave :: "btfifo \<Rightarrow> outfd \<Rightarrow> btfifo \<Rightarrow> outfd \<Rightarrow> byte list \<Rightarrow> bool" where
  "fifo_gave f out f' out' bs \<longleftrightarrow>
     fifo_inv f' \<and> fifo_config f' = fifo_config f \<and>
     fifo_contents f = bs @ fifo_contents f' \<and> written out' = written out @ bs"

lemma fifo_took_trans:
  "fifo_took f es g es1 bs \<Longrightarrow> fifo_took g es1 h es2 cs \<Longrightarrow> fifo_took f es h es2 (bs @ cs)"
  by (simp add: fifo_took_def)

lemma fifo_gave_trans:
  "fifo_gave f out g out1 bs \<Longrightarrow> fifo_gave g out1 h out2 cs \<Longrightarrow> fifo_gave f out h out2 (bs @ cs)"
  by (simp add: fifo_gave_def)

section \<open>Filling\<close>

text \<open>Storing bytes right after the data, before the end of the block.\<close>

lemma store_straight:
  assumes inv: "fifo_inv f" and room: "dpos f + dlen f + length bs \<le> bsize f"
    and es: "rd_stream es = bs @ rd_stream es'"
  shows "\<exists>m. wr_slice (b f) (int (dpos f + dlen f)) bs = Some m \<and>
    fifo_took f es (f\<lparr>b := m, dlen := dlen f + length bs\<rparr>) es' bs"
proof -
  let ?m = "take (dpos f + dlen f) (b f) @ bs @ drop (dpos f + dlen f + length bs) (b f)"
  have len: "length (b f) = bsize f" "dpos f < bsize f" using inv by (simp_all add: fifo_inv_def)
  then have w: "wr_slice (b f) (int (dpos f + dlen f)) bs = Some ?m"
    by (subst wr_slice_of_nat) (use room in simp_all)
  moreover have "ring ?m (dpos f) (dlen f + length bs) = ring (b f) (dpos f) (dlen f) @ bs"
    by (rule ring_append_straight) (use room len in simp)
  ultimately have "fifo_took f es (f\<lparr>b := ?m, dlen := dlen f + length bs\<rparr>) es' bs"
    using inv room es wr_slice_length [OF w]
    by (simp add: fifo_took_def fifo_inv_def fifo_config_def fifo_contents_def)
  with w show ?thesis by blast
qed

text \<open>Storing bytes in the gap before the data, once the end of the block has been reached.\<close>

lemma store_wrapped:
  assumes inv: "fifo_inv f" and past: "bsize f \<le> dpos f + dlen f"
    and room: "dlen f + length bs \<le> bsize f"
    and es: "rd_stream es = bs @ rd_stream es'"
  shows "\<exists>m. wr_slice (b f) (int (dpos f + dlen f - bsize f)) bs = Some m \<and>
    fifo_took f es (f\<lparr>b := m, dlen := dlen f + length bs\<rparr>) es' bs"
proof -
  let ?w = "dpos f + dlen f - bsize f"
  let ?m = "take ?w (b f) @ bs @ drop (?w + length bs) (b f)"
  have len: "length (b f) = bsize f" "dpos f < bsize f" using inv by (simp_all add: fifo_inv_def)
  have w: "wr_slice (b f) (int ?w) bs = Some ?m"
    by (rule wr_slice_of_nat) (use room len in simp)
  moreover have "ring ?m (dpos f) (dlen f + length bs) = ring (b f) (dpos f) (dlen f) @ bs"
    by (rule ring_append_wrapped) (use room past len in simp_all)
  ultimately have "fifo_took f es (f\<lparr>b := ?m, dlen := dlen f + length bs\<rparr>) es' bs"
    using inv room es wr_slice_length [OF w]
    by (simp add: fifo_took_def fifo_inv_def fifo_config_def fifo_contents_def)
  with w show ?thesis by blast
qed

lemma fifo_took_nothing:
  "fifo_inv f \<Longrightarrow> rd_stream es' = rd_stream es \<Longrightarrow> fifo_took f es f es' []"
  by (simp add: fifo_took_def)

definition fills :: "btfifo \<Rightarrow> rd_event list \<Rightarrow> (int \<times> btfifo \<times> rd_event list) option \<Rightarrow> bool" where
  "fills f es x \<longleftrightarrow> (\<exists>r f' es' bs. x = Some (r, f', es') \<and> fifo_took f es f' es' bs)"

lemma fillsI: "x = Some (r, f', es') \<Longrightarrow> fifo_took f es f' es' bs \<Longrightarrow> fills f es x"
  by (auto simp: fills_def)

lemma fills_nothing: "fifo_inv f \<Longrightarrow> rd_stream es' = rd_stream es \<Longrightarrow> fills f es (Some (r, f, es'))"
  by (erule fillsI [OF refl fifo_took_nothing]) assumption

lemma fills_after: "fifo_took f es g es1 bs \<Longrightarrow> fills g es1 x \<Longrightarrow> fills f es x"
  unfolding fills_def by (elim exE conjE) (intro exI conjI, assumption, erule (1) fifo_took_trans)

lemma fd_region2_fills:
  assumes inv: "fifo_inv f" and reg: "dpos f = 0 \<or> bsize f \<le> dpos f + dlen f"
  shows "fills f es (btfifo_fd_region2 f es)"
proof -
  have i: "length (b f) = bsize f" "dlen f \<le> bsize f" "dpos f < bsize f" "bsize f < 2 ^ 63"
    using inv by (simp_all add: fifo_inv_def)
  let ?n = "bsize f - dlen f"
  define wpos where "wpos = (if dpos f = 0 then int (dlen f) else ptr_index 0 (size_sub (dpos f) ?n))"
  have n: "size_sub (bsize f) (dlen f) = ?n" using i by (simp add: size_sub_ge)
  have store: "\<exists>m. wr_slice (b f) wpos bs = Some m \<and>
      fifo_took f es (f\<lparr>b := m, dlen := dlen f + length bs\<rparr>) es' bs"
    if le: "length bs \<le> ?n" and st: "rd_stream es = bs @ rd_stream es'" for bs es'
  proof (cases "dpos f = 0")
    case True
    have "dpos f + dlen f + length bs \<le> bsize f" using True le i by simp
    from store_straight [OF inv this st] show ?thesis
      using True by (simp add: wpos_def)
  next
    case False
    with reg have past: "bsize f \<le> dpos f + dlen f" and "?n \<le> dpos f" by auto
    then have "size_sub (dpos f) ?n = dpos f + dlen f - bsize f"
      using i by (simp add: size_sub_ge)
    moreover have "dpos f + dlen f - bsize f < 2 ^ 63" using i by simp
    ultimately have "wpos = int (dpos f + dlen f - bsize f)"
      using False by (simp add: wpos_def ptr_index_small)
    moreover have "dlen f + length bs \<le> bsize f" using le i by simp
    ultimately show ?thesis using store_wrapped [OF inv past _ st] by simp
  qed
  obtain res es' where rd: "sys_read ?n es = (res, es')" by fastforce
  show ?thesis
  proof (cases res)
    case (Inl e)
    with rd show ?thesis
      by (simp add: btfifo_fd_region2_def n fills_nothing inv sys_read_Inl)
  next
    case (Inr bs)
    with rd have r: "length bs \<le> ?n" "rd_stream es = bs @ rd_stream es'"
      using sys_read_Inr by auto
    show ?thesis
    proof (cases "bs = []")
      case True
      with r rd Inr show ?thesis by (simp add: btfifo_fd_region2_def n fills_nothing inv)
    next
      case False
      from store [OF r] obtain m where m: "wr_slice (b f) wpos bs = Some m"
        "fifo_took f es (f\<lparr>b := m, dlen := dlen f + length bs\<rparr>) es' bs" by blast
      then show ?thesis
        using False rd Inr
        by (intro fillsI [OF _ m(2)])
           (simp add: btfifo_fd_region2_def n Let_def flip: wpos_def)
    qed
  qed
qed

lemma fd_regions_fills:
  assumes inv: "fifo_inv f"
  shows "fills f es (btfifo_fd_regions f es)"
proof -
  have i: "length (b f) = bsize f" "dlen f \<le> bsize f" "dpos f < bsize f" "bsize f < 2 ^ 63"
    using inv by (simp_all add: fifo_inv_def)
  show ?thesis
  proof (cases "size_sub (bsize f) (dlen f) = 0 \<or> \<not> (dpos f \<noteq> 0 \<and> dpos f + dlen f < bsize f)")
    case True
    then show ?thesis
      using inv by (auto simp: btfifo_fd_regions_def fills_nothing intro!: fd_region2_fills)
  next
    case False
    let ?n = "bsize f - (dpos f + dlen f)"
    have n: "size_sub (bsize f) (dpos f + dlen f) = ?n" using False i by (simp add: size_sub_ge)
    obtain res es' where rd: "sys_read ?n es = (res, es')" by fastforce
    show ?thesis
    proof (cases res)
      case (Inl e)
      with rd False show ?thesis
        by (simp add: btfifo_fd_regions_def n fills_nothing inv sys_read_Inl)
    next
      case (Inr bs)
      with rd have r: "length bs \<le> ?n" "rd_stream es = bs @ rd_stream es'"
        using sys_read_Inr by auto
      then have "dpos f + dlen f + length bs \<le> bsize f" using False by auto
      from store_straight [OF inv this r(2)] obtain m where
        m: "wr_slice (b f) (int (dpos f + dlen f)) bs = Some m"
          "fifo_took f es (f\<lparr>b := m, dlen := dlen f + length bs\<rparr>) es' bs" by blast
      let ?g = "f\<lparr>b := m, dlen := dlen f + length bs\<rparr>"
      have "fills ?g es' (btfifo_fd_region2 ?g es')" if "length bs = ?n"
        by (rule fd_region2_fills) (use m(2) that False in \<open>auto simp: fifo_took_def\<close>)
      then show ?thesis
        using False rd Inr r m
        by (auto simp: btfifo_fd_regions_def n Let_def fills_nothing inv
            intro: fillsI [OF refl m(2)] fills_after [OF m(2)])
    qed
  qed
qed

lemma fills_config:
  "fifo_inv g = fifo_inv f \<Longrightarrow> fifo_config g = fifo_config f \<Longrightarrow> fifo_contents g = fifo_contents f \<Longrightarrow>
   fills g es x = fills f es x"
  by (simp add: fills_def fifo_took_def)

lemma fd_to_fifo_fills: "fifo_inv f \<Longrightarrow> fills f es (btfifo_fd_to_fifo f fd polled es)"
proof -
  assume inv: "fifo_inv f"
  have p: "fills (f\<lparr>p0 := p\<rparr>) es x = fills f es x" for p x
    by (rule fills_config) simp_all
  have "fills f es (btfifo_fd_regions (f\<lparr>p0 := p\<rparr>) es)" for p
    using fd_regions_fills [of "f\<lparr>p0 := p\<rparr>" es] inv by (simp add: p)
  moreover have "fills f es (Some (r, f\<lparr>p0 := p\<rparr>, es))" for r p
    using fills_nothing [of "f\<lparr>p0 := p\<rparr>" es es r] inv by (simp add: p)
  ultimately show ?thesis by (simp add: btfifo_fd_to_fifo_def Let_def)
qed

section \<open>Draining\<close>

definition drains :: "btfifo \<Rightarrow> outfd \<Rightarrow> (int \<times> btfifo \<times> outfd) option \<Rightarrow> bool" where
  "drains f out x \<longleftrightarrow> (\<exists>r f' out' bs. x = Some (r, f', out') \<and> fifo_gave f out f' out' bs)"

lemma drainsI: "x = Some (r, f', out') \<Longrightarrow> fifo_gave f out f' out' bs \<Longrightarrow> drains f out x"
  by (auto simp: drains_def)

lemma drains_nothing: "fifo_inv f \<Longrightarrow> written out' = written out \<Longrightarrow> drains f out (Some (r, f, out'))"
  by (rule drainsI [where bs = "[]", OF refl]) (simp add: fifo_gave_def)

lemma drains_after: "fifo_gave f out g out1 bs \<Longrightarrow> drains g out1 x \<Longrightarrow> drains f out x"
  unfolding drains_def by (elim exE conjE) (intro exI conjI, assumption, erule (1) fifo_gave_trans)

lemma give_straight:
  assumes inv: "fifo_inv f" and fits: "dpos f + dlen f \<le> bsize f" and n: "n \<le> dlen f"
    and out: "written out' = written out @ take n (take (dlen f) (drop (dpos f) (b f)))"
  shows "fifo_gave f out (f\<lparr>dlen := dlen f - n, dpos := if dpos f + n = bsize f then 0 else dpos f + n\<rparr>)
           out' (take n (fifo_contents f))"
proof -
  have len: "length (b f) = bsize f" using inv by (simp add: fifo_inv_def)
  have c: "ring (b f) (dpos f) (dlen f) = take (dlen f) (drop (dpos f) (b f))"
    by (rule ring_straight) (use fits len in simp)
  have d: "ring (b f) (dpos f + n) (dlen f - n) = drop n (ring (b f) (dpos f) (dlen f))"
    by (rule ring_drop_straight) (use fits len n in simp_all)
  have "ring (b f) (if dpos f + n = bsize f then 0 else dpos f + n) (dlen f - n)
        = drop n (ring (b f) (dpos f) (dlen f))"
  proof (cases "dpos f + n = bsize f")
    case True
    with fits n have "dlen f = n" by simp
    then show ?thesis using True d by (simp add: ring_def)
  qed (use d in simp)
  moreover have "written out' = written out @ take n (ring (b f) (dpos f) (dlen f))"
    using out by (simp only: c)
  ultimately show ?thesis
    using inv n fits
    by (auto simp: fifo_gave_def fifo_inv_def fifo_config_def fifo_contents_def)
qed

lemma give_wrapped:
  assumes inv: "fifo_inv f" and past: "bsize f < dpos f + dlen f" and n: "n \<le> bsize f - dpos f"
    and out: "written out' = written out @ take n (take (bsize f - dpos f) (drop (dpos f) (b f)))"
  shows "fifo_gave f out (f\<lparr>dlen := dlen f - n, dpos := if n = bsize f - dpos f then 0 else dpos f + n\<rparr>)
           out' (take n (fifo_contents f))"
proof -
  have i: "length (b f) = bsize f" "dpos f < bsize f" "dlen f \<le> bsize f"
    using inv by (simp_all add: fifo_inv_def)
  define w where "w = dpos f + dlen f - bsize f"
  have w: "dpos f + dlen f = length (b f) + w" "w \<le> dpos f"
    using past i by (simp_all add: w_def)
  have c: "ring (b f) (dpos f) (dlen f) = drop (dpos f) (b f) @ take w (b f)"
    by (rule ring_wrapped) (use w i in simp_all)
  have d: "ring (b f) (dpos f + n) (dlen f - n) = drop n (ring (b f) (dpos f) (dlen f))"
    by (rule ring_drop_wrapped [OF w]) (use i n in simp)
  have z: "ring (b f) 0 (dlen f - n) = drop n (ring (b f) (dpos f) (dlen f))"
    if "n = bsize f - dpos f"
  proof -
    have "dpos f + n = length (b f)" "dlen f - n \<le> length (b f)" using that i by simp_all
    then show ?thesis using d ring_full_turn [of "dlen f - n" "b f"] by simp
  qed
  have "take n (ring (b f) (dpos f) (dlen f)) = take n (take (bsize f - dpos f) (drop (dpos f) (b f)))"
    using n i by (simp add: c)
  then have "written out' = written out @ take n (ring (b f) (dpos f) (dlen f))"
    using out by metis
  then show ?thesis
    using inv n past i d z
    by (auto simp: fifo_gave_def fifo_inv_def fifo_config_def fifo_contents_def)
qed

lemma out_region2_drains:
  assumes inv: "fifo_inv f" and fits: "dpos f + dlen f \<le> bsize f"
  shows "drains f out (btfifo_out_region2 f out)"
proof -
  have i: "length (b f) = bsize f" "bsize f < 2 ^ 63" "dlen f \<le> bsize f"
    using inv by (simp_all add: fifo_inv_def)
  let ?data = "take (dlen f) (drop (dpos f) (b f))"
  have data: "rd_slice (b f) (int (dpos f)) (dlen f) = Some ?data"
    by (rule rd_slice_of_nat) (use fits i in simp)
  obtain res out' where wr: "sys_write ?data out = (res, out')" by fastforce
  show ?thesis
  proof (cases res)
    case (Inl e)
    with wr show ?thesis
      by (simp add: btfifo_out_region2_def data drains_nothing inv sys_write_Inl)
  next
    case (Inr n)
    from wr have w: "n \<le> length ?data" "written out' = written out @ take n ?data"
      unfolding Inr by (blast dest: sys_write_Inr)+
    then have n: "n \<le> dlen f" by simp
    show ?thesis
    proof (cases "n = 0")
      case True
      with w wr Inr show ?thesis by (simp add: btfifo_out_region2_def data drains_nothing inv)
    next
      case False
      have "size_sub (dlen f) n = dlen f - n" using n i by (simp add: size_sub_ge)
      then show ?thesis
        using False wr Inr n
        by (intro drainsI [OF _ give_straight [OF inv fits n w(2)]])
           (simp add: btfifo_out_region2_def data Let_def)
    qed
  qed
qed

lemma out_regions_drains:
  assumes inv: "fifo_inv f"
  shows "drains f out (btfifo_out_regions f out)"
proof (cases "dlen f = 0 \<or> flags f AND BTFIFO_F_USE_WMIN \<noteq> 0 \<and> wmin f > dlen f \<or>
    \<not> (dpos f \<noteq> 0 \<and> dpos f + dlen f > bsize f)")
  case True
  have "dpos f + dlen f \<le> bsize f" if "\<not> (dpos f \<noteq> 0 \<and> dpos f + dlen f > bsize f)"
    using that inv by (auto simp: fifo_inv_def)
  then show ?thesis
    using True by (auto simp: btfifo_out_regions_def inv intro: drains_nothing out_region2_drains)
next
  case False
  then have past: "bsize f < dpos f + dlen f" by simp
  have i: "length (b f) = bsize f" "bsize f < 2 ^ 63" "dlen f \<le> bsize f" "dpos f < bsize f"
    using inv by (simp_all add: fifo_inv_def)
  let ?u = "bsize f - dpos f"
  let ?data = "take ?u (drop (dpos f) (b f))"
  have u: "size_sub (bsize f) (dpos f) = ?u" using i by (simp add: size_sub_ge)
  have data: "rd_slice (b f) (int (dpos f)) ?u = Some ?data"
    by (rule rd_slice_of_nat) (use i in simp)
  obtain res out' where wr: "sys_write ?data out = (res, out')" by fastforce
  show ?thesis
  proof (cases res)
    case (Inl e)
    with wr False show ?thesis
      by (simp add: btfifo_out_regions_def u data drains_nothing inv sys_write_Inl)
  next
    case (Inr n)
    from wr have w: "n \<le> length ?data" "written out' = written out @ take n ?data"
      unfolding Inr by (blast dest: sys_write_Inr)+
    then have n: "n \<le> ?u" "n \<le> dlen f" using past by auto
    have gave: "fifo_gave f out (f\<lparr>dlen := dlen f - n, dpos := if n = ?u then 0 else dpos f + n\<rparr>)
           out' (take n (fifo_contents f))"
      by (rule give_wrapped [OF inv past n(1) w(2)])
    have keep: "n = 0 \<Longrightarrow> written out' = written out" using w(2) by simp
    have s: "size_sub (dlen f) n = dlen f - n" using n i by (simp add: size_sub_ge)
    have "drains (f\<lparr>dlen := dlen f - n, dpos := 0\<rparr>) out'
        (btfifo_out_region2 (f\<lparr>dlen := dlen f - n, dpos := 0\<rparr>) out')" if "n = ?u"
      using gave that i by (intro out_region2_drains) (auto simp: fifo_gave_def)
    then show ?thesis
      using False wr Inr gave
      by (auto simp: btfifo_out_regions_def u data s Let_def inv keep
          intro: drains_nothing drainsI drains_after split: if_splits)
  qed
qed

lemma fifo_to_fd_drains: "fifo_inv f \<Longrightarrow> drains f out (btfifo_fifo_to_fd f fd polled out)"
proof -
  assume inv: "fifo_inv f"
  have p: "drains (f\<lparr>p1 := p\<rparr>) out x = drains f out x" for p x
    by (simp add: drains_def fifo_gave_def)
  have "drains f out (btfifo_out_regions (f\<lparr>p1 := p\<rparr>) out)" for p
    using out_regions_drains [of "f\<lparr>p1 := p\<rparr>" out] inv by (simp add: p)
  moreover have "drains f out (Some (r, f\<lparr>p1 := p\<rparr>, out))" for r p
    using drains_nothing [of "f\<lparr>p1 := p\<rparr>" out out r] inv by (simp add: p)
  ultimately show ?thesis
    using inv by (simp add: btfifo_fifo_to_fd_def Let_def out_regions_drains)
qed

section \<open>Emptying\<close>

text \<open>A descriptor that takes everything it is given empties the FIFO in one call.\<close>

definition emptied :: "(int \<times> btfifo \<times> outfd) option \<Rightarrow> bool" where
  "emptied x \<longleftrightarrow> (\<exists>r f' out'. x = Some (r, f', out') \<and> dlen f' = 0)"

lemma out_region2_empties:
  assumes inv: "fifo_inv f" and fits: "dpos f + dlen f \<le> bsize f" and plan: "wr_plan out = []"
  shows "emptied (btfifo_out_region2 f out)"
proof -
  have i: "length (b f) = bsize f" "bsize f < 2 ^ 63" "dlen f \<le> bsize f"
    using inv by (simp_all add: fifo_inv_def)
  obtain data where "rd_slice (b f) (int (dpos f)) (dlen f) = Some data" "length data = dlen f"
    using fits i by simp
  moreover have "size_sub (dlen f) (dlen f) = 0" using i by (simp add: size_sub_ge)
  ultimately show ?thesis
    by (cases "data = []") (simp_all add: btfifo_out_region2_def sys_write_all [OF plan] emptied_def Let_def)
qed

lemma out_regions_empties:
  assumes inv: "fifo_inv f" and plan: "wr_plan out = []"
    and wmin: "flags f AND BTFIFO_F_USE_WMIN = 0 \<or> wmin f \<le> dlen f"
  shows "emptied (btfifo_out_regions f out)"
proof (cases "dlen f = 0 \<or> \<not> (dpos f \<noteq> 0 \<and> dpos f + dlen f > bsize f)")
  case True
  have "dpos f + dlen f \<le> bsize f" if "\<not> (dpos f \<noteq> 0 \<and> dpos f + dlen f > bsize f)"
    using that inv by (auto simp: fifo_inv_def)
  then show ?thesis
    using True wmin plan inv
    by (auto simp: btfifo_out_regions_def intro: out_region2_empties) (auto simp: emptied_def)
next
  case False
  then have past: "bsize f < dpos f + dlen f" by simp
  have i: "length (b f) = bsize f" "bsize f < 2 ^ 63" "dlen f \<le> bsize f" "dpos f < bsize f"
    using inv by (simp_all add: fifo_inv_def)
  let ?u = "bsize f - dpos f"
  let ?data = "take ?u (drop (dpos f) (b f))"
  let ?out = "out\<lparr>written := written out @ ?data\<rparr>"
  let ?g = "f\<lparr>dlen := dlen f - ?u, dpos := 0\<rparr>"
  have u: "size_sub (bsize f) (dpos f) = ?u" "size_sub (dlen f) ?u = dlen f - ?u" "?u \<noteq> 0"
    using i past by (simp_all add: size_sub_ge)
  obtain data where data: "data = ?data" "rd_slice (b f) (int (dpos f)) ?u = Some data"
    "length data = ?u"
    using i by simp
  have "fifo_gave f out (f\<lparr>dlen := dlen f - ?u, dpos := if ?u = ?u then 0 else dpos f + ?u\<rparr>) ?out
          (take ?u (fifo_contents f))"
    by (rule give_wrapped [OF inv past]) simp_all
  then have "emptied (btfifo_out_region2 ?g ?out)"
    by (intro out_region2_empties) (use i plan in \<open>auto simp: fifo_gave_def\<close>)
  moreover have "\<not> (flags f AND BTFIFO_F_USE_WMIN \<noteq> 0 \<and> wmin f > dlen f)" using wmin by auto
  ultimately show ?thesis
    using False u data(2,3) unfolding data(1) [symmetric]
    by (auto simp: btfifo_out_regions_def sys_write_all [OF plan] Let_def)
qed

lemma fifo_to_fd_empties:
  assumes inv: "fifo_inv f" and plan: "wr_plan out = []"
    and ready: "flags f AND BTFIFO_F_ASSUME_FD_READY \<noteq> 0"
    and wmin: "flags f AND BTFIFO_F_USE_WMIN = 0 \<or> wmin f \<le> dlen f"
  shows "\<exists>r f' out'. btfifo_fifo_to_fd f fd polled out = Some (r, f', out') \<and> dlen f' = 0 \<and>
    written out' = written out @ fifo_contents f"
proof -
  have x: "btfifo_fifo_to_fd f fd polled out = btfifo_out_regions f out"
    using ready by (simp add: btfifo_fifo_to_fd_def)
  obtain r f' out' where e: "btfifo_out_regions f out = Some (r, f', out')" "dlen f' = 0"
    using out_regions_empties [OF inv plan wmin] by (auto simp: emptied_def)
  then have "fifo_inv f'" "\<exists>bs. fifo_contents f = bs @ fifo_contents f' \<and> written out' = written out @ bs"
    using out_regions_drains [OF inv, of out] by (auto simp: drains_def fifo_gave_def)
  moreover have "fifo_contents f' = []" using e(2) by (simp add: fifo_contents_def ring_def)
  ultimately show ?thesis using x e by auto
qed

text \<open>What \<open>btfifo_fd_region2\<close> returns.\<close>

lemma fd_region2_code:
  assumes "btfifo_fd_region2 f es = Some (r, f', es')" "size_sub (bsize f) (dlen f) = n"
  shows "r = (case fst (sys_read n es) of Inl e \<Rightarrow> if transient e then -1 else -1401 | Inr cs \<Rightarrow> int (length cs))"
  using assms
  by (auto simp: btfifo_fd_region2_def Let_def fault_iff split: prod.splits sum.splits if_splits)

section \<open>Properties\<close>

text \<open>
  C17: Reading from a descriptor into the FIFO never goes outside the block, whatever the schedule
  of short reads and errors: the bytes taken from the descriptor, and no others, are appended to
  the stored data in order, the FIFO stays well formed and its settings are untouched.
\<close>
theorem fifo_fill_appends:
  "fifo_inv f \<Longrightarrow>
   \<exists>r f' es' bs. btfifo_fd_to_fifo f fd polled es = Some (r, f', es') \<and>
     fifo_inv f' \<and> fifo_config f' = fifo_config f \<and>
     fifo_contents f' = fifo_contents f @ bs \<and> rd_stream es = bs @ rd_stream es'"
  using fd_to_fifo_fills [of f es fd polled] by (auto simp: fills_def fifo_took_def)

definition sample_fifo :: btfifo where
  "sample_fifo = \<lparr>bsize = 4, flags = BTFIFO_F_ASSUME_FD_READY, wmin = 0, b = [1, 2, 3, 4],
     dlen = 2, dpos = 1, p0 = \<lparr>pfd = -1, events = [], revents = []\<rparr>,
     p1 = \<lparr>pfd = -1, events = [POLLOUT], revents = []\<rparr>\<rparr>"

lemma sample_fifo_inv: "fifo_inv sample_fifo"
  by (simp add: sample_fifo_def fifo_inv_def)

lemma fifo_fill_appends_witness:
  "\<exists>r f' es' bs. btfifo_fd_to_fifo sample_fifo 7 (0, []) [RdBytes [9, 8]] = Some (r, f', es') \<and>
     fifo_inv f' \<and> fifo_config f' = fifo_config sample_fifo \<and>
     fifo_contents f' = fifo_contents sample_fifo @ bs \<and> rd_stream [RdBytes [9, 8]] = bs @ rd_stream es'"
  by (rule fifo_fill_appends [OF sample_fifo_inv])

text \<open>
  C18: Writing from the FIFO to a descriptor removes from its front exactly the bytes the descriptor
  took, in order, for every schedule of short writes and errors; nothing is lost, repeated or read
  from outside the stored data.
\<close>
theorem fifo_drain_removes:
  "fifo_inv f \<Longrightarrow>
   \<exists>r f' out' bs. btfifo_fifo_to_fd f fd polled out = Some (r, f', out') \<and>
     fifo_inv f' \<and> fifo_config f' = fifo_config f \<and>
     fifo_contents f = bs @ fifo_contents f' \<and> written out' = written out @ bs"
  using fifo_to_fd_drains [of f out fd polled] by (auto simp: drains_def fifo_gave_def)

lemma fifo_drain_removes_witness:
  "\<exists>r f' out' bs. btfifo_fifo_to_fd sample_fifo 7 (0, []) \<lparr>wr_plan = [WrUpTo 1], written = []\<rparr>
       = Some (r, f', out') \<and>
     fifo_inv f' \<and> fifo_config f' = fifo_config sample_fifo \<and>
     fifo_contents sample_fifo = bs @ fifo_contents f' \<and>
     written out' = written \<lparr>wr_plan = [WrUpTo 1], written = []\<rparr> @ bs"
  by (rule fifo_drain_removes [OF sample_fifo_inv])

text \<open>
  Once the first free region is full, the value \<open>btfifo_fd_to_fifo\<close> returns is that of the second
  read alone: the bytes stored by the first read are not counted, and a second read that finds
  nothing gives -1 (documented as \<open>no data written\<close>) although bytes were stored.
\<close>
lemma fifo_fill_counts_second_read:
  assumes inv: "fifo_inv f" and ready: "flags f AND BTFIFO_F_ASSUME_FD_READY \<noteq> 0"
    and two: "dpos f \<noteq> 0" "dpos f + dlen f < bsize f"
    and first: "sys_read (bsize f - (dpos f + dlen f)) es = (Inr bs, es')"
      "length bs = bsize f - (dpos f + dlen f)"
  shows "\<exists>f' es2. btfifo_fd_to_fifo f fd polled es =
     Some (case fst (sys_read (dpos f) es') of
             Inl e \<Rightarrow> if transient e then -1 else -1401
           | Inr cs \<Rightarrow> int (length cs), f', es2) \<and>
     length (fifo_contents f) + length bs \<le> length (fifo_contents f')"
proof -
  have i: "bsize f < 2 ^ 63" "dlen f \<le> bsize f" using inv by (simp_all add: fifo_inv_def)
  define f0 where "f0 = f\<lparr>p0 := (p0 f)\<lparr>pfd := fd\<rparr>\<rparr>"
  have f0: "fifo_inv f0" "dpos f0 = dpos f" "dlen f0 = dlen f" "bsize f0 = bsize f"
    "fifo_contents f0 = fifo_contents f" using inv by (simp_all add: f0_def)
  have rdd: "rd_stream es = bs @ rd_stream es'" using sys_read_Inr [OF first(1)] by simp
  have room: "dpos f0 + dlen f0 + length bs \<le> bsize f0" using f0 two first(2) by simp
  from store_straight [OF f0(1) room rdd] obtain m where m:
    "wr_slice (b f0) (int (dpos f0 + dlen f0)) bs = Some m"
    "fifo_took f0 es (f0\<lparr>b := m, dlen := dlen f0 + length bs\<rparr>) es' bs" by blast
  let ?g = "f0\<lparr>b := m, dlen := dlen f0 + length bs\<rparr>"
  have "fills ?g es' (btfifo_fd_region2 ?g es')"
    by (rule fd_region2_fills) (use m(2) f0 first(2) two in \<open>auto simp: fifo_took_def\<close>)
  then obtain r f' es2 cs where g:
    "btfifo_fd_region2 ?g es' = Some (r, f', es2)" "fifo_took ?g es' f' es2 cs"
    by (auto simp: fills_def)
  have "size_sub (bsize ?g) (dlen ?g) = dpos f" using i f0 first(2) two by (simp add: size_sub_ge)
  note r = fd_region2_code [OF g(1) this]
  have "size_sub (bsize f) (dpos f + dlen f) = bsize f - (dpos f + dlen f)"
    "size_sub (bsize f) (dlen f) \<noteq> 0" "bs \<noteq> []"
    using i two first(2) by (auto simp: size_sub_ge)
  then have "btfifo_fd_to_fifo f fd polled es = Some (r, f', es2)"
    using ready two first m(1) g(1) f0
    by (simp add: btfifo_fd_to_fifo_def f0_def [symmetric] btfifo_fd_regions_def Let_def)
  then show ?thesis
    using r m(2) g(2) f0 by (auto simp: fifo_took_def)
qed

lemma fifo_fill_counts_second_read_witness:
  "\<exists>f' es2. btfifo_fd_to_fifo sample_fifo 7 (0, []) [RdBytes [9], RdErr EAGAIN] = Some (-1, f', es2) \<and>
     length (fifo_contents sample_fifo) + 1 \<le> length (fifo_contents f')"
  using fifo_fill_counts_second_read
    [OF sample_fifo_inv, where es = "[RdBytes [9], RdErr EAGAIN]" and bs = "[9]"
      and es' = "[RdErr EAGAIN]" and fd = 7 and polled = "(0, [])"]
  by (simp add: sample_fifo_def BTFIFO_F_ASSUME_FD_READY_def transient_def)

text \<open>
  C19: One call of \<open>btfifo_fifo_to_fd\<close> on a descriptor that takes all it is given (a blocking one)
  flushes the FIFO: everything stored is written, in order, and nothing remains, also when the
  data goes around the end of the block.
\<close>
theorem fifo_flush_complete:
  "fifo_inv f \<Longrightarrow> wr_plan out = [] \<Longrightarrow> flags f AND BTFIFO_F_ASSUME_FD_READY \<noteq> 0 \<Longrightarrow>
   flags f AND BTFIFO_F_USE_WMIN = 0 \<or> wmin f \<le> dlen f \<Longrightarrow>
   \<exists>r f' out'. btfifo_fifo_to_fd f fd polled out = Some (r, f', out') \<and> dlen f' = 0 \<and>
     written out' = written out @ fifo_contents f"
  by (rule fifo_to_fd_empties)

lemma fifo_flush_complete_witness:
  "\<exists>r f' out'. btfifo_fifo_to_fd (sample_fifo\<lparr>dpos := 3\<rparr>) 7 (0, []) \<lparr>wr_plan = [], written = []\<rparr>
       = Some (r, f', out') \<and> dlen f' = 0 \<and> written out' = [4, 1]"
  using fifo_flush_complete [of "sample_fifo\<lparr>dpos := 3\<rparr>" "\<lparr>wr_plan = [], written = []\<rparr>" 7 "(0, [])"]
  by (simp add: sample_fifo_def fifo_inv_def BTFIFO_F_ASSUME_FD_READY_def fifo_contents_def ring_def)

end
