(* ===== verification/Loops.thy ===== *)
theory Loops
  imports Prelude
begin

text \<open>
  Loops driven by a list of events (what the environment does in each turn), and the interface
  \<open>transfer\<close> of the loops that move data: whatever a turn may move, the whole loop moves in order.
\<close>

section \<open>Turns\<close>

text \<open>
  A loop over the events of its turns: a turn either asks for another one (\<open>None\<close>) or ends the
  loop with a code. When the events are used up the loop is still running.
\<close>

fun turns :: "('e \<Rightarrow> 's \<Rightarrow> ('r option \<times> 's) option) \<Rightarrow> 'e list \<Rightarrow> 's \<Rightarrow> ('r option \<times> 's) option" where
  "turns turn [] s = Some (None, s)"
| "turns turn (e # es) s =
     do {
       (r, s') \<leftarrow> turn e s;
       (case r of
          None \<Rightarrow> turns turn es s'
        | Some code \<Rightarrow> Some (Some code, s'))
     }"

text \<open>The bytes that a sequence of turns moved, when \<open>admits\<close> says what one turn may move.\<close>

inductive moved :: "('e \<Rightarrow> 's \<Rightarrow> 'b list \<Rightarrow> 's \<Rightarrow> bool) \<Rightarrow> 'e list \<Rightarrow> 's \<Rightarrow> 'b list \<Rightarrow> 's \<Rightarrow> bool"
  for admits where
  moved_none: "moved admits [] s [] s"
| moved_turn: "admits e s bs s' \<Longrightarrow> moved admits es s' cs s'' \<Longrightarrow> moved admits (e # es) s (bs @ cs) s''"

inductive_cases moved_ConsE: "moved admits (e # es) s bs s'"

text \<open>
  The interface of such a loop: every turn keeps the invariant and only appends to what has been
  stored or delivered, and what it appends is admitted.
\<close>

locale transfer =
  fixes turn :: "'e \<Rightarrow> 's \<Rightarrow> ('r option \<times> 's) option"
    and inv :: "'s \<Rightarrow> bool"
    and kept :: "'s \<Rightarrow> 'b list"
    and admits :: "'e \<Rightarrow> 's \<Rightarrow> 'b list \<Rightarrow> 's \<Rightarrow> bool"
  assumes turn_ok: "inv s \<Longrightarrow> \<exists>r s' bs. turn e s = Some (r, s') \<and> inv s' \<and>
    kept s' = kept s @ bs \<and> admits e s bs s'"
begin

lemma turns_ok:
  "inv s \<Longrightarrow> \<exists>r s' bs n. turns turn es s = Some (r, s') \<and> inv s' \<and>
     kept s' = kept s @ bs \<and> moved admits (take n es) s bs s'"
proof (induction es arbitrary: s)
  case Nil
  show ?case using Nil.prems moved_none [of admits s] by simp
next
  case (Cons e es)
  from turn_ok [OF Cons.prems, of e] obtain r s1 bs where
    t: "turn e s = Some (r, s1)" "inv s1" "kept s1 = kept s @ bs" "admits e s bs s1" by blast
  show ?case
  proof (cases r)
    case None
    from Cons.IH [OF t(2)] obtain r' s' cs n where
      u: "turns turn es s1 = Some (r', s')" "inv s'" "kept s' = kept s1 @ cs"
        "moved admits (take n es) s1 cs s'" by blast
    have "moved admits (take (Suc n) (e # es)) s (bs @ cs) s'"
      using moved_turn [of admits, OF t(4) u(4)] by simp
    moreover have "turns turn (e # es) s = Some (r', s')" "kept s' = kept s @ bs @ cs"
      using t u None by simp_all
    ultimately show ?thesis using u(2) by blast
  next
    case (Some code)
    have "moved admits (take 1 (e # es)) s bs s1"
      using moved_turn [of admits, OF t(4) moved_none] by simp
    moreover have "turns turn (e # es) s = Some (r, s1)" using t(1) Some by simp
    ultimately show ?thesis using t(2,3) by blast
  qed
qed

end

text \<open>
  The interface of a loop that advances through a sequence of length \<open>top\<close>: \<open>stage k s\<close> says that \<open>k\<close> steps
  are done, a turn never goes back, it ends the loop only with one of the codes, and with the code
  \<open>out\<close> only when all is done.
\<close>

locale advancing =
  fixes turn :: "'e \<Rightarrow> 's \<Rightarrow> ('r option \<times> 's) option"
    and stage :: "nat \<Rightarrow> 's \<Rightarrow> bool"
    and top :: nat
    and codes :: "'r set"
    and out :: 'r
  assumes turn_advances: "stage k s \<Longrightarrow> \<exists>r s' k'. turn e s = Some (r, s') \<and> stage k' s' \<and> k \<le> k' \<and>
      (\<forall>c. r = Some c \<longrightarrow> c \<in> codes \<and> (c = out \<longrightarrow> k' = top))"
begin

lemma turns_advance:
  "stage k s \<Longrightarrow> \<exists>r s' k'. turns turn es s = Some (r, s') \<and> stage k' s' \<and> k \<le> k' \<and>
     (\<forall>c. r = Some c \<longrightarrow> c \<in> codes \<and> (c = out \<longrightarrow> k' = top))"
proof (induction es arbitrary: s k)
  case Nil
  then show ?case by auto
next
  case (Cons e es)
  from turn_advances [OF Cons.prems, of e] obtain r s1 j where
    t: "turn e s = Some (r, s1)" "stage j s1" "k \<le> j" "\<forall>c. r = Some c \<longrightarrow> c \<in> codes \<and> (c = out \<longrightarrow> j = top)"
    by blast
  show ?case
  proof (cases r)
    case None
    from Cons.IH [OF t(2)] obtain r' s' k' where u: "turns turn es s1 = Some (r', s')" "stage k' s'" "j \<le> k'"
        "\<forall>c. r' = Some c \<longrightarrow> c \<in> codes \<and> (c = out \<longrightarrow> k' = top)" by blast
    then show ?thesis using t(1,3) None by (intro exI [of _ r'] exI [of _ s'] exI [of _ k']) simp
  next
    case (Some c)
    then show ?thesis using t by (intro exI [of _ r] exI [of _ s1] exI [of _ j]) simp
  qed
qed

end

lemma turns_append:
  "turns turn (es @ fs) s =
     do { (r, s') \<leftarrow> turns turn es s;
          (case r of None \<Rightarrow> turns turn fs s' | Some code \<Rightarrow> Some (Some code, s')) }"
proof (induction es arbitrary: s)
  case (Cons e es)
  show ?case
  proof (cases "turn e s")
    case (Some x)
    then show ?thesis using Cons by (cases x, cases "fst x") simp_all
  qed simp
qed simp

end
