(* ===== verification/Tunnel.thy ===== *)
theory Tunnel
  imports Bufftools Loops
begin

text \<open>
  The process that stands between the DVR reader and the consumer of the media
  (\<open>buffered_tunnel_pipe\<close> and the parent's side of \<open>stream_dvr_subprocess_to_pipe\<close> in
  \<open>src/dvrcontrol.c\<close>). One turn of the loop is \<open>tunnel_turn\<close>; what \<open>poll\<close> will report, which
  bytes will arrive and how much each \<open>write\<close> takes are scripts. The bytes written, stored and
  still to be read form one stream that no turn changes.
\<close>

section \<open>The tunnel\<close>

record tunnel =
  tfifo :: btfifo
  p_in :: pollfd
  p_out :: pollfd
  fd_in_rx :: "rd_event list"
  fd_out_tx :: outfd
  sht_fl_sigchld :: bool

datatype poll_ans = PollFails errno | PollWaits | PollReports "pollflag list" "pollflag list"

text \<open>
  What happens during one turn: whether a SIGCHLD arrives before \<open>poll\<close> returns, the answer of
  \<open>poll\<close>, and the answers of the polls inside the FIFO operations (used only when the FIFO does
  not assume ready descriptors).
\<close>

record tunnel_event =
  ev_sigchld :: bool
  ev_poll :: poll_ans
  ev_poll_out :: "int \<times> pollflag list"
  ev_poll_in :: "int \<times> pollflag list"

definition request :: "tunnel \<Rightarrow> tunnel" where
  "request s =
     s\<lparr>p_in := (p_in s)\<lparr>events := if btfifo_get_free_len (tfifo s) \<noteq> 0 then [POLLIN, POLLPRI] else []\<rparr>,
       p_out := (p_out s)\<lparr>events := if btfifo_get_stored_len (tfifo s) \<noteq> 0 then [POLLOUT] else []\<rparr>\<rparr>"

text \<open>\<open>poll\<close> on the two descriptors: the returned number, and the \<open>revents\<close> (untouched on error).\<close>

definition poll2 :: "tunnel_event \<Rightarrow> tunnel \<Rightarrow> (errno + int) \<times> tunnel" where
  "poll2 ev s =
     (let s = s\<lparr>sht_fl_sigchld := sht_fl_sigchld s \<or> ev_sigchld ev\<rparr>
      in case ev_poll ev of
           PollFails e \<Rightarrow> (Inl e, s)
         | PollWaits \<Rightarrow>
             (Inr 0, s\<lparr>p_in := (p_in s)\<lparr>revents := []\<rparr>, p_out := (p_out s)\<lparr>revents := []\<rparr>\<rparr>)
         | PollReports a c \<Rightarrow>
             (let ra = poll_reports (events (p_in s)) a; rc = poll_reports (events (p_out s)) c
              in (Inr ((if ra = [] then 0 else 1) + (if rc = [] then 0 else 1)),
                  s\<lparr>p_in := (p_in s)\<lparr>revents := ra\<rparr>, p_out := (p_out s)\<lparr>revents := rc\<rparr>\<rparr>)))"

definition tunnel_out :: "tunnel_event \<Rightarrow> tunnel \<Rightarrow> (int option \<times> tunnel) option" where
  "tunnel_out ev s =
     (if hits [POLLOUT] (revents (p_out s)) then
        do {
          (retp, f, out) \<leftarrow> btfifo_fifo_to_fd (tfifo s) (pfd (p_out s)) (ev_poll_out ev) (fd_out_tx s);
          Some (if retp \<le> -100 then Some 4 else None, s\<lparr>tfifo := f, fd_out_tx := out\<rparr>)
        }
      else if hits collapsed (revents (p_out s)) then Some (Some (-5), s)
      else Some (None, s))"

definition tunnel_in :: "tunnel_event \<Rightarrow> tunnel \<Rightarrow> (int option \<times> tunnel) option" where
  "tunnel_in ev s =
     (if hits [POLLIN, POLLPRI] (revents (p_in s)) then
        do {
          (retp, f, rx) \<leftarrow> btfifo_fd_to_fifo (tfifo s) (pfd (p_in s)) (ev_poll_in ev) (fd_in_rx s);
          Some (if retp \<le> -100 then Some 3 else None, s\<lparr>tfifo := f, fd_in_rx := rx\<rparr>)
        }
      else if hits collapsed (revents (p_in s)) then Some (Some 10, s)
      else Some (None, s))"

definition tunnel_serve :: "tunnel_event \<Rightarrow> tunnel \<Rightarrow> (int option \<times> tunnel) option" where
  "tunnel_serve ev s =
     do {
       (r, s') \<leftarrow> tunnel_out ev s;
       (case r of None \<Rightarrow> tunnel_in ev s' | Some code \<Rightarrow> Some (Some code, s'))
     }"

definition tunnel_turn :: "u32 \<Rightarrow> tunnel_event \<Rightarrow> tunnel \<Rightarrow> (int option \<times> tunnel) option" where
  "tunnel_turn timeout_us ev s =
     (case poll2 ev (request s) of
        (Inl e, s1) \<Rightarrow> if e \<noteq> EINTR then Some (Some 2, s1) else tunnel_serve ev s1
      | (Inr retp, s1) \<Rightarrow>
          if retp = 0 \<and> timeout_us \<noteq> 0 then Some (Some 1, s1)
          else if retp = 0 \<and> sht_fl_sigchld s1 then Some (Some 6, s1\<lparr>sht_fl_sigchld := False\<rparr>)
          else tunnel_serve ev s1)"

text \<open>
  The whole call, over the events of its turns. \<open>pollfd p[2]\<close> is an uninitialised local: \<open>junk\<close>
  are its first \<open>revents\<close>, which an interrupted first \<open>poll\<close> leaves in place.
\<close>

definition buffered_tunnel_pipe ::
    "int \<Rightarrow> int \<Rightarrow> u32 \<Rightarrow> pollfd \<times> pollfd \<Rightarrow> tunnel_event list \<Rightarrow> tunnel \<Rightarrow> (int option \<times> tunnel) option" where
  "buffered_tunnel_pipe fd_in fd_out timeout_us junk evs s =
     turns (tunnel_turn timeout_us) evs
       (s\<lparr>p_in := (fst junk)\<lparr>pfd := fd_in\<rparr>, p_out := (snd junk)\<lparr>pfd := fd_out\<rparr>\<rparr>)"

section \<open>Invariant and flow\<close>

definition tunnel_inv :: "tunnel \<Rightarrow> bool" where
  "tunnel_inv s \<longleftrightarrow> fifo_inv (tfifo s)"

text \<open>What has been written out and, after it, what is stored.\<close>

definition tunnel_kept :: "tunnel \<Rightarrow> byte list" where
  "tunnel_kept s = written (fd_out_tx s) @ fifo_contents (tfifo s)"

definition tunnel_took :: "tunnel \<Rightarrow> byte list \<Rightarrow> tunnel \<Rightarrow> bool" where
  "tunnel_took s bs s' \<longleftrightarrow> rd_stream (fd_in_rx s) = bs @ rd_stream (fd_in_rx s')"

definition moves :: "tunnel \<Rightarrow> (int option \<times> tunnel) option \<Rightarrow> bool" where
  "moves s x \<longleftrightarrow> (\<exists>r s' bs. x = Some (r, s') \<and> tunnel_inv s' \<and>
     tunnel_kept s' = tunnel_kept s @ bs \<and> tunnel_took s bs s')"

lemmas tunnel_defs = tunnel_inv_def tunnel_kept_def tunnel_took_def

lemma moves_nothing:
  "tunnel_inv s' \<Longrightarrow> tunnel_kept s' = tunnel_kept s \<Longrightarrow> rd_stream (fd_in_rx s') = rd_stream (fd_in_rx s) \<Longrightarrow>
   moves s (Some (r, s'))"
  by (simp add: moves_def tunnel_took_def)

lemma tunnel_out_moves: "tunnel_inv s \<Longrightarrow> moves s (tunnel_out ev s)"
  using fifo_to_fd_drains [of "tfifo s" "fd_out_tx s" "pfd (p_out s)" "ev_poll_out ev"]
  by (auto simp: tunnel_out_def moves_def drains_def fifo_gave_def tunnel_defs)

lemma tunnel_in_moves: "tunnel_inv s \<Longrightarrow> moves s (tunnel_in ev s)"
  using fd_to_fifo_fills [of "tfifo s" "fd_in_rx s" "pfd (p_in s)" "ev_poll_in ev"]
  by (auto simp: tunnel_in_def moves_def fills_def fifo_took_def tunnel_defs)

lemma tunnel_serve_moves: "tunnel_inv s \<Longrightarrow> moves s (tunnel_serve ev s)"
proof -
  assume inv: "tunnel_inv s"
  from tunnel_out_moves [OF inv, of ev] obtain r s' bs where
    out: "tunnel_out ev s = Some (r, s')" "tunnel_inv s'" "tunnel_kept s' = tunnel_kept s @ bs"
      "tunnel_took s bs s'"
    by (auto simp: moves_def)
  from tunnel_in_moves [OF out(2), of ev] obtain r2 s2 cs where
    inn: "tunnel_in ev s' = Some (r2, s2)" "tunnel_inv s2" "tunnel_kept s2 = tunnel_kept s' @ cs"
      "tunnel_took s' cs s2"
    by (auto simp: moves_def)
  have "tunnel_took s (bs @ cs) s2" using out(4) inn(4) by (simp add: tunnel_took_def)
  with out inn show ?thesis
    by (cases r) (auto simp: tunnel_serve_def moves_def)
qed

lemma poll2_keeps:
  "poll2 ev s = (x, s') \<Longrightarrow> tfifo s' = tfifo s \<and> fd_out_tx s' = fd_out_tx s \<and> fd_in_rx s' = fd_in_rx s"
  by (auto simp: poll2_def Let_def split: poll_ans.splits)

lemma request_keeps [simp]:
  "tfifo (request s) = tfifo s" "fd_out_tx (request s) = fd_out_tx s" "fd_in_rx (request s) = fd_in_rx s"
  by (simp_all add: request_def)

lemma tunnel_turn_moves: "tunnel_inv s \<Longrightarrow> moves s (tunnel_turn timeout_us ev s)"
proof -
  assume inv: "tunnel_inv s"
  obtain x s1 where p: "poll2 ev (request s) = (x, s1)" by fastforce
  from poll2_keeps [OF p]
  have same: "tfifo s1 = tfifo s" "fd_out_tx s1 = fd_out_tx s" "fd_in_rx s1 = fd_in_rx s" by simp_all
  then have "moves s1 y \<longleftrightarrow> moves s y" for y by (simp add: moves_def tunnel_defs)
  moreover have "moves s1 (tunnel_serve ev s1)"
    by (rule tunnel_serve_moves) (use inv same in \<open>simp add: tunnel_inv_def\<close>)
  moreover have "moves s (Some (r, s1))" "moves s (Some (r, s1\<lparr>sht_fl_sigchld := False\<rparr>))" for r
    using inv same by (simp_all add: moves_nothing tunnel_defs)
  ultimately show ?thesis
    by (cases x) (simp_all add: tunnel_turn_def p)
qed

interpretation tunnel_loop: transfer "tunnel_turn timeout_us" tunnel_inv tunnel_kept
    "\<lambda>ev s bs s'. tunnel_took s bs s'"
  for timeout_us
  by unfold_locales (use tunnel_turn_moves in \<open>auto simp: moves_def\<close>)

lemma moved_tunnel_took:
  "moved (\<lambda>ev s bs s'. tunnel_took s bs s') evs s bs s' \<Longrightarrow> tunnel_took s bs s'"
  by (induction rule: moved.induct) (simp_all add: tunnel_took_def)

lemma tunnel_pipe_moves:
  assumes "tunnel_inv s"
  shows "moves s (buffered_tunnel_pipe fd_in fd_out timeout_us junk evs s)"
proof -
  define s0 where "s0 = s\<lparr>p_in := (fst junk)\<lparr>pfd := fd_in\<rparr>, p_out := (snd junk)\<lparr>pfd := fd_out\<rparr>\<rparr>"
  have same: "tunnel_inv s0" "tunnel_kept s0 = tunnel_kept s" "fd_in_rx s0 = fd_in_rx s"
    using assms by (simp_all add: s0_def tunnel_defs)
  from tunnel_loop.turns_ok [OF same(1), of timeout_us evs] obtain r s' bs where
    "turns (tunnel_turn timeout_us) evs s0 = Some (r, s')" "tunnel_inv s'"
    "tunnel_kept s' = tunnel_kept s0 @ bs" "tunnel_took s0 bs s'"
    using moved_tunnel_took by blast
  with same show ?thesis
    by (auto simp: moves_def buffered_tunnel_pipe_def s0_def [symmetric] tunnel_took_def)
qed

section \<open>The relay across sessions\<close>

text \<open>
  One round of the loop of \<open>stream_dvr_subprocess_to_pipe\<close>, on the parent's side: a child is
  forked (or not), its pipe tunnelled until the tunnel gives up, and the child destroyed. A
  child has its own script, and its SIGCHLD may arrive while it is being destroyed. A round ends
  the loop with \<open>Some rc\<close>; \<open>None\<close> there stands for a tunnel that is still running.
\<close>

record child_session =
  c_fd_read :: int
  c_rx :: "rd_event list"
  c_junk :: "pollfd \<times> pollfd"
  c_events :: "tunnel_event list"
  c_sigchld :: bool

datatype pipedfork = Fork_Failed | Forked child_session

definition relay_turn :: "u32 \<Rightarrow> int \<Rightarrow> pipedfork \<Rightarrow> tunnel \<Rightarrow> (int option option \<times> tunnel) option" where
  "relay_turn timeout_us fd_out pf s =
     (case pf of
        Fork_Failed \<Rightarrow> Some (Some (Some 100), s)
      | Forked c \<Rightarrow>
          do {
            (r, s') \<leftarrow> buffered_tunnel_pipe (c_fd_read c) fd_out timeout_us (c_junk c) (c_events c)
                        (s\<lparr>fd_in_rx := c_rx c\<rparr>);
            (case r of
               None \<Rightarrow> Some (Some None, s')
             | Some rettp \<Rightarrow>
                 let s'' = s'\<lparr>sht_fl_sigchld := sht_fl_sigchld s' \<or> c_sigchld c\<rparr>
                 in Some (if rettp < 0 then Some (Some 102) else None, s''))
          })"

text \<open>
  The whole function. \<open>f0\<close> is the uninitialised FIFO structure and \<open>block\<close> what \<open>malloc\<close> gives.
  Leaving the loop at its first round with a failed fork uses \<open>fd_in\<close> and \<open>fd_out\<close>, which are
  not set before the first tunnel: no defined behaviour.
\<close>

definition relay_start :: "btfifo \<Rightarrow> btfifo" where
  "relay_start f0 = f0\<lparr>bsize := 1048576, flags := BTFIFO_F_ASSUME_FD_READY\<rparr>"

definition relay_flush :: "int \<Rightarrow> tunnel \<Rightarrow> tunnel option" where
  "relay_flush fd_out s =
     do {
       let f = (tfifo s)\<lparr>flags := flags (tfifo s) AND NOT BTFIFO_F_USE_WMIN\<rparr>;
       (_, f', out) \<leftarrow> btfifo_fifo_to_fd f fd_out (0, []) (fd_out_tx s);
       Some (s\<lparr>tfifo := btfifo_destroy f', fd_out_tx := out\<rparr>)
     }"

definition stream_dvr_subprocess_to_pipe ::
    "u32 \<Rightarrow> int \<Rightarrow> btfifo \<Rightarrow> byte list option \<Rightarrow> pipedfork list \<Rightarrow> tunnel \<Rightarrow>
     (int option option \<times> tunnel) option" where
  "stream_dvr_subprocess_to_pipe timeout_us fd_out f0 block rounds s =
     (let (ret, f) = btfifo_create (relay_start f0) block
      in if ret \<noteq> 0 then Some (Some (Some 101), s\<lparr>tfifo := f\<rparr>)
         else do {
           (r, s') \<leftarrow> turns (relay_turn timeout_us fd_out) rounds (s\<lparr>tfifo := f\<rparr>);
           (case r of
              Some (Some rc) \<Rightarrow>
                if hd rounds = Fork_Failed then None
                else do { s'' \<leftarrow> relay_flush fd_out s'; Some (Some (Some rc), s'') }
            | _ \<Rightarrow> Some (r, s'))
         })"

text \<open>A round moves bytes of its own child only, from the start of what that child sends.\<close>

definition from_child :: "pipedfork \<Rightarrow> byte list \<Rightarrow> bool" where
  "from_child pf bs \<longleftrightarrow>
     (case pf of Fork_Failed \<Rightarrow> bs = [] | Forked c \<Rightarrow> (\<exists>rest. rd_stream (c_rx c) = bs @ rest))"

lemma relay_turn_ok:
  assumes "tunnel_inv s"
  shows "\<exists>r s' bs. relay_turn timeout_us fd_out pf s = Some (r, s') \<and> tunnel_inv s' \<and>
    tunnel_kept s' = tunnel_kept s @ bs \<and> from_child pf bs"
proof (cases pf)
  case Fork_Failed
  then show ?thesis using assms by (simp add: relay_turn_def from_child_def)
next
  case (Forked c)
  define s0 where "s0 = s\<lparr>fd_in_rx := c_rx c\<rparr>"
  have same: "tunnel_inv s0" "tunnel_kept s0 = tunnel_kept s" "fd_in_rx s0 = c_rx c"
    using assms by (simp_all add: s0_def tunnel_defs)
  from tunnel_pipe_moves [OF same(1), of "c_fd_read c" fd_out timeout_us "c_junk c" "c_events c"]
  obtain r s' bs where p:
    "buffered_tunnel_pipe (c_fd_read c) fd_out timeout_us (c_junk c) (c_events c) s0 = Some (r, s')"
    "tunnel_inv s'" "tunnel_kept s' = tunnel_kept s0 @ bs" "tunnel_took s0 bs s'"
    by (auto simp: moves_def)
  have "from_child pf bs" using p(4) same Forked by (simp add: from_child_def tunnel_took_def)
  moreover have "tunnel_inv (s'\<lparr>sht_fl_sigchld := x\<rparr>) = tunnel_inv s'"
    "tunnel_kept (s'\<lparr>sht_fl_sigchld := x\<rparr>) = tunnel_kept s'" for x
    by (simp_all add: tunnel_defs)
  ultimately show ?thesis
    using p Forked same
    by (cases r) (auto simp: relay_turn_def Let_def s0_def [symmetric])
qed

interpretation relay_loop: transfer "relay_turn timeout_us fd_out" tunnel_inv tunnel_kept
    "\<lambda>pf s bs s'. from_child pf bs"
  for timeout_us fd_out
  by unfold_locales (use relay_turn_ok in blast)

lemma moved_from_children:
  "moved (\<lambda>pf s bs s'. from_child pf bs) rounds s bs s' \<Longrightarrow>
   \<exists>parts. bs = concat parts \<and> list_all2 from_child rounds parts"
proof (induction rule: moved.induct)
  case (moved_none s)
  show ?case by (intro exI [of _ "[]"]) simp
next
  case (moved_turn pf s bs s' rounds cs s'')
  then obtain parts where "cs = concat parts" "list_all2 from_child rounds parts" by blast
  with moved_turn show ?case by (intro exI [of _ "bs # parts"]) simp
qed

lemma relay_start_inv:
  assumes "length m = 1048576"
  shows "tunnel_inv (s\<lparr>tfifo := snd (btfifo_create (relay_start f0) (Some m))\<rparr>)"
    and "tunnel_kept (s\<lparr>tfifo := snd (btfifo_create (relay_start f0) (Some m))\<rparr>) = written (fd_out_tx s)"
    and "fst (btfifo_create (relay_start f0) (Some m)) = 0"
  using assms
  by (simp_all add: btfifo_create_def relay_start_def tunnel_defs fifo_inv_def fifo_contents_def ring_def)

lemma relay_flush_ok:
  assumes "tunnel_inv s"
  shows "\<exists>s'. relay_flush fd_out s = Some s' \<and> (\<exists>rest. tunnel_kept s = written (fd_out_tx s') @ rest)"
proof -
  let ?f = "(tfifo s)\<lparr>flags := flags (tfifo s) AND NOT BTFIFO_F_USE_WMIN\<rparr>"
  have "fifo_inv ?f" "fifo_contents ?f = fifo_contents (tfifo s)"
    using assms by (simp_all add: tunnel_inv_def fifo_inv_def fifo_contents_def)
  with fifo_to_fd_drains [of ?f "fd_out_tx s" fd_out "(0, [])"] show ?thesis
    by (auto simp: relay_flush_def drains_def fifo_gave_def tunnel_kept_def)
qed

section \<open>Properties\<close>

lemma relay_keeps:
  assumes block: "length m = 1048576" and first: "rounds = [] \<or> hd rounds \<noteq> Fork_Failed"
  shows "\<exists>r s' n parts rest.
    stream_dvr_subprocess_to_pipe timeout_us fd_out f0 (Some m) rounds s = Some (r, s') \<and>
    list_all2 from_child (take n rounds) parts \<and>
    written (fd_out_tx s') @ rest = written (fd_out_tx s) @ concat parts \<and>
    (r = None \<or> r = Some None \<longrightarrow> rest = fifo_contents (tfifo s'))"
proof -
  define s0 where "s0 = s\<lparr>tfifo := snd (btfifo_create (relay_start f0) (Some m))\<rparr>"
  note start = relay_start_inv(1,2) [OF block, where s = s and ?f0.0 = f0, folded s0_def]
    relay_start_inv(3) [OF block, where ?f0.0 = f0]
  from relay_loop.turns_ok [OF start(1), of timeout_us fd_out rounds] obtain r s' bs n where
    ok: "turns (relay_turn timeout_us fd_out) rounds s0 = Some (r, s')" "tunnel_inv s'"
      "tunnel_kept s' = tunnel_kept s0 @ bs"
      "moved (\<lambda>pf s bs s'. from_child pf bs) (take n rounds) s0 bs s'"
    by blast
  from moved_from_children [OF ok(4)] obtain parts where
    parts: "bs = concat parts" "list_all2 from_child (take n rounds) parts" by blast
  note run = ok(1,2) ok(3) [unfolded parts(1)] parts(2)
  have all: "stream_dvr_subprocess_to_pipe timeout_us fd_out f0 (Some m) rounds s =
     (case r of
        Some (Some rc) \<Rightarrow>
          if hd rounds = Fork_Failed then None
          else do { s'' \<leftarrow> relay_flush fd_out s'; Some (Some (Some rc), s'') }
      | _ \<Rightarrow> Some (r, s'))"
    using run(1) start(3)
    by (simp add: stream_dvr_subprocess_to_pipe_def case_prod_beta Let_def s0_def [symmetric]
        split: option.split)
  show ?thesis
  proof (cases "\<exists>rc. r = Some (Some rc)")
    case True
    then obtain rc where rc: "r = Some (Some rc)" by blast
    then have "rounds \<noteq> []" using run(1) by auto
    with first have "hd rounds \<noteq> Fork_Failed" by simp
    from relay_flush_ok [OF run(2), of fd_out] obtain s'' rest where
      fl: "relay_flush fd_out s' = Some s''" "tunnel_kept s' = written (fd_out_tx s'') @ rest" by blast
    have "written (fd_out_tx s'') @ rest = written (fd_out_tx s) @ concat parts"
      using fl(2) run(3) start(2) by simp
    moreover have "stream_dvr_subprocess_to_pipe timeout_us fd_out f0 (Some m) rounds s = Some (r, s'')"
      using all rc fl(1) \<open>hd rounds \<noteq> Fork_Failed\<close> by simp
    ultimately show ?thesis using run(4) rc by blast
  next
    case False
    then have "r = None \<or> r = Some None" by (cases r) (auto intro: option.exhaust)
    then have "stream_dvr_subprocess_to_pipe timeout_us fd_out f0 (Some m) rounds s = Some (r, s')"
      using all by auto
    moreover have "written (fd_out_tx s') @ fifo_contents (tfifo s') = written (fd_out_tx s) @ concat parts"
      using run(3) start(2) by (simp add: tunnel_kept_def)
    ultimately show ?thesis using run(4) by blast
  qed
qed


definition sample_pollfd :: pollfd where
  "sample_pollfd = \<lparr>pfd = -1, events = [], revents = []\<rparr>"

definition sample_child :: child_session where
  "sample_child = \<lparr>c_fd_read = 5, c_rx = [RdBytes [1, 2, 3]], c_junk = (sample_pollfd, sample_pollfd),
     c_events = [\<lparr>ev_sigchld = False, ev_poll = PollReports [POLLIN] [], ev_poll_out = (0, []), ev_poll_in = (0, [])\<rparr>,
       \<lparr>ev_sigchld = False, ev_poll = PollReports [POLLHUP] [], ev_poll_out = (0, []), ev_poll_in = (0, [])\<rparr>],
     c_sigchld = True\<rparr>"

definition sample_tunnel :: "bool \<Rightarrow> nat \<Rightarrow> tunnel" where
  "sample_tunnel sig n = \<lparr>tfifo = sample_fifo\<lparr>dlen := n\<rparr>, p_in = sample_pollfd, p_out = sample_pollfd,
     fd_in_rx = [RdBytes [7]], fd_out_tx = \<lparr>wr_plan = [], written = []\<rparr>, sht_fl_sigchld = sig\<rparr>"


text \<open>
  While the consumer is not ready and the FIFO is full, a writer that has closed its end of the
  pipe (POLLHUP, always reported) makes the tunnel return 10 at once, although the pipe may still
  hold data and the FIFO is not flushed: nothing more is read, and the caller closes the pipe.
\<close>
lemma tunnel_full_hup_abandons:
  assumes inv: "fifo_inv (tfifo s)" and full: "dlen (tfifo s) = bsize (tfifo s)"
    and hup: "ev_poll ev = PollReports a c" "POLLHUP \<in> set a" "POLLOUT \<notin> set c" "\<not> hits collapsed c"
  shows "\<exists>s'. tunnel_turn timeout_us ev s = Some (Some 10, s') \<and>
    fd_in_rx s' = fd_in_rx s \<and> fd_out_tx s' = fd_out_tx s \<and> tfifo s' = tfifo s"
proof -
  have out: "poll_reports fs c = []" if "set fs \<subseteq> {POLLOUT}" for fs
    using hup(3,4) that by (auto simp: poll_reports_def filter_empty_conv hits_def)
  have inn: "poll_reports [] a \<noteq> []" "\<not> hits [POLLIN, POLLPRI] (poll_reports [] a)"
    "hits collapsed (poll_reports [] a)"
    using hup(2) by (auto simp: poll_reports_def filter_empty_conv hits_def)
  have "btfifo_get_free_len (tfifo s) = 0" using full by (simp add: btfifo_get_free_len_def)
  then show ?thesis
    using hup(1) inn out [of "[POLLOUT]"] out [of "[]"]
    by (simp add: tunnel_turn_def poll2_def request_def tunnel_serve_def tunnel_out_def tunnel_in_def
        Let_def hits_def)
qed

lemma tunnel_full_hup_abandons_witness:
  "\<exists>s'. tunnel_turn 0 \<lparr>ev_sigchld = False, ev_poll = PollReports [POLLIN, POLLHUP] [],
       ev_poll_out = (0, []), ev_poll_in = (0, [])\<rparr> (sample_tunnel False 4) = Some (Some 10, s') \<and>
     fd_in_rx s' = fd_in_rx (sample_tunnel False 4) \<and>
     fd_out_tx s' = fd_out_tx (sample_tunnel False 4) \<and> tfifo s' = tfifo (sample_tunnel False 4)"
  by (rule tunnel_full_hup_abandons [where a = "[POLLIN, POLLHUP]" and c = "[]"])
     (simp_all add: sample_tunnel_def sample_fifo_def fifo_inv_def hits_def)

text \<open>
  With the timeout disabled, a SIGCHLD flag left over from an earlier child ends the session of a
  healthy one at its first silent second (code 6). Destroying that child raises the flag again, so
  any number of such sessions is started and killed with not a byte transferred.
\<close>
lemma stale_sigchld_kills_sessions:
  assumes flag: "sht_fl_sigchld s"
    and healthy: "\<And>c. c \<in> set cs \<Longrightarrow> c_sigchld c \<and> (\<exists>evs. map ev_poll (c_events c) = PollWaits # evs)"
  shows "\<exists>s'. turns (relay_turn 0 fd_out) (map Forked cs) s = Some (None, s') \<and>
    sht_fl_sigchld s' \<and> tunnel_kept s' = tunnel_kept s"
  using flag healthy
proof (induction cs arbitrary: s)
  case (Cons c cs)
  from Cons.prems(2) [of c] obtain ev evs where ev: "c_events c = ev # evs" "ev_poll ev = PollWaits"
    by fastforce
  define s0 where "s0 = (s\<lparr>fd_in_rx := c_rx c\<rparr>)
    \<lparr>p_in := (fst (c_junk c))\<lparr>pfd := c_fd_read c\<rparr>, p_out := (snd (c_junk c))\<lparr>pfd := fd_out\<rparr>\<rparr>"
  have "sht_fl_sigchld s0" using Cons.prems(1) by (simp add: s0_def)
  then have "\<exists>s1. tunnel_turn 0 ev s0 = Some (Some 6, s1) \<and> tunnel_kept s1 = tunnel_kept s0"
    using ev(2) by (simp add: tunnel_turn_def poll2_def request_def tunnel_kept_def)
  then obtain s1 where "tunnel_turn 0 ev s0 = Some (Some 6, s1)" "tunnel_kept s1 = tunnel_kept s"
    by (auto simp: s0_def tunnel_kept_def)
  then have "relay_turn 0 fd_out (Forked c) s = Some (None, s1\<lparr>sht_fl_sigchld := True\<rparr>)"
    using Cons.prems(2) [of c] ev(1)
    by (simp add: relay_turn_def buffered_tunnel_pipe_def s0_def [symmetric])
  moreover have "\<exists>s'. turns (relay_turn 0 fd_out) (map Forked cs) (s1\<lparr>sht_fl_sigchld := True\<rparr>) = Some (None, s') \<and>
      sht_fl_sigchld s' \<and> tunnel_kept s' = tunnel_kept (s1\<lparr>sht_fl_sigchld := True\<rparr>)"
    by (rule Cons.IH) (use Cons.prems in auto)
  ultimately show ?case
    using \<open>tunnel_kept s1 = tunnel_kept s\<close> by (simp add: tunnel_kept_def)
qed (simp add: tunnel_kept_def)

lemma stale_sigchld_kills_sessions_witness:
  "\<exists>s'. turns (relay_turn 0 1) (map Forked (replicate 3 (sample_child
      \<lparr>c_events := [\<lparr>ev_sigchld = False, ev_poll = PollWaits, ev_poll_out = (0, []), ev_poll_in = (0, [])\<rparr>]\<rparr>)))
      (sample_tunnel True 0) = Some (None, s') \<and>
    sht_fl_sigchld s' \<and> tunnel_kept s' = tunnel_kept (sample_tunnel True 0)"
  by (rule stale_sigchld_kills_sessions) (auto simp: sample_tunnel_def sample_child_def)

end
