(* ===== verification/Relay_Runs.thy ===== *)
theory Relay_Runs
  imports Tunnel
begin

text \<open>
  Runs of the relay on children that each write some bytes and close their pipe, while the consumer takes
  everything at once: the relay passes on what all of them wrote, one after the other, however many
  children it had to fork.
\<close>

section \<open>A FIFO that is empty\<close>

definition idle_fifo :: "nat \<Rightarrow> btfifo \<Rightarrow> bool" where
  "idle_fifo p f \<longleftrightarrow> fifo_inv f \<and> dpos f = p \<and> dlen f = 0 \<and> bsize f = 1048576 \<and> flags f = BTFIFO_F_ASSUME_FD_READY"

lemma ready_flag: "BTFIFO_F_ASSUME_FD_READY \<noteq> 0" "BTFIFO_F_ASSUME_FD_READY AND BTFIFO_F_USE_WMIN = 0"
  by (simp_all add: BTFIFO_F_ASSUME_FD_READY_def BTFIFO_F_USE_WMIN_def)

lemma idle_fifo_fills:
  assumes "idle_fifo p f" "bs \<noteq> []" "p + length bs < 1048576"
  shows "\<exists>g. btfifo_fd_to_fifo f fd polled [RdBytes bs] = Some (int (length bs), g, []) \<and> fifo_inv g \<and>
    fifo_contents g = bs \<and> dpos g = p \<and> dlen g = length bs \<and> bsize g = 1048576 \<and> flags g = BTFIFO_F_ASSUME_FD_READY"
proof -
  let ?f = "f\<lparr>p0 := (p0 f)\<lparr>pfd := fd\<rparr>\<rparr>"
  have f: "fifo_inv ?f" "dpos ?f = p" "dlen ?f = 0" "bsize ?f = 1048576" "flags f = BTFIFO_F_ASSUME_FD_READY"
    using assms(1) by (simp_all add: idle_fifo_def fifo_inv_def)
  have none: "fifo_contents ?f = []" using f(3) by (simp add: fifo_contents_def ring_def)
  from store_straight [OF f(1), of bs "[RdBytes bs]" "[]"] f(2-4) assms(3) obtain b' where
    b': "wr_slice (b f) (int p) bs = Some b'" "fifo_took ?f [RdBytes bs] (?f\<lparr>b := b', dlen := length bs\<rparr>) [] bs" by auto
  have "btfifo_fd_to_fifo f fd polled [RdBytes bs] = Some (int (length bs), ?f\<lparr>b := b', dlen := length bs\<rparr>, [])"
    using f(2-5) assms(2,3) b'(1) ready_flag
    by (cases "p = 0") (simp_all add: btfifo_fd_to_fifo_def btfifo_fd_regions_def btfifo_fd_region2_def size_sub_ge Let_def)
  then show ?thesis using b'(2) none f(2,4,5) by (simp add: fifo_took_def)
qed

lemma filled_fifo_empties:
  assumes "fifo_inv g" "fifo_contents g = bs" "dpos g = p" "dlen g = length bs" "bsize g = 1048576"
    "flags g = BTFIFO_F_ASSUME_FD_READY" "bs \<noteq> []" "p + length bs < 1048576" "wr_plan out = []"
  shows "\<exists>h. btfifo_fifo_to_fd g fd polled out = Some (int (length bs), h, out\<lparr>written := written out @ bs\<rparr>) \<and> idle_fifo (p + length bs) h"
proof -
  have g: "length (b g) = bsize g" using assms(1) by (simp add: fifo_inv_def)
  then have data: "take (length bs) (drop p (b g)) = bs"
    using assms(2-5,8) by (simp add: fifo_contents_def ring_straight)
  let ?h = "g\<lparr>dlen := 0, dpos := p + length bs\<rparr>"
  have "btfifo_fifo_to_fd g fd polled out = Some (int (length bs), ?h, out\<lparr>written := written out @ bs\<rparr>)"
    using assms ready_flag g data
    by (simp add: btfifo_fifo_to_fd_def btfifo_out_regions_def btfifo_out_region2_def sys_write_all Let_def size_sub_ge)
  then show ?thesis using assms by (simp add: idle_fifo_def fifo_inv_def)
qed

section \<open>One child\<close>

text \<open>A turn reads what a child has written, the next one writes it out, and then the child closes its pipe.\<close>

definition ready_events :: "tunnel_event list" where
  "ready_events = [\<lparr>ev_sigchld = False, ev_poll = PollReports [POLLIN] [], ev_poll_out = (0, []), ev_poll_in = (0, [])\<rparr>,
     \<lparr>ev_sigchld = False, ev_poll = PollReports [] [POLLOUT], ev_poll_out = (0, []), ev_poll_in = (0, [])\<rparr>]"

definition hup_event :: tunnel_event where
  "hup_event = \<lparr>ev_sigchld = False, ev_poll = PollReports [POLLHUP] [], ev_poll_out = (0, []), ev_poll_in = (0, [])\<rparr>"

lemma idle_turns:
  assumes "idle_fifo p (tfifo s)" "bs \<noteq> []" "p + length bs < 1048576" "fd_in_rx s = [RdBytes bs]" "wr_plan (fd_out_tx s) = []"
  shows "\<exists>s'. turns (tunnel_turn timeout_us) (ready_events @ es) s = turns (tunnel_turn timeout_us) es s' \<and>
    fd_out_tx s' = (fd_out_tx s)\<lparr>written := written (fd_out_tx s) @ bs\<rparr> \<and> idle_fifo (p + length bs) (tfifo s')"
proof -
  have f: "bsize (tfifo s) = 1048576" "dlen (tfifo s) = 0" using assms(1) by (simp_all add: idle_fifo_def)
  from idle_fifo_fills [OF assms(1-3)] obtain g where
    g: "btfifo_fd_to_fifo (tfifo s) (pfd (p_in s)) (0, []) [RdBytes bs] = Some (int (length bs), g, [])" "fifo_inv g"
      "fifo_contents g = bs" "dpos g = p" "dlen g = length bs" "bsize g = 1048576" "flags g = BTFIFO_F_ASSUME_FD_READY" by blast
  from filled_fifo_empties [OF g(2-7) assms(2,3,5)] obtain h where
    h: "btfifo_fifo_to_fd g (pfd (p_out s)) (0, []) (fd_out_tx s) =
        Some (int (length bs), h, (fd_out_tx s)\<lparr>written := written (fd_out_tx s) @ bs\<rparr>)" "idle_fifo (p + length bs) h" by blast
  let ?s = "s\<lparr>p_in := (p_in s)\<lparr>events := [POLLIN, POLLPRI], revents := [POLLIN]\<rparr>, p_out := (p_out s)\<lparr>events := [], revents := []\<rparr>,
    tfifo := g, fd_in_rx := []\<rparr>"
  have "tunnel_turn timeout_us (hd ready_events) s = Some (None, ?s)"
    using f g(1) assms(4)
    by (simp add: ready_events_def tunnel_turn_def poll2_def request_def tunnel_serve_def tunnel_out_def tunnel_in_def Let_def
        hits_def poll_reports_def btfifo_get_free_len_def btfifo_get_stored_len_def size_sub_ge)
  moreover have "\<exists>s'. tunnel_turn timeout_us (ready_events ! 1) ?s = Some (None, s') \<and>
      fd_out_tx s' = (fd_out_tx s)\<lparr>written := written (fd_out_tx s) @ bs\<rparr> \<and> tfifo s' = h"
    using g(5,6) h(1) assms(2)
    by (simp add: ready_events_def tunnel_turn_def poll2_def request_def tunnel_serve_def tunnel_out_def tunnel_in_def Let_def
        hits_def poll_reports_def btfifo_get_free_len_def btfifo_get_stored_len_def)
  ultimately show ?thesis using h(2) by (auto simp: ready_events_def)
qed

lemma hup_turn:
  assumes "idle_fifo p (tfifo s)"
  shows "\<exists>s'. turns (tunnel_turn timeout_us) [hup_event] s = Some (Some 10, s') \<and> fd_out_tx s' = fd_out_tx s \<and> tfifo s' = tfifo s"
proof -
  have f: "bsize (tfifo s) = 1048576" "dlen (tfifo s) = 0" using assms(1) by (simp_all add: idle_fifo_def)
  then show ?thesis
    by (simp add: hup_event_def tunnel_turn_def poll2_def request_def tunnel_serve_def tunnel_out_def tunnel_in_def Let_def
        hits_def poll_reports_def btfifo_get_free_len_def btfifo_get_stored_len_def size_sub_ge)
qed

section \<open>Children one after the other\<close>

definition hup_child :: "byte list \<Rightarrow> child_session" where
  "hup_child bs = sample_child\<lparr>c_rx := [RdBytes bs], c_events := ready_events @ [hup_event]\<rparr>"

lemma relay_children:
  assumes "idle_fifo p (tfifo s)" "[] \<notin> set parts" "p + length (concat parts) < 1048576" "wr_plan (fd_out_tx s) = []"
  shows "\<exists>s'. turns (relay_turn timeout_us fd_out) (map (Forked \<circ> hup_child) parts) s = Some (None, s') \<and>
    written (fd_out_tx s') = written (fd_out_tx s) @ concat parts"
  using assms
proof (induction parts arbitrary: p s)
  case (Cons bs parts)
  let ?s = "s\<lparr>fd_in_rx := [RdBytes bs], p_in := (fst (c_junk sample_child))\<lparr>pfd := c_fd_read sample_child\<rparr>,
    p_out := (snd (c_junk sample_child))\<lparr>pfd := fd_out\<rparr>\<rparr>"
  from idle_turns [of p ?s bs timeout_us "[hup_event]"] Cons.prems obtain s1 where
    s1: "turns (tunnel_turn timeout_us) (ready_events @ [hup_event]) ?s = turns (tunnel_turn timeout_us) [hup_event] s1"
      "fd_out_tx s1 = (fd_out_tx s)\<lparr>written := written (fd_out_tx s) @ bs\<rparr>" "idle_fifo (p + length bs) (tfifo s1)" by auto
  from hup_turn [OF s1(3), of timeout_us] obtain s2 where
    s2: "turns (tunnel_turn timeout_us) [hup_event] s1 = Some (Some 10, s2)" "fd_out_tx s2 = fd_out_tx s1" "tfifo s2 = tfifo s1" by blast
  have "\<exists>s3. relay_turn timeout_us fd_out (Forked (hup_child bs)) s = Some (None, s3) \<and> fd_out_tx s3 = fd_out_tx s1 \<and> tfifo s3 = tfifo s1"
    using s1(1) s2 by (simp add: relay_turn_def buffered_tunnel_pipe_def hup_child_def Let_def)
  then obtain s3 where s3: "relay_turn timeout_us fd_out (Forked (hup_child bs)) s = Some (None, s3)"
    "fd_out_tx s3 = fd_out_tx s1" "tfifo s3 = tfifo s1" by blast
  show ?case using Cons.IH [of "p + length bs" s3] Cons.prems s1(2,3) s3 by auto
qed simp

lemma relay_of_children:
  assumes "length m = 1048576" "[] \<notin> set parts" "length (concat parts) < 1048576" "wr_plan (fd_out_tx t) = []"
  shows "\<exists>t'. stream_dvr_subprocess_to_pipe timeout_us fd_out f0 (Some m) (map (Forked \<circ> hup_child) parts) t = Some (None, t') \<and>
    written (fd_out_tx t') = written (fd_out_tx t) @ concat parts"
proof -
  let ?f = "snd (btfifo_create (relay_start f0) (Some m))"
  have "idle_fifo 0 ?f" using assms(1) by (simp add: idle_fifo_def btfifo_create_def relay_start_def fifo_inv_def)
  with relay_children [of 0 "t\<lparr>tfifo := ?f\<rparr>" parts timeout_us fd_out] assms obtain s' where
    "turns (relay_turn timeout_us fd_out) (map (Forked \<circ> hup_child) parts) (t\<lparr>tfifo := ?f\<rparr>) = Some (None, s')"
    "written (fd_out_tx s') = written (fd_out_tx t) @ concat parts" by auto
  then show ?thesis using assms(1) by (simp add: stream_dvr_subprocess_to_pipe_def btfifo_create_def relay_start_def)
qed

end
