(* ===== verification/Bintools.thy ===== *)
theory Bintools
  imports Prelude
begin

text \<open>
  The integer/byte macros of \<open>src/bintools.h\<close>. A writing macro is the list of bytes it stores
  at \<open>memx\<close> onwards; a reading macro takes those bytes. The reading macros compute in \<open>int\<close>
  (the promoted type of \<open>uint8_t\<close>), so their value is a 32-bit word that the caller converts.
  The locale \<open>byte_codec\<close> is what the protocol and container code relies on: what one macro
  writes, the other reads back.
\<close>

section \<open>The macros\<close>

definition BT_NV2MM_U64 :: "u64 \<Rightarrow> byte list" where
  "BT_NV2MM_U64 varx =
     [ucast (drop_bit 56 varx AND 0xff), ucast (drop_bit 48 varx AND 0xff),
      ucast (drop_bit 40 varx AND 0xff), ucast (drop_bit 32 varx AND 0xff),
      ucast (drop_bit 24 varx AND 0xff), ucast (drop_bit 16 varx AND 0xff),
      ucast (drop_bit 8 varx AND 0xff), ucast (varx AND 0xff)]"

definition BT_NV2MM_U32 :: "u32 \<Rightarrow> byte list" where
  "BT_NV2MM_U32 varx =
     [ucast (drop_bit 24 varx AND 0xff), ucast (drop_bit 16 varx AND 0xff),
      ucast (drop_bit 8 varx AND 0xff), ucast (varx AND 0xff)]"

definition BT_NV2MM_U16 :: "u16 \<Rightarrow> byte list" where
  "BT_NV2MM_U16 varx = [ucast (drop_bit 8 varx AND 0xff), ucast (varx AND 0xff)]"

fun BT_LM2NV_U32 :: "byte list \<Rightarrow> u32" where
  "BT_LM2NV_U32 [m0, m1, m2, m3] =
     ucast m0 OR push_bit 8 (ucast m1) OR push_bit 16 (ucast m2) OR push_bit 24 (ucast m3)"
| "BT_LM2NV_U32 _ = 0"

fun BT_LM2NV_U16 :: "byte list \<Rightarrow> u32" where
  "BT_LM2NV_U16 [m0, m1] = ucast m0 OR push_bit 8 (ucast m1)"
| "BT_LM2NV_U16 _ = 0"

text \<open>
  No part of the program uses the reading macro for 64 bits. Its bytes, too, are promoted to \<open>int\<close>, where a
  shift by 32 or more has no defined value: the macro never has one.
\<close>

definition int_shl :: "byte \<Rightarrow> nat \<Rightarrow> u32 option" where
  "int_shl m n = (if n < 32 then Some (push_bit n (ucast m)) else None)"

fun BT_LM2NV_U64 :: "byte list \<Rightarrow> u32 option" where
  "BT_LM2NV_U64 [m0, m1, m2, m3, m4, m5, m6, m7] =
     do {
       a0 \<leftarrow> int_shl m0 0; a1 \<leftarrow> int_shl m1 8; a2 \<leftarrow> int_shl m2 16; a3 \<leftarrow> int_shl m3 24;
       a4 \<leftarrow> int_shl m4 32; a5 \<leftarrow> int_shl m5 40; a6 \<leftarrow> int_shl m6 48; a7 \<leftarrow> int_shl m7 56;
       Some (a0 OR a1 OR a2 OR a3 OR a4 OR a5 OR a6 OR a7)
     }"
| "BT_LM2NV_U64 _ = None"

lemma LM2NV_U64_undefined: "BT_LM2NV_U64 bs = None"
  by (cases bs rule: BT_LM2NV_U64.cases) (simp_all add: int_shl_def)

definition BT_NV2LM_U64 :: "u64 \<Rightarrow> byte list" where
  "BT_NV2LM_U64 varx =
     [ucast (varx AND 0xff), ucast (drop_bit 8 varx AND 0xff),
      ucast (drop_bit 16 varx AND 0xff), ucast (drop_bit 24 varx AND 0xff),
      ucast (drop_bit 32 varx AND 0xff), ucast (drop_bit 40 varx AND 0xff),
      ucast (drop_bit 48 varx AND 0xff), ucast (drop_bit 56 varx AND 0xff)]"

definition BT_NV2LM_U32 :: "u32 \<Rightarrow> byte list" where
  "BT_NV2LM_U32 varx =
     [ucast (varx AND 0xff), ucast (drop_bit 8 varx AND 0xff),
      ucast (drop_bit 16 varx AND 0xff), ucast (drop_bit 24 varx AND 0xff)]"

definition BT_NV2LM_U16 :: "u16 \<Rightarrow> byte list" where
  "BT_NV2LM_U16 varx = [ucast (varx AND 0xff), ucast (drop_bit 8 varx AND 0xff)]"

text \<open>
  \<open>BT_IDeqLM_32\<close> ORs the four differences together, without short-circuiting: all four bytes
  are read whatever the first ones are.
\<close>

fun BT_IDeqLM_32 :: "byte \<Rightarrow> byte \<Rightarrow> byte \<Rightarrow> byte \<Rightarrow> byte list \<Rightarrow> bool" where
  "BT_IDeqLM_32 i0 i1 i2 i3 [m0, m1, m2, m3] =
     (((i0 XOR m0) OR (i1 XOR m1) OR (i2 XOR m2) OR (i3 XOR m3)) = 0)"
| "BT_IDeqLM_32 i0 i1 i2 i3 _ = False"

section \<open>Comparison and lengths\<close>

lemma xor_zero_iff: "a XOR b = 0 \<longleftrightarrow> a = (b :: 'a::len word)"
  by (auto simp: bit_eq_iff bit_simps)

lemma IDeqLM_iff [simp]: "BT_IDeqLM_32 i0 i1 i2 i3 bs \<longleftrightarrow> bs = [i0, i1, i2, i3]"
  by (cases "(i0, i1, i2, i3, bs)" rule: BT_IDeqLM_32.cases)
     (auto simp: or_eq_0_iff xor_zero_iff)

lemma length_NV2MM [simp]:
  "length (BT_NV2MM_U64 x) = 8" "length (BT_NV2MM_U32 y) = 4" "length (BT_NV2MM_U16 z) = 2"
  by (simp_all add: BT_NV2MM_U64_def BT_NV2MM_U32_def BT_NV2MM_U16_def)

lemma length_NV2LM [simp]:
  "length (BT_NV2LM_U64 x) = 8" "length (BT_NV2LM_U32 y) = 4" "length (BT_NV2LM_U16 z) = 2"
  by (simp_all add: BT_NV2LM_U64_def BT_NV2LM_U32_def BT_NV2LM_U16_def)

section \<open>The codec interface\<close>

locale byte_codec =
  fixes enc :: "'v \<Rightarrow> byte list" and dec :: "byte list \<Rightarrow> 'v" and width :: nat
  assumes enc_length: "length (enc v) = width"
    and dec_enc: "dec (enc v) = v"
    and enc_dec: "length bs = width \<Longrightarrow> enc (dec bs) = bs"
begin

lemma enc_inject: "enc v = enc w \<longleftrightarrow> v = w"
  by (metis dec_enc)

lemma dec_inject: "length bs = width \<Longrightarrow> length cs = width \<Longrightarrow> dec bs = dec cs \<Longrightarrow> bs = cs"
  by (metis enc_dec)

lemma dec_append: "dec (take width (enc v @ rest)) = v"
  by (simp add: enc_length dec_enc)

lemma store_load:
  assumes "wr_slice m (int i) (enc v) = Some m'"
  shows "dec (take width (drop i m')) = v"
proof -
  have "i + length (enc v) \<le> length m"
    using assms by (auto simp: wr_slice_def split: if_splits)
  then have "m' = take i m @ enc v @ drop (i + length (enc v)) m" and "i \<le> length m"
    using assms by simp_all
  then have "take (length (enc v)) (drop i m') = enc v"
    by simp
  then show ?thesis by (simp add: enc_length dec_enc)
qed

lemma dec_surj: "length bs = width \<Longrightarrow> \<exists>v. bs = enc v"
  by (metis enc_dec)

end

section \<open>Bits of bytes\<close>

lemma bit_byte_beyond: "8 \<le> n \<Longrightarrow> \<not> bit (x :: byte) n"
  using bit_imp_le_length [of x n] by auto

lemma ucast_low_byte [simp]: "ucast (x AND 255) = (ucast (x :: 'a::len word) :: byte)"
proof -
  have "(255 :: 'a word) = mask 8" by (simp add: mask_eq_exp_minus_1)
  then have "x AND 255 = take_bit 8 x" by (simp only: take_bit_eq_mask)
  then show ?thesis
    by (simp only:) (rule bit_word_eqI, auto simp: bit_simps dest: bit_imp_le_length)
qed

lemma bytes_join32:
  "ucast (ucast x :: byte) OR push_bit 8 (ucast (ucast (drop_bit 8 x) :: byte)) OR
   push_bit 16 (ucast (ucast (drop_bit 16 x) :: byte)) OR
   push_bit 24 (ucast (ucast (drop_bit 24 x) :: byte)) = (x :: u32)"
  apply (rule bit_word_eqI)
  subgoal for n
    by (cases "n < 8"; cases "n < 16"; cases "n < 24") (simp_all add: bit_simps, auto)
  done

lemma bytes_split32:
  fixes m0 m1 m2 m3 :: byte
  defines "w \<equiv> ucast m0 OR push_bit 8 (ucast m1) OR push_bit 16 (ucast m2) OR
                push_bit 24 (ucast m3) :: u32"
  shows "ucast w = m0" "ucast (drop_bit 8 w) = m1" "ucast (drop_bit 16 w) = m2"
    "ucast (drop_bit 24 w) = m3"
  unfolding w_def by (rule bit_word_eqI; auto simp: bit_simps bit_byte_beyond)+

section \<open>The little-endian macros are codecs\<close>

lemma LM2NV_NV2LM_U32 [simp]: "BT_LM2NV_U32 (BT_NV2LM_U32 x) = x"
  by (simp add: BT_NV2LM_U32_def bytes_join32)

lemma NV2LM_LM2NV_U32: "length bs = 4 \<Longrightarrow> BT_NV2LM_U32 (BT_LM2NV_U32 bs) = bs"
  by (subst (1 2) list4_eq [of bs]) (simp_all add: BT_NV2LM_U32_def bytes_split32 del: drop_bit_or)

lemma LM2NV_NV2LM_U16 [simp]: "ucast (BT_LM2NV_U16 (BT_NV2LM_U16 x)) = x"
proof (rule bit_word_eqI)
  fix n assume "n < LENGTH(16)"
  then show "bit (ucast (BT_LM2NV_U16 (BT_NV2LM_U16 x)) :: u16) n = bit x n"
    by (cases "n < 8") (auto simp: BT_NV2LM_U16_def bit_simps)
qed

lemma NV2LM_LM2NV_U16: "length bs = 2 \<Longrightarrow> BT_NV2LM_U16 (ucast (BT_LM2NV_U16 bs)) = bs"
proof -
  assume "length bs = 2"
  then obtain m0 m1 where bs: "bs = [m0, m1]"
    by (auto simp: length_Suc_conv eval_nat_numeral)
  have "ucast (ucast (ucast m0 OR push_bit 8 (ucast m1) :: u32) :: u16) = m0"
    "ucast (drop_bit 8 (ucast (ucast m0 OR push_bit 8 (ucast m1) :: u32) :: u16)) = m1"
    by (rule bit_word_eqI; auto simp: bit_simps bit_byte_beyond)+
  then show ?thesis by (simp add: bs BT_NV2LM_U16_def)
qed

interpretation lm32: byte_codec BT_NV2LM_U32 BT_LM2NV_U32 4
  by unfold_locales (simp_all add: NV2LM_LM2NV_U32)

interpretation lm16: byte_codec BT_NV2LM_U16 "\<lambda>bs. ucast (BT_LM2NV_U16 bs)" 2
  by unfold_locales (simp_all add: NV2LM_LM2NV_U16)

section \<open>Numeric value of byte strings\<close>

text \<open>\<open>le_nat\<close> and \<open>be_nat\<close> are the two byte orders as positional notation.\<close>

fun le_nat :: "byte list \<Rightarrow> nat" where
  "le_nat [] = 0"
| "le_nat (b # bs) = unat b + 256 * le_nat bs"

fun be_nat :: "byte list \<Rightarrow> nat" where
  "be_nat [] = 0"
| "be_nat (b # bs) = unat b * 256 ^ length bs + be_nat bs"

fun be_bytes :: "nat \<Rightarrow> nat \<Rightarrow> byte list" where
  "be_bytes 0 v = []"
| "be_bytes (Suc n) v = of_nat (v div 256 ^ n) # be_bytes n v"

lemma be_bytes_numeral [simp]:
  "be_bytes (numeral k) v = of_nat (v div 256 ^ pred_numeral k) # be_bytes (pred_numeral k) v"
  by (simp add: numeral_eq_Suc)

lemma length_be_bytes [simp]: "length (be_bytes n v) = n"
  by (induction n) simp_all

lemma unat_byte_of_nat: "unat (of_nat v :: byte) = v mod 256"
  by (simp add: unat_of_nat)

lemma be_nat_be_bytes: "be_nat (be_bytes n v) = v mod 256 ^ n"
proof (induction n)
  case 0
  then show ?case by simp
next
  case (Suc n)
  then show ?case
    using mod_mult2_eq [of v "256 ^ n" 256] by (simp add: unat_byte_of_nat mult.commute)
qed

lemma drop_bit_byte: "ucast (drop_bit k x) = (of_nat (unat x div 2 ^ k) :: byte)"
proof -
  have "ucast (drop_bit k x) = (of_nat (unat (drop_bit k x)) :: byte)"
    by simp
  also have "unat (drop_bit k x) = unat x div 2 ^ k"
    by (rule trans [OF unat_drop_bit_eq drop_bit_eq_div])
  finally show ?thesis .
qed

lemma unat_LM2NV_U32:
  assumes "length bs = 4" shows "unat (BT_LM2NV_U32 bs) = le_nat bs"
proof -
  obtain m0 m1 m2 m3 where bs: "bs = [m0, m1, m2, m3]"
    using list4_eq [OF assms] by blast
  have lt: "unat m < 256" for m :: byte using unsigned_less [of m, where 'a=nat] by simp
  have "of_nat (le_nat bs) =
      ucast m0 + push_bit 8 (ucast m1) + push_bit 16 (ucast m2) + push_bit 24 (ucast m3 :: u32)"
    by (simp add: bs push_bit_eq_mult)
  also have "\<dots> = ((ucast m0 OR push_bit 8 (ucast m1)) OR push_bit 16 (ucast m2)) OR
      push_bit 24 (ucast m3)"
    by (simp add: disjunctive_add bit_simps bit_byte_beyond)
  also have "\<dots> = BT_LM2NV_U32 bs" by (simp add: bs or.assoc)
  finally have "BT_LM2NV_U32 bs = of_nat (le_nat bs)" by simp
  then show ?thesis using lt [of m0] lt [of m1] lt [of m2] lt [of m3]
    by (simp add: unat_of_nat bs del: of_nat_add of_nat_mult BT_LM2NV_U32.simps)
qed

lemma NV2MM_U16_be: "BT_NV2MM_U16 x = be_bytes 2 (unat x)"
  using drop_bit_byte [of 8 x] drop_bit_byte [of 0 x]
  by (simp add: BT_NV2MM_U16_def)

lemma NV2MM_U32_be: "BT_NV2MM_U32 x = be_bytes 4 (unat x)"
  using drop_bit_byte [of 24 x] drop_bit_byte [of 16 x] drop_bit_byte [of 8 x] drop_bit_byte [of 0 x]
  by (simp add: BT_NV2MM_U32_def)

lemma NV2MM_U64_be: "BT_NV2MM_U64 x = be_bytes 8 (unat x)"
  using drop_bit_byte [of 56 x] drop_bit_byte [of 48 x] drop_bit_byte [of 40 x] drop_bit_byte [of 32 x]
    drop_bit_byte [of 24 x] drop_bit_byte [of 16 x] drop_bit_byte [of 8 x] drop_bit_byte [of 0 x]
  by (simp add: BT_NV2MM_U64_def)

end
