(* ===== verification/Llprotocol.thy ===== *)
theory Llprotocol
  imports Bintools
begin

text \<open>
  The low-level protocol of the recorder (\<open>src/llprotocol.c\<close>): a message is a header of 32 bytes,
  bytes 4 to 7 of which announce the length of the data that follows it.
\<close>

section \<open>A connection\<close>

text \<open>
  The two standard streams over a socket: the bytes that will arrive before the connection ends or
  times out, the bytes the stream has accepted, and how many more it accepts before \<open>fwrite\<close> fails. The
  code calls \<open>fflush\<close> but never looks at its result, so what the stream has accepted counts as sent.
\<close>

record t_llp_connection =
  rx :: "byte list"
  tx :: "byte list"
  tx_room :: nat

definition net_fread :: "nat \<Rightarrow> 'a t_llp_connection_scheme \<Rightarrow> byte list \<times> 'a t_llp_connection_scheme" where
  "net_fread n c = (take n (rx c), c\<lparr>rx := drop n (rx c)\<rparr>)"

definition net_fwrite :: "byte list \<Rightarrow> 'a t_llp_connection_scheme \<Rightarrow> nat \<times> 'a t_llp_connection_scheme" where
  "net_fwrite bs c =
     (let n = min (length bs) (tx_room c)
      in (n, c\<lparr>tx := tx c @ take n bs, tx_room := tx_room c - n\<rparr>))"

section \<open>Headers\<close>

definition LLP_HEADER_SIZE :: nat where "LLP_HEADER_SIZE = 32"
definition LLP_HD_VER_IHL :: byte where "LLP_HD_VER_IHL = 0x60"
definition LLP_HD_NOP_REQ :: byte where "LLP_HD_NOP_REQ = 0xa1"
definition LLP_HD_NOP_REPLY :: byte where "LLP_HD_NOP_REPLY = 0xb1"

record t_ll_header =
  raw :: "byte list"
  extlen :: u32

definition llp_hd_cmd :: "t_ll_header \<Rightarrow> byte" where "llp_hd_cmd h = raw h ! 0"

definition set_raw :: "nat \<Rightarrow> byte \<Rightarrow> t_ll_header \<Rightarrow> t_ll_header" where
  "set_raw i v h = h\<lparr>raw := (raw h)[i := v]\<rparr>"

definition store_raw :: "nat \<Rightarrow> byte list \<Rightarrow> t_ll_header \<Rightarrow> t_ll_header" where
  "store_raw i bs h = h\<lparr>raw := take i (raw h) @ bs @ drop (i + length bs) (raw h)\<rparr>"

definition llp_init_header :: t_ll_header where
  "llp_init_header = \<lparr>raw = replicate LLP_HEADER_SIZE 0, extlen = 0\<rparr>"

text \<open>A partial header is followed by the zeros of \<open>llp_init_header\<close>; its length is then not taken.\<close>

definition llp_get_header :: "'a t_llp_connection_scheme \<Rightarrow> int \<times> t_ll_header \<times> 'a t_llp_connection_scheme" where
  "llp_get_header c =
     (let h = llp_init_header;
          (bs, c') = net_fread LLP_HEADER_SIZE c;
          h1 = h\<lparr>raw := bs @ drop (length bs) (raw h)\<rparr>
      in if length bs \<noteq> LLP_HEADER_SIZE then (1, h1, c')
         else (0, h1\<lparr>extlen := BT_LM2NV_U32 (take 4 (drop 4 (raw h1)))\<rparr>, c'))"

definition llp_send_header :: "'a t_llp_connection_scheme \<Rightarrow> t_ll_header \<Rightarrow> int \<times> t_ll_header \<times> 'a t_llp_connection_scheme" where
  "llp_send_header c h =
     (let h1 = store_raw 4 (BT_NV2LM_U32 (extlen h)) h;
          (n, c') = net_fwrite (raw h1) c
      in (if n \<noteq> LLP_HEADER_SIZE then 1 else 0, h1, c'))"

definition llp_send_nop :: "'a t_llp_connection_scheme \<Rightarrow> int \<times> 'a t_llp_connection_scheme" where
  "llp_send_nop c =
     (let (r, _, c') = llp_send_header c (set_raw 0 LLP_HD_NOP_REQ llp_init_header) in (r, c'))"

section \<open>Data after a header\<close>

text \<open>Declared and never called; it does nothing.\<close>

definition llp_get_extdata :: "'a t_llp_connection_scheme \<Rightarrow> t_ll_header \<Rightarrow> int" where
  "llp_get_extdata c h = 0"

text \<open>The data are those in \<open>buf\<close> afterwards; the result is the \<open>uint32_t\<close> length as an \<open>int\<close>.\<close>

definition llp_get_extdata_sbuff ::
    "'a t_llp_connection_scheme \<Rightarrow> t_ll_header \<Rightarrow> u32 \<Rightarrow> int \<times> byte list \<times> 'a t_llp_connection_scheme" where
  "llp_get_extdata_sbuff c h buflen =
     (if extlen h = 0 then (0, [], c)
      else if buflen < extlen h then (-2, [], c)
      else let (bs, c') = net_fread (unat (extlen h)) c
           in (if length bs \<noteq> unat (extlen h) then -1 else sint (extlen h), bs, c'))"

definition DISCARD_CHUNK_SIZE :: nat where "DISCARD_CHUNK_SIZE = 65536"

function discard_loop :: "nat \<Rightarrow> 'a t_llp_connection_scheme \<Rightarrow> int \<times> 'a t_llp_connection_scheme" where
  "discard_loop rem_extlen c =
     (if rem_extlen \<noteq> 0 then
        let to_read = (if rem_extlen > DISCARD_CHUNK_SIZE then DISCARD_CHUNK_SIZE else rem_extlen);
            (bs, c') = net_fread to_read c
        in if length bs \<noteq> to_read then (2, c') else discard_loop (rem_extlen - to_read) c'
      else (0, c))"
  by pat_completeness auto
termination discard_loop
  by (relation "measure fst") (auto simp: DISCARD_CHUNK_SIZE_def split: if_splits)

declare discard_loop.simps [simp del]

definition llp_get_discard_extdata :: "'a t_llp_connection_scheme \<Rightarrow> t_ll_header \<Rightarrow> int \<times> 'a t_llp_connection_scheme" where
  "llp_get_discard_extdata c h = discard_loop (unat (extlen h)) c"

definition llp_send_extdata :: "'a t_llp_connection_scheme \<Rightarrow> byte list \<Rightarrow> int \<times> 'a t_llp_connection_scheme" where
  "llp_send_extdata c payload =
     (let (n, c') = net_fwrite payload c in (if n \<noteq> length payload then 1 else 0, c'))"

section \<open>Messages\<close>

text \<open>A well-formed message: a header whose length field is the length of the data after it.\<close>

type_synonym message = "byte list \<times> byte list"

definition message_ok :: "message \<Rightarrow> bool" where
  "message_ok m \<longleftrightarrow> length (fst m) = LLP_HEADER_SIZE \<and> length (snd m) < 2 ^ 31 \<and>
     le_nat (take 4 (drop 4 (fst m))) = length (snd m)"

definition message_bytes :: "message \<Rightarrow> byte list" where
  "message_bytes m = fst m @ snd m"

abbreviation command :: "message \<Rightarrow> byte" where
  "command m \<equiv> fst m ! 0"

definition header_of :: "message \<Rightarrow> t_ll_header" where
  "header_of m = \<lparr>raw = fst m, extlen = of_nat (length (snd m))\<rparr>"

lemma length_store_raw [simp]: "i + length bs \<le> length (raw h) \<Longrightarrow> length (raw (store_raw i bs h)) = length (raw h)"
  by (simp add: store_raw_def)

lemma length_set_raw [simp]: "length (raw (set_raw i v h)) = length (raw h)"
  by (simp add: set_raw_def)

lemma length_init_raw [simp]: "length (raw llp_init_header) = 32"
  by (simp add: llp_init_header_def LLP_HEADER_SIZE_def)

lemma extlen_raw [simp]: "extlen (set_raw i v h) = extlen h" "extlen (store_raw i bs h) = extlen h"
  by (simp_all add: set_raw_def store_raw_def)

lemma unat_small32: "n < 2 ^ 31 \<Longrightarrow> unat (of_nat n :: u32) = n"
  by (simp add: unat_of_nat)

lemma extlen_header_of: "message_ok m \<Longrightarrow> unat (extlen (header_of m)) = length (snd m)"
  by (simp add: header_of_def message_ok_def unat_small32)

lemma cmd_header_of [simp]: "llp_hd_cmd (header_of m) = command m" "raw (header_of m) = fst m"
  by (simp_all add: header_of_def llp_hd_cmd_def)

lemma get_header_message:
  assumes "message_ok m" "rx c = message_bytes m @ rest"
  shows "llp_get_header c = (0, header_of m, c\<lparr>rx := snd m @ rest\<rparr>)"
proof -
  have l: "length (fst m) = 32" "length (take 4 (drop 4 (fst m))) = 4"
    using assms(1) by (simp_all add: message_ok_def LLP_HEADER_SIZE_def)
  have "unat (BT_LM2NV_U32 (take 4 (drop 4 (fst m)))) = length (snd m)"
    using unat_LM2NV_U32 [OF l(2)] assms(1) by (simp add: message_ok_def)
  then have "of_nat (unat (BT_LM2NV_U32 (take 4 (drop 4 (fst m))))) = (of_nat (length (snd m)) :: u32)" by simp
  then have "BT_LM2NV_U32 (take 4 (drop 4 (fst m))) = of_nat (length (snd m))" by simp
  then show ?thesis
    using l assms(2)
    by (simp add: llp_get_header_def net_fread_def message_bytes_def LLP_HEADER_SIZE_def header_of_def llp_init_header_def)
qed

lemma get_header_short:
  "length (rx c) < LLP_HEADER_SIZE \<Longrightarrow> \<exists>h. llp_get_header c = (1, h, c\<lparr>rx := []\<rparr>)"
  by (simp add: llp_get_header_def net_fread_def Let_def)

text \<open>Discarding in chunks is discarding at once.\<close>

lemma discard_loop_drop:
  "discard_loop n c = (if n \<le> length (rx c) then 0 else 2, c\<lparr>rx := drop n (rx c)\<rparr>)"
proof (induction n c rule: discard_loop.induct)
  case (1 n c)
  show ?case
  proof (cases "n = 0")
    case True
    then show ?thesis by (simp add: discard_loop.simps)
  next
    case False
    define k where "k = (if n > DISCARD_CHUNK_SIZE then DISCARD_CHUNK_SIZE else n)"
    have k: "0 < k" "k \<le> n" using False by (simp_all add: k_def DISCARD_CHUNK_SIZE_def)
    show ?thesis
    proof (cases "k \<le> length (rx c)")
      case True
      let ?c = "c\<lparr>rx := drop k (rx c)\<rparr>"
      have "discard_loop n c = discard_loop (n - k) ?c"
        using False True by (subst discard_loop.simps) (simp add: k_def [symmetric] net_fread_def Let_def)
      also have "\<dots> = (if n - k \<le> length (rx ?c) then 0 else 2, ?c\<lparr>rx := drop (n - k) (rx ?c)\<rparr>)"
        by (rule "1.IH" [OF False k_def refl, unfolded net_fread_def, OF refl]) (use True in auto)
      finally show ?thesis using k True by auto
    next
      case short: False
      then have "discard_loop n c = (2, c\<lparr>rx := drop k (rx c)\<rparr>)"
        using False by (subst discard_loop.simps) (simp add: k_def [symmetric] net_fread_def Let_def)
      then show ?thesis using short k by simp
    qed
  qed
qed

lemma discard_message:
  "message_ok m \<Longrightarrow> rx c = snd m @ rest \<Longrightarrow> llp_get_discard_extdata c (header_of m) = (0, c\<lparr>rx := rest\<rparr>)"
  by (simp add: llp_get_discard_extdata_def discard_loop_drop extlen_header_of)

lemma extdata_message:
  assumes "message_ok m" "rx c = snd m @ rest" "length (snd m) \<le> unat buflen"
  shows "llp_get_extdata_sbuff c (header_of m) buflen = (int (length (snd m)), snd m, c\<lparr>rx := rest\<rparr>)"
proof -
  have l: "unat (extlen (header_of m)) = length (snd m)" "length (snd m) < 2 ^ 31"
    using assms(1) extlen_header_of by (simp_all add: message_ok_def)
  then have u: "uint (extlen (header_of m)) = int (length (snd m))" by (simp add: uint_nat)
  have s: "sint (extlen (header_of m)) = int (length (snd m))"
    using l(2) u by (simp add: sint32_eq)
  have z: "extlen (header_of m) = 0 \<longleftrightarrow> snd m = []"
    using l(1) by (metis length_0_conv unat_0 unat_eq_zero)
  have b: "\<not> buflen < extlen (header_of m)" using assms(3) l(1) by (simp add: word_less_nat_alt)
  show ?thesis using assms(2) l(1) s z b by (simp add: llp_get_extdata_sbuff_def net_fread_def)
qed

lemma send_header_ok:
  assumes "length (raw h) = 32" "32 \<le> tx_room c"
  shows "llp_send_header c h = (0, store_raw 4 (BT_NV2LM_U32 (extlen h)) h,
    c\<lparr>tx := tx c @ raw (store_raw 4 (BT_NV2LM_U32 (extlen h)) h), tx_room := tx_room c - 32\<rparr>)"
  using assms by (simp add: llp_send_header_def net_fwrite_def Let_def LLP_HEADER_SIZE_def)

lemma send_extdata_ok:
  "length bs \<le> tx_room c \<Longrightarrow>
   llp_send_extdata c bs = (0, c\<lparr>tx := tx c @ bs, tx_room := tx_room c - length bs\<rparr>)"
  by (simp add: llp_send_extdata_def net_fwrite_def Let_def)

text \<open>What is sent is a message: a header with the length of the data, and the data.\<close>

lemma sent_message:
  assumes "length (raw h) = 32" "extlen h = of_nat (length bs)" "length bs < 2 ^ 31"
  shows "message_ok (raw (store_raw 4 (BT_NV2LM_U32 (extlen h)) h), bs)"
proof -
  let ?r = "raw (store_raw 4 (BT_NV2LM_U32 (extlen h)) h)"
  have t: "take 4 (drop 4 ?r) = BT_NV2LM_U32 (extlen h)" "length ?r = 32" using assms(1) by (simp_all add: store_raw_def)
  have "le_nat (BT_NV2LM_U32 (extlen h)) = unat (BT_LM2NV_U32 (BT_NV2LM_U32 (extlen h)))"
    by (rule unat_LM2NV_U32 [symmetric]) simp
  also have "\<dots> = length bs" using assms(2,3) by (simp add: unat_small32)
  finally show ?thesis using t assms(3) by (simp add: message_ok_def LLP_HEADER_SIZE_def)
qed

end
