(* ===== verification/Devinfo.thy ===== *)
theory Devinfo
  imports Llprotocol
begin

text \<open>
  What the program keeps about a recorder (\<open>src/devinfo.c\<close>, \<open>src/devinfo.h\<close>) and how replies of the
  recorder update it (\<open>extract_string\<close> and \<open>update_devinfo_from_system_information\<close> of
  \<open>src/hlprotocol.c\<close>).
\<close>

section \<open>The structure\<close>

definition DI_STR_MAXLEN :: nat where "DI_STR_MAXLEN = 1024"

datatype t_di_video_sys = DI_VS_UNDEFINED | DI_VS_NTSC | DI_VS_PAL | DI_VS_UNKNOWN
datatype t_di_video_enc = DI_VE_UNDEFINED | DI_VE_MPEG4 | DI_VE_H264 | DI_VE_UNKNOWN
datatype t_di_mw_preview = DI_MWP_UNDEFINED | DI_MWP_YES | DI_MWP_NO | DI_MWP_UNKNOWN
datatype t_di_hdtype = DI_HD_UNDEFINED | DI_HD_ATA | DI_HD_SATA | DI_HD_UNKNOWN

text \<open>Every character array has \<open>DI_STR_MAXLEN\<close> bytes.\<close>

record t_devinfo =
  video_sys :: t_di_video_sys
  video_enc :: t_di_video_enc
  mw_preview :: t_di_mw_preview
  n_channels :: int
  dev_type :: int
  dev_subtype :: int
  hd_type :: t_di_hdtype
  dev_sn :: "byte list"
  dev_ver :: "byte list"
  dev_type_chipset :: "byte list"
  lang_sup :: "byte list"
  func_list :: "byte list"
  oem_info :: "byte list"
  netrun_stat :: "byte list"
  split_screen :: "byte list"
  func_capability :: "byte list"
  hd_part_cap :: "byte list"
  wi_alarm :: "byte list"
  access_url :: "byte list"

definition empty_str :: "byte list \<Rightarrow> byte list" where
  "empty_str s = s[0 := 0]"

text \<open>\<open>dev_type_chipset\<close> is not initialised.\<close>

definition di_init :: "t_devinfo \<Rightarrow> t_devinfo" where
  "di_init d =
     d\<lparr>video_sys := DI_VS_UNDEFINED, video_enc := DI_VE_UNDEFINED, mw_preview := DI_MWP_UNDEFINED,
       n_channels := -1, dev_type := -1, dev_subtype := -1, hd_type := DI_HD_UNDEFINED,
       dev_sn := empty_str (dev_sn d), dev_ver := empty_str (dev_ver d),
       lang_sup := empty_str (lang_sup d), func_list := empty_str (func_list d), oem_info := empty_str (oem_info d),
       netrun_stat := empty_str (netrun_stat d), split_screen := empty_str (split_screen d),
       func_capability := empty_str (func_capability d), hd_part_cap := empty_str (hd_part_cap d),
       wi_alarm := empty_str (wi_alarm d), access_url := empty_str (access_url d)\<rparr>"

section \<open>Strings from protocol data\<close>

text \<open>\<open>char\<close> is signed: bytes from 128 on are negative and count as control characters.\<close>

definition filter_char :: "byte \<Rightarrow> byte" where
  "filter_char c = (if sint c < 32 \<and> c \<noteq> 9 then 32 else c)"

fun extract_loop :: "nat \<Rightarrow> byte list \<Rightarrow> nat \<Rightarrow> byte list \<Rightarrow> byte list option" where
  "extract_loop 0 src i dst = wr_slice dst (int i) [0]"
| "extract_loop (Suc n) src i dst =
     do {
       c \<leftarrow> rd src (int i);
       dst' \<leftarrow> wr_slice dst (int i) [filter_char c];
       extract_loop n src (i + 1) dst'
     }"

definition extract_string :: "byte list \<Rightarrow> int \<Rightarrow> byte list \<Rightarrow> int \<Rightarrow> byte list option" where
  "extract_string src src_len dst dst_maxlen =
     (let to_do = (if src_len > dst_maxlen - 1 then dst_maxlen - 1 else src_len)
      in extract_loop (nat to_do) src 0 dst)"

section \<open>Replies update the structure\<close>

definition grab :: "byte list \<Rightarrow> int \<Rightarrow> byte list \<Rightarrow> byte list option" where
  "grab extdata extdata_len dst = extract_string extdata extdata_len dst (int DI_STR_MAXLEN)"

text \<open>Cases 11 and 19 of the \<open>switch\<close> have no \<open>break\<close>: they run on into the ones below.\<close>

definition case_lang :: "byte list \<Rightarrow> int \<Rightarrow> t_devinfo \<Rightarrow> t_devinfo option" where
  "case_lang e n d = do { s \<leftarrow> grab e n (lang_sup d); Some (d\<lparr>lang_sup := s\<rparr>) }"

definition case_split :: "byte list \<Rightarrow> int \<Rightarrow> t_devinfo \<Rightarrow> t_devinfo option" where
  "case_split e n d = do { s \<leftarrow> grab e n (split_screen d); case_lang e n (d\<lparr>split_screen := s\<rparr>) }"

definition case_chipset :: "byte list \<Rightarrow> int \<Rightarrow> t_devinfo \<Rightarrow> t_devinfo option" where
  "case_chipset e n d = do { s \<leftarrow> grab e n (dev_type_chipset d); case_split e n (d\<lparr>dev_type_chipset := s\<rparr>) }"

definition switch_sysinfo :: "t_devinfo \<Rightarrow> byte list \<Rightarrow> int \<Rightarrow> t_ll_header \<Rightarrow> t_devinfo option" where
  "switch_sysinfo d e n h =
     (let kind = unat (raw h ! 8)
      in if kind = 2 then
           Some (d\<lparr>hd_type := (if raw h ! 13 = 0 then DI_HD_ATA else if raw h ! 13 = 1 then DI_HD_SATA else DI_HD_UNKNOWN)\<rparr>)
         else if kind = 7 then do { s \<leftarrow> grab e n (dev_sn d); Some (d\<lparr>dev_sn := s\<rparr>) }
         else if kind = 8 then do { s \<leftarrow> grab e n (dev_ver d); Some (d\<lparr>dev_ver := s\<rparr>) }
         else if kind = 11 then case_chipset e n d
         else if kind = 19 then case_split e n d
         else if kind = 20 then case_lang e n d
         else if kind = 26 then do { s \<leftarrow> grab e n (func_list d); Some (d\<lparr>func_list := s\<rparr>) }
         else if kind = 27 then do { s \<leftarrow> grab e n (wi_alarm d); Some (d\<lparr>wi_alarm := s\<rparr>) }
         else if kind = 29 then do { s \<leftarrow> grab e n (oem_info d); Some (d\<lparr>oem_info := s\<rparr>) }
         else if kind = 30 then do { s \<leftarrow> grab e n (netrun_stat d); Some (d\<lparr>netrun_stat := s\<rparr>) }
         else if kind = 31 then do { s \<leftarrow> grab e n (func_capability d); Some (d\<lparr>func_capability := s\<rparr>) }
         else if kind = 33 then do { s \<leftarrow> grab e n (hd_part_cap d); Some (d\<lparr>hd_part_cap := s\<rparr>) }
         else if kind = 39 then do { s \<leftarrow> grab e n (access_url d); Some (d\<lparr>access_url := s\<rparr>) }
         else Some d)"

definition update_devinfo_from_system_information ::
    "t_devinfo option \<Rightarrow> byte list \<Rightarrow> int \<Rightarrow> t_ll_header \<Rightarrow> t_devinfo option option" where
  "update_devinfo_from_system_information devinfo extdata extdata_len ll_header_in =
     (case devinfo of None \<Rightarrow> Some None
      | Some d \<Rightarrow> map_option Some (switch_sysinfo d extdata extdata_len ll_header_in))"

section \<open>Extraction\<close>

definition c_str :: "byte list \<Rightarrow> byte list" where
  "c_str m = takeWhile (\<lambda>b. b \<noteq> 0) m"

lemma extract_loop_spec:
  "i + n \<le> length src \<Longrightarrow> i + n < length dst \<Longrightarrow>
   extract_loop n src i dst =
     Some (take i dst @ map filter_char (take n (drop i src)) @ [0] @ drop (i + n + 1) dst)"
proof (induction n arbitrary: i dst)
  case 0
  then show ?case using wr_slice_of_nat [of i "[0]" dst] by simp
next
  case (Suc n)
  define d where "d = take i dst @ [filter_char (src ! i)] @ drop (i + 1) dst"
  have w: "wr_slice dst (int i) [filter_char (src ! i)] = Some d"
    using wr_slice_of_nat [of i "[filter_char (src ! i)]" dst] Suc.prems by (simp add: d_def)
  have d: "length d = length dst" "take (i + 1) d = take i dst @ [filter_char (src ! i)]"
      "drop (i + 1 + n + 1) d = drop (i + Suc n + 1) dst"
    using Suc.prems by (simp_all add: d_def min_def add.commute [of n i])
  have s: "take (Suc n) (drop i src) = src ! i # take n (drop (i + 1) src)"
    using Suc.prems by (simp add: Cons_nth_drop_Suc [symmetric])
  have "extract_loop n src (i + 1) d =
      Some ((take i dst @ [filter_char (src ! i)]) @ map filter_char (take n (drop (i + 1) src)) @ [0] @ drop (i + Suc n + 1) dst)"
    unfolding d(2,3) [symmetric] by (rule Suc.IH) (use Suc.prems d(1) in simp_all)
  then show ?case using Suc.prems w s by simp
qed

definition extracted :: "byte list \<Rightarrow> nat \<Rightarrow> byte list" where
  "extracted src maxlen = map filter_char (take (maxlen - 1) src)"

lemma extract_string_spec:
  assumes "0 < maxlen" "maxlen \<le> length dst"
  shows "extract_string src (int (length src)) dst (int maxlen) =
    Some (extracted src maxlen @ [0] @ drop (length (extracted src maxlen) + 1) dst)"
proof -
  define n where "n = min (length src) (maxlen - 1)"
  have n: "nat (if int (length src) > int maxlen - 1 then int maxlen - 1 else int (length src)) = n"
    using assms(1) by (auto simp: n_def)
  have "take n src = take (maxlen - 1) src" by (simp add: n_def min_def)
  then show ?thesis
    using extract_loop_spec [of 0 n src dst] assms n
    by (simp add: extract_string_def Let_def extracted_def n_def min.commute)
qed

lemma sint_byte: "sint (c :: byte) = (if uint c < 128 then uint c else uint c - 256)"
proof -
  have "sint c = (uint c + 2 ^ 7) mod 2 ^ 8 - 2 ^ 7"
    by (simp add: sint_uint signed_take_bit_eq_take_bit_shift take_bit_eq_mod)
  moreover have "0 \<le> uint c" "uint c < 2 ^ 8"
    using uint_lt2p [of c] by simp_all
  ultimately show ?thesis by (auto simp: mod_pos_geq)
qed

lemma filter_char_text: "filter_char c = 9 \<or> 32 \<le> unat (filter_char c) \<and> unat (filter_char c) < 128"
proof (cases "sint c < 32")
  case True
  then show ?thesis by (simp add: filter_char_def)
next
  case False
  then have c: "32 \<le> sint c" by simp
  have "uint c < 256" using uint_lt2p [of c] by simp
  then have "32 \<le> uint c \<and> uint c < 128" using c by (simp add: sint_byte split: if_splits)
  then have "32 \<le> unat c \<and> unat c < 128" unfolding uint_nat by linarith
  then show ?thesis using False by (simp add: filter_char_def)
qed

lemma filter_char_nonzero: "filter_char c \<noteq> 0"
proof
  assume "filter_char c = 0"
  with filter_char_text [of c] show False by simp
qed

lemma c_str_extracted: "c_str (extracted src n @ [0] @ xs) = extracted src n"
proof -
  have "takeWhile (\<lambda>b. b \<noteq> 0) (extracted src n @ 0 # xs) = extracted src n @ takeWhile (\<lambda>b. b \<noteq> 0) (0 # xs)"
    by (rule takeWhile_append2) (auto simp: extracted_def filter_char_nonzero)
  then show ?thesis by (simp add: c_str_def)
qed

definition arrays_ok :: "t_devinfo \<Rightarrow> bool" where
  "arrays_ok d \<longleftrightarrow>
     (\<forall>s \<in> {dev_sn d, dev_ver d, dev_type_chipset d, lang_sup d, func_list d, oem_info d, netrun_stat d,
            split_screen d, func_capability d, hd_part_cap d, wi_alarm d, access_url d}. length s = DI_STR_MAXLEN)"

lemma grab_ok:
  assumes "length dst = DI_STR_MAXLEN"
  shows "\<exists>s. grab e (int (length e)) dst = Some s \<and> length s = DI_STR_MAXLEN \<and> c_str s = extracted e DI_STR_MAXLEN \<and>
    0 \<in> set s"
proof -
  have "length (extracted e DI_STR_MAXLEN) < DI_STR_MAXLEN" by (simp add: extracted_def DI_STR_MAXLEN_def)
  then show ?thesis
    using extract_string_spec [of DI_STR_MAXLEN dst e] assms c_str_extracted
    by (simp add: grab_def DI_STR_MAXLEN_def)
qed

lemma arrays_parts:
  assumes "arrays_ok d"
  shows "length (dev_sn d) = DI_STR_MAXLEN" "length (dev_ver d) = DI_STR_MAXLEN" "length (dev_type_chipset d) = DI_STR_MAXLEN"
    "length (lang_sup d) = DI_STR_MAXLEN" "length (func_list d) = DI_STR_MAXLEN" "length (oem_info d) = DI_STR_MAXLEN"
    "length (netrun_stat d) = DI_STR_MAXLEN" "length (split_screen d) = DI_STR_MAXLEN"
    "length (func_capability d) = DI_STR_MAXLEN" "length (hd_part_cap d) = DI_STR_MAXLEN" "length (wi_alarm d) = DI_STR_MAXLEN"
    "length (access_url d) = DI_STR_MAXLEN"
  using assms by (simp_all add: arrays_ok_def)

lemma switch_sysinfo_ok:
  assumes "arrays_ok d"
  shows "\<exists>d'. switch_sysinfo d e (int (length e)) h = Some d' \<and> arrays_ok d'"
proof -
  note p = arrays_parts [OF assms]
  from grab_ok [OF p(1), of e] grab_ok [OF p(2), of e] grab_ok [OF p(3), of e] grab_ok [OF p(4), of e]
    grab_ok [OF p(5), of e] grab_ok [OF p(6), of e] grab_ok [OF p(7), of e] grab_ok [OF p(8), of e]
    grab_ok [OF p(9), of e] grab_ok [OF p(10), of e] grab_ok [OF p(11), of e] grab_ok [OF p(12), of e]
  show ?thesis
    using assms unfolding switch_sysinfo_def Let_def case_chipset_def case_split_def case_lang_def arrays_ok_def
    by (elim exE conjE) simp
qed

text \<open>The same for the terminators; \<open>di_init\<close> sets all but that of \<open>dev_type_chipset\<close>.\<close>

definition strings_ok :: "t_devinfo \<Rightarrow> bool" where
  "strings_ok d \<longleftrightarrow> arrays_ok d \<and>
     (\<forall>s \<in> {dev_sn d, dev_ver d, dev_type_chipset d, lang_sup d, func_list d, oem_info d, netrun_stat d,
            split_screen d, func_capability d, hd_part_cap d, wi_alarm d, access_url d}. 0 \<in> set s)"

lemma switch_sysinfo_strings:
  assumes "strings_ok d"
  shows "\<exists>d'. switch_sysinfo d e (int (length e)) h = Some d' \<and> strings_ok d'"
proof -
  have "arrays_ok d" using assms by (simp add: strings_ok_def)
  note p = arrays_parts [OF this]
  from grab_ok [OF p(1), of e] grab_ok [OF p(2), of e] grab_ok [OF p(3), of e] grab_ok [OF p(4), of e]
    grab_ok [OF p(5), of e] grab_ok [OF p(6), of e] grab_ok [OF p(7), of e] grab_ok [OF p(8), of e]
    grab_ok [OF p(9), of e] grab_ok [OF p(10), of e] grab_ok [OF p(11), of e] grab_ok [OF p(12), of e]
  show ?thesis
    using assms unfolding switch_sysinfo_def Let_def case_chipset_def case_split_def case_lang_def strings_ok_def arrays_ok_def
    by (elim exE conjE) simp
qed

lemma empty_str_ok: "length s = DI_STR_MAXLEN \<Longrightarrow> length (empty_str s) = DI_STR_MAXLEN \<and> 0 \<in> set (empty_str s)"
  by (simp add: empty_str_def DI_STR_MAXLEN_def set_update_memI)

lemma strings_ok_init: "arrays_ok d \<Longrightarrow> 0 \<in> set (dev_type_chipset d) \<Longrightarrow> strings_ok (di_init d)"
  by (simp add: strings_ok_def arrays_ok_def di_init_def empty_str_ok)


section \<open>Properties\<close>

text \<open>
  A string from the network is made safe: whatever the recorder sent, the destination holds a
  terminated string of the first \<open>dst_maxlen - 1\<close> bytes in which everything but tabs and
  printable ASCII has become a space, and nothing is written behind the terminator.
\<close>
lemma extract_string_clean:
  assumes "0 < maxlen" "maxlen \<le> length dst"
  shows "\<exists>dst'. extract_string src (int (length src)) dst (int maxlen) = Some dst' \<and> length dst' = length dst \<and>
    c_str dst' = map filter_char (take (maxlen - 1) src) \<and>
    (\<forall>c \<in> set (c_str dst'). c = 9 \<or> 32 \<le> unat c \<and> unat c < 128) \<and>
    drop (length (c_str dst') + 1) dst' = drop (length (c_str dst') + 1) dst"
proof -
  let ?e = "extracted src maxlen"
  have l: "length ?e < maxlen" using assms(1) by (simp add: extracted_def)
  have c: "c_str (?e @ [0] @ drop (length ?e + 1) dst) = ?e" by (rule c_str_extracted)
  have "\<forall>c \<in> set ?e. c = 9 \<or> 32 \<le> unat c \<and> unat c < 128"
    using filter_char_text by (auto simp: extracted_def)
  then show ?thesis
    using extract_string_spec [OF assms, of src] c l assms(2) by (auto simp: extracted_def)
qed

lemma extract_string_clean_witness:
  "\<exists>dst'. extract_string [0x41, 0x0a, 0xc3, 0x42, 0x43] 5 (replicate 5 7) (int 4) = Some dst' \<and> c_str dst' = [0x41, 32, 32]"
  using extract_string_clean [of 4 "replicate 5 7" "[0x41, 0x0a, 0xc3, 0x42, 0x43]"] by (auto simp: filter_char_def)


definition sample_devinfo :: t_devinfo where
  "sample_devinfo =
     (let z = replicate 1024 0
      in \<lparr>video_sys = DI_VS_UNDEFINED, video_enc = DI_VE_UNDEFINED, mw_preview = DI_MWP_UNDEFINED, n_channels = -1,
          dev_type = -1, dev_subtype = -1, hd_type = DI_HD_UNDEFINED, dev_sn = z, dev_ver = z, dev_type_chipset = z,
          lang_sup = z, func_list = z, oem_info = z, netrun_stat = z, split_screen = z, func_capability = z,
          hd_part_cap = z, wi_alarm = z, access_url = z\<rparr>)"

lemma sample_devinfo_ok: "arrays_ok sample_devinfo"
  by (simp add: arrays_ok_def sample_devinfo_def Let_def DI_STR_MAXLEN_def)


end
