(* ===== verification/Hlprotocol.thy ===== *)
theory Hlprotocol
  imports Devinfo
begin

text \<open>
  The operations on the recorder (\<open>src/hlprotocol.c\<close>): requests and replies over the messages of the
  low-level protocol. Every operation takes the connection and returns its code and the connection.
\<close>

section \<open>Connections and replies\<close>

record t_hlp_connection = t_llp_connection +
  unique_login_symbol :: u32

definition REMOTE_RETCODE_OFFSET :: int where "REMOTE_RETCODE_OFFSET = 256"
definition MAX_USER_PASSWD_LEN :: nat where "MAX_USER_PASSWD_LEN = 250"
definition SYSINFO_ED_LEN :: nat where "SYSINFO_ED_LEN = 1024"
definition CHNAMES_SIZE :: nat where "CHNAMES_SIZE = 512"

lemma get_header_consumes:
  "llp_get_header c = (r, h, c') \<Longrightarrow> length (rx c') = length (rx c) - 32 \<and> (r = 0 \<longrightarrow> 32 \<le> length (rx c))"
  by (auto simp: llp_get_header_def net_fread_def Let_def LLP_HEADER_SIZE_def split: if_splits)

lemma discard_consumes: "llp_get_discard_extdata c h = (r, c') \<Longrightarrow> length (rx c') \<le> length (rx c)"
  by (auto simp: llp_get_discard_extdata_def discard_loop_drop)

lemma sbuff_consumes: "llp_get_extdata_sbuff c h n = (r, bs, c') \<Longrightarrow> length (rx c') \<le> length (rx c)"
  by (auto simp: llp_get_extdata_sbuff_def net_fread_def Let_def split: if_splits)

text \<open>Messages other than the expected one are thrown away.\<close>

function hlp_get_header ::
    "'a t_llp_connection_scheme \<Rightarrow> byte \<Rightarrow> int \<times> t_ll_header \<times> 'a t_llp_connection_scheme" where
  "hlp_get_header c expected_cmd =
     (case llp_get_header c of
        (retcode, ll_header, c1) \<Rightarrow>
          if retcode \<noteq> 0 then (retcode, ll_header, c1)
          else if llp_hd_cmd ll_header \<noteq> expected_cmd
          then (case llp_get_discard_extdata c1 ll_header of (_, c2) \<Rightarrow> hlp_get_header c2 expected_cmd)
          else (0, ll_header, c1))"
  by pat_completeness auto
termination hlp_get_header
  by (relation "measure (\<lambda>(c, e). length (rx c))") (auto dest!: get_header_consumes [OF sym] discard_consumes [OF sym])

declare hlp_get_header.simps [simp del]

text \<open>\<open>want\<close>: \<open>buf\<close> is not \<open>NULL\<close>. The result is the code, the header, the data and their length.\<close>

definition hlp_get_header_and_extdata ::
    "'a t_llp_connection_scheme \<Rightarrow> byte \<Rightarrow> bool \<Rightarrow> bool \<Rightarrow> u32 \<Rightarrow>
     int \<times> t_ll_header \<times> (byte list \<times> int) option \<times> 'a t_llp_connection_scheme" where
  "hlp_get_header_and_extdata c expected_cmd issue_nop want buflen =
     (let c0 = (if issue_nop then snd (llp_send_nop c) else c);
          (retcode, ll_header, c1) = llp_get_header c0
      in if retcode \<noteq> 0 then (1, ll_header, None, c1)
         else if llp_hd_cmd ll_header \<noteq> expected_cmd then
           (let (retcode, c2) = llp_get_discard_extdata c1 ll_header
            in if retcode \<noteq> 0 then (2, ll_header, None, c2)
               else if issue_nop \<and> llp_hd_cmd ll_header = LLP_HD_NOP_REPLY then (-1, ll_header, None, c2)
               else (1, ll_header, None, c2))
         else
           let (code, data, c2) =
                 (if \<not> want then (0, None, snd (llp_get_discard_extdata c1 ll_header))
                  else let (n, bs, c2) = llp_get_extdata_sbuff c1 ll_header buflen
                       in if n < 0 then (3, None, c2) else (0, Some (bs, n), c2))
           in if code \<noteq> 0 then (code, ll_header, None, c2)
              else if \<not> issue_nop then (0, ll_header, data, c2)
              else
                let (retcode, ll_header_nop, c3) = llp_get_header c2
                in if retcode \<noteq> 0 then (4, ll_header, data, c3)
                   else let (retcode, c4) = llp_get_discard_extdata c3 ll_header_nop
                        in if retcode \<noteq> 0 then (5, ll_header, data, c4) else (0, ll_header, data, c4))"

text \<open>The end of the operations that send one header and ignore the data of the reply.\<close>

definition await_reply :: "t_hlp_connection \<Rightarrow> byte \<Rightarrow> int \<times> t_hlp_connection" where
  "await_reply c expected_cmd =
     (let (r, ll_header_in, c1) = hlp_get_header c expected_cmd
      in if r \<noteq> 0 then (2, c1)
         else let (r, c2) = llp_get_discard_extdata c1 ll_header_in in (if r \<noteq> 0 then 3 else 0, c2))"

definition request_reply :: "t_hlp_connection \<Rightarrow> t_ll_header \<Rightarrow> byte \<Rightarrow> int \<times> t_hlp_connection" where
  "request_reply c ll_header_out expected_cmd =
     (let (r, _, c1) = llp_send_header c ll_header_out
      in if r \<noteq> 0 then (4, c1) else await_reply c1 expected_cmd)"

section \<open>Login\<close>

text \<open>\<open>user\<close> and \<open>passwd\<close> are the characters before the terminating zero.\<close>

definition strncpy8 :: "byte list \<Rightarrow> byte list" where
  "strncpy8 s = take 8 (s @ replicate 8 0)"

definition login_request :: "byte list \<Rightarrow> byte list \<Rightarrow> t_ll_header \<times> byte list" where
  "login_request user passwd =
     (let h = llp_init_header;
          (h1, user_passwd) =
            (if length user \<le> 8 \<and> length passwd \<le> 8
             then ((store_raw 16 (strncpy8 passwd) (store_raw 8 (strncpy8 user) h))\<lparr>extlen := 0\<rparr>, [])
             else let user_passwd = take (MAX_USER_PASSWD_LEN + 3 - 1) (user @ [0x26, 0x26] @ passwd)
                  in (h\<lparr>extlen := of_nat (length user_passwd)\<rparr>, user_passwd))
      in (set_raw 31 0xaa (set_raw 30 0xa1 (set_raw 25 0x01 (set_raw 24 0x04
            (set_raw 3 LLP_HD_VER_IHL (set_raw 0 0xa0 h1))))), user_passwd))"

definition login_devinfo :: "t_ll_header \<Rightarrow> t_devinfo \<Rightarrow> t_devinfo" where
  "login_devinfo h d =
     d\<lparr>video_sys := (if raw h ! 28 = 0 then DI_VS_PAL else if raw h ! 28 = 1 then DI_VS_NTSC else DI_VS_UNKNOWN),
       video_enc := (if raw h ! 11 = 8 then DI_VE_MPEG4 else if raw h ! 11 = 9 then DI_VE_H264 else DI_VE_UNKNOWN),
       mw_preview := (if raw h ! 1 = 0 then DI_MWP_NO else if raw h ! 1 = 1 then DI_MWP_YES else DI_MWP_UNKNOWN),
       n_channels := uint (raw h ! 10), dev_type := uint (raw h ! 12), dev_subtype := uint (raw h ! 13)\<rparr>"

definition hlp_login ::
    "t_hlp_connection \<Rightarrow> t_devinfo option \<Rightarrow> byte list \<Rightarrow> byte list \<Rightarrow> int \<times> t_devinfo option \<times> t_hlp_connection" where
  "hlp_login c devinfo user passwd =
     (if length user + length passwd > MAX_USER_PASSWD_LEN then (1, devinfo, c)
      else
        let (ll_header_out, user_passwd) = login_request user passwd;
            (_, _, c1) = llp_send_header c ll_header_out;
            (_, c2) = llp_send_extdata c1 user_passwd;
            (r, ll_header_in, c3) = hlp_get_header c2 0xb0
        in if r \<noteq> 0 then (2, devinfo, c3)
           else
             let (_, c4) = llp_get_discard_extdata c3 ll_header_in;
                 devinfo' = map_option (login_devinfo ll_header_in) devinfo
             in if raw ll_header_in ! 8 \<noteq> 0
                then (uint (raw ll_header_in ! 9) + REMOTE_RETCODE_OFFSET, devinfo', c4)
                else (0, devinfo', c4\<lparr>unique_login_symbol := BT_LM2NV_U32 (take 4 (drop 16 (raw ll_header_in)))\<rparr>))"

definition hlp_logout :: "t_hlp_connection \<Rightarrow> int \<times> t_hlp_connection" where
  "hlp_logout c =
     (let h = (store_raw 8 (BT_NV2LM_U32 (unique_login_symbol c)) (set_raw 0 0x0a llp_init_header))\<lparr>extlen := 0\<rparr>;
          (_, _, c1) = llp_send_header c h;
          (_, _, _, c2) = hlp_get_header_and_extdata c1 0x0b True False 0
      in (0, c2))"

section \<open>Media\<close>

text \<open>\<open>%d\<close> of \<open>snprintf\<close>.\<close>

fun dec_digits :: "nat \<Rightarrow> byte list" where
  "dec_digits n = (if n < 10 then [0x30 + of_nat n] else dec_digits (n div 10) @ [0x30 + of_nat (n mod 10)])"

declare dec_digits.simps [simp del]

definition dec :: "int \<Rightarrow> byte list" where
  "dec i = (if i < 0 then 0x2D # dec_digits (nat (- i)) else dec_digits (nat i))"

definition extended_request :: "int \<Rightarrow> int \<Rightarrow> byte list" where
  "extended_request channel sub_channel =
     [0x43, 0x68, 0x61, 0x6E, 0x6E, 0x65, 0x6C, 0x4E, 0x61, 0x6D, 0x65, 0x3A] @ dec channel @ [0x0D, 0x0A] @
     [0x53, 0x74, 0x72, 0x65, 0x61, 0x6D, 0x3A] @ dec sub_channel @ [0x0D, 0x0A] @
     [0x4F, 0x70, 0x65, 0x72, 0x61, 0x74, 0x65, 0x3A, 0x31, 0x0D, 0x0A] @
     [0x50, 0x72, 0x6F, 0x74, 0x6F, 0x63, 0x6F, 0x6C, 0x3A, 0x74, 0x63, 0x70, 0x0D, 0x0A] @ [0x0D, 0x0A]"

text \<open>The request and its data; \<open>None\<close> is a store before the header or the data.\<close>

definition media_request :: "int \<Rightarrow> int \<Rightarrow> (t_ll_header \<times> byte list) option" where
  "media_request channel sub_channel =
     (let h = set_raw 0 0x11 llp_init_header
      in if channel < 16 then
           do {
             r \<leftarrow> wr_slice (raw h) (8 + channel) [1];
             let h1 = set_raw 24 0 (h\<lparr>raw := r, extlen := 16\<rparr>);
             extdata_out \<leftarrow> wr_slice (replicate 64 0) channel [of_int sub_channel];
             Some (h1, take 16 extdata_out)
           }
         else
           let s = take 62 (extended_request channel sub_channel)
           in Some ((set_raw 26 8 (set_raw 24 0 h))\<lparr>extlen := of_nat (length s)\<rparr>, s))"

text \<open>
  The reply on the data connection; \<open>want\<close>: \<open>dest_data_p\<close> is not \<open>NULL\<close>. The codes of the failures
  (discard, discard of a frame that does not fit, read) are those of the caller.
\<close>

definition media_reply ::
    "int \<times> int \<times> int \<Rightarrow> t_hlp_connection \<Rightarrow> bool \<Rightarrow> nat \<Rightarrow> int \<times> byte list option \<times> t_hlp_connection" where
  "media_reply codes c want max_len =
     (let (e_discard, e_large, e_read) = codes;
          (r, h, c1) = hlp_get_header c 0xbc
      in if r \<noteq> 0 then (2, None, c1)
         else
           let (code, data, c2) =
                 (if \<not> want then
                    let (r, c2) = llp_get_discard_extdata c1 h in (if r \<noteq> 0 then e_discard else 0, None, c2)
                  else if unat (extlen h) > max_len then
                    let (r, c2) = llp_get_discard_extdata c1 h in (if r \<noteq> 0 then e_large else 10, None, c2)
                  else
                    let (n, bs, c2) = llp_get_extdata_sbuff c1 h (extlen h)
                    in if n < 0 then (e_read, None, c2) else (0, Some bs, c2))
           in if code \<noteq> 0 then (code, None, c2)
              else if raw h ! 16 \<noteq> 0 then (uint (raw h ! 16) + REMOTE_RETCODE_OFFSET, data, c2)
              else (0, data, c2))"

definition hlp_media_data_request ::
    "t_hlp_connection \<Rightarrow> t_hlp_connection \<Rightarrow> int \<Rightarrow> int \<Rightarrow> bool \<Rightarrow> nat \<Rightarrow>
     (int \<times> byte list option \<times> t_hlp_connection \<times> t_hlp_connection) option" where
  "hlp_media_data_request ctrl data channel sub_channel want max_len =
     do {
       (ll_header_out, extdata_out) \<leftarrow> media_request channel sub_channel;
       let (r, _, ctrl1) = llp_send_header ctrl ll_header_out;
       if r \<noteq> 0 then Some (4, None, ctrl1, data)
       else
         let (r, ctrl2) = llp_send_extdata ctrl1 extdata_out
         in if r \<noteq> 0 then Some (3, None, ctrl2, data)
            else let (code, bs, data') = media_reply (3, 5, 4) data want max_len in Some (code, bs, ctrl2, data')
     }"

definition hlp_collect_media_data ::
    "t_hlp_connection \<Rightarrow> bool \<Rightarrow> nat \<Rightarrow> int \<times> byte list option \<times> t_hlp_connection" where
  "hlp_collect_media_data c want max_len = media_reply (12, 13, 11) c want max_len"

definition hlp_connection_relationship ::
    "t_hlp_connection \<Rightarrow> t_hlp_connection \<Rightarrow> byte \<Rightarrow> byte \<Rightarrow> int \<times> t_hlp_connection" where
  "hlp_connection_relationship orig c reqtype reqchnumber =
     (let h = set_raw 17 0 (set_raw 13 (reqchnumber + 1) (set_raw 12 reqtype
                (store_raw 8 (BT_NV2LM_U32 (unique_login_symbol orig)) (set_raw 0 0xf1 llp_init_header))));
          (r, _, c1) = llp_send_header c h
      in (if r \<noteq> 0 then 4 else 0, c1))"

section \<open>Other requests\<close>

definition hlp_send_extension_string :: "t_hlp_connection \<Rightarrow> byte list \<Rightarrow> int \<times> t_hlp_connection" where
  "hlp_send_extension_string c extstr =
     (let h = (set_raw 0 0xf4 llp_init_header)\<lparr>extlen := of_nat (length extstr)\<rparr>;
          (r, _, c1) = llp_send_header c h
      in if r \<noteq> 0 then (4, c1)
         else let (_, c2) = llp_send_extdata c1 extstr in await_reply c2 0xf4)"

definition hlp_get_work_alarm_status :: "t_hlp_connection \<Rightarrow> int \<times> t_hlp_connection" where
  "hlp_get_work_alarm_status c = request_reply c (set_raw 0 0xa1 llp_init_header) 0xb1"

definition hlp_keep_alive :: "t_hlp_connection \<Rightarrow> int \<times> t_hlp_connection" where
  "hlp_keep_alive c = hlp_get_work_alarm_status c"

definition hlp_get_media_capability :: "t_hlp_connection \<Rightarrow> byte \<Rightarrow> int \<times> t_hlp_connection" where
  "hlp_get_media_capability c infotype =
     request_reply c (set_raw 9 infotype (set_raw 0 0x83 llp_init_header)) 0x83"

definition hlp_get_config_parameter :: "t_hlp_connection \<Rightarrow> byte \<Rightarrow> int \<times> t_hlp_connection" where
  "hlp_get_config_parameter c infotype =
     request_reply c
       (set_raw 16 infotype (store_raw 8 [0x63, 0x6F, 0x6E, 0x66, 0x69, 0x67] (set_raw 0 0xa3 llp_init_header))) 0xb3"

text \<open>
  The loop of \<open>hlp_set_alarm\<close>. The test of the operation type looks at the request, where it is 2,
  not at the reply.
\<close>

lemma hlp_get_header_consumes:
  "hlp_get_header c e = (r, h, c') \<Longrightarrow> length (rx c') \<le> length (rx c) \<and> (r = 0 \<longrightarrow> length (rx c') < length (rx c))"
proof (induction c e rule: hlp_get_header.induct)
  case (1 c e)
  obtain r1 h1 c1 where g: "llp_get_header c = (r1, h1, c1)" by (metis prod_cases3)
  obtain r2 c2 where d: "llp_get_discard_extdata c1 h1 = (r2, c2)" by fastforce
  note l = get_header_consumes [OF g] discard_consumes [OF d]
  show ?case
  proof (cases "r1 = 0 \<and> llp_hd_cmd h1 \<noteq> e")
    case True
    then have "hlp_get_header c2 e = (r, h, c')"
      using "1.prems" g d by (subst (asm) hlp_get_header.simps) simp
    from "1.IH" [OF g [symmetric] refl _ _ d [symmetric] this] True l show ?thesis by auto
  next
    case False
    then have "c' = c1 \<and> (r = 0 \<longrightarrow> r1 = 0)"
      using "1.prems" g by (subst (asm) hlp_get_header.simps) (auto split: if_splits)
    then show ?thesis using l(1) by auto
  qed
qed

function set_alarm_loop :: "t_hlp_connection \<Rightarrow> t_ll_header \<Rightarrow> byte \<Rightarrow> int \<times> t_hlp_connection" where
  "set_alarm_loop c ll_header_out alarm_type =
     (case hlp_get_header c 0x69 of
        (r, ll_header_in, c1) \<Rightarrow>
          if r \<noteq> 0 then (2, c1)
          else if raw ll_header_out ! 8 \<noteq> 2
          then (case llp_get_discard_extdata c1 ll_header_in of (_, c2) \<Rightarrow> set_alarm_loop c2 ll_header_out alarm_type)
          else if raw ll_header_in ! 12 \<noteq> alarm_type
          then (case llp_get_discard_extdata c1 ll_header_in of
                  (r, c2) \<Rightarrow> if r \<noteq> 0 then (5, c2) else set_alarm_loop c2 ll_header_out alarm_type)
          else (case llp_get_discard_extdata c1 ll_header_in of (r, c2) \<Rightarrow> (if r \<noteq> 0 then 3 else 0, c2)))"
  by pat_completeness auto
termination set_alarm_loop
  by (relation "measure (\<lambda>(c, h, a). length (rx c))") (auto dest!: hlp_get_header_consumes [OF sym] discard_consumes [OF sym])

declare set_alarm_loop.simps [simp del]

definition hlp_set_alarm :: "t_hlp_connection \<Rightarrow> byte \<Rightarrow> int \<times> t_hlp_connection" where
  "hlp_set_alarm c alarm_type =
     (let (r, ll_header_out, c1) =
            llp_send_header c (set_raw 12 alarm_type (set_raw 8 2 (set_raw 0 0x68 llp_init_header)))
      in if r \<noteq> 0 then (4, c1) else set_alarm_loop c1 ll_header_out alarm_type)"

section \<open>System information\<close>

definition hlp_get_system_information ::
    "t_hlp_connection \<Rightarrow> t_devinfo option \<Rightarrow> byte \<Rightarrow> byte \<Rightarrow> (int \<times> t_devinfo option \<times> t_hlp_connection) option" where
  "hlp_get_system_information c devinfo infotype bitstream =
     (let h = set_raw 12 bitstream (set_raw 8 infotype (set_raw 0 0xa4 llp_init_header));
          (r, _, c1) = llp_send_header c h
      in if r \<noteq> 0 then Some (4, devinfo, c1)
         else
           let (r, ll_header_in, c2) = hlp_get_header c1 0xb4
           in if r \<noteq> 0 then Some (2, devinfo, c2)
              else
                let (extdata_len, extdata, c3) = llp_get_extdata_sbuff c2 ll_header_in (of_nat SYSINFO_ED_LEN)
                in if extdata_len < 0 then Some (3, devinfo, snd (llp_get_discard_extdata c3 ll_header_in))
                   else do {
                     devinfo' \<leftarrow> update_devinfo_from_system_information devinfo extdata extdata_len ll_header_in;
                     Some (0, devinfo', c3)
                   })"

text \<open>One request for each kind of information, then a \<open>nop\<close> whose reply ends the replies.\<close>

fun send_infotypes :: "nat list \<Rightarrow> t_ll_header \<Rightarrow> t_hlp_connection \<Rightarrow> int \<times> t_hlp_connection" where
  "send_infotypes [] h c = (0, c)"
| "send_infotypes (k # ks) h c =
     (case llp_send_header c (set_raw 8 (of_nat k) h) of
        (r, h', c') \<Rightarrow> if r \<noteq> 0 then (4, c') else send_infotypes ks h' c')"

function collect_infos ::
    "t_hlp_connection \<Rightarrow> t_devinfo option \<Rightarrow> (int \<times> t_devinfo option \<times> t_hlp_connection) option" where
  "collect_infos c devinfo =
     (case llp_get_header c of
        (r, h, c1) \<Rightarrow>
          if r \<noteq> 0 then Some (2, devinfo, c1)
          else
            (case llp_get_extdata_sbuff c1 h (of_nat SYSINFO_ED_LEN) of
               (extdata_len, extdata, c2) \<Rightarrow>
                 if extdata_len < 0 then Some (3, devinfo, snd (llp_get_discard_extdata c2 h))
                 else if llp_hd_cmd h = LLP_HD_NOP_REPLY then Some (0, devinfo, c2)
                 else
                   (case update_devinfo_from_system_information devinfo extdata extdata_len h of
                      None \<Rightarrow> None
                    | Some devinfo' \<Rightarrow> collect_infos c2 devinfo')))"
  by pat_completeness auto
termination collect_infos
  by (relation "measure (\<lambda>(c, d). length (rx c))") (auto dest!: get_header_consumes [OF sym] sbuff_consumes [OF sym])

declare collect_infos.simps [simp del]

definition hlp_get_system_information_multiple ::
    "byte \<Rightarrow> t_hlp_connection \<Rightarrow> t_devinfo option \<Rightarrow> byte \<Rightarrow> nat \<Rightarrow>
     (int \<times> t_devinfo option \<times> t_hlp_connection) option" where
  "hlp_get_system_information_multiple infotype0 c devinfo first_infotype total_infotype =
     (let h = set_raw 12 0 (set_raw 8 infotype0 (set_raw 0 0xa4 llp_init_header));
          (r, c1) = send_infotypes [unat first_infotype ..< unat first_infotype + total_infotype] h c
      in if r \<noteq> 0 then Some (r, devinfo, c1)
         else let (r, c2) = llp_send_nop c1
              in if r \<noteq> 0 then Some (5, devinfo, c2) else collect_infos c2 devinfo)"

section \<open>Channel names\<close>

text \<open>
  The conversion works in place: \<open>i\<close> is \<open>src\<close>, \<open>j\<close> is \<open>dst\<close>, both positions in the same block.
\<close>

function names_loop :: "byte list \<Rightarrow> nat \<Rightarrow> nat \<Rightarrow> bool \<Rightarrow> byte list option" where
  "names_loop m i j prev_was_amp =
     (if i < length m then
        (if m ! i = 0 then do { m1 \<leftarrow> wr_slice m (int j) [10]; wr_slice m1 (int (j + 1)) [0] }
         else if m ! i = 0x26 then
           (if \<not> prev_was_amp
            then (case wr_slice m (int j) [10] of None \<Rightarrow> None | Some m1 \<Rightarrow> names_loop m1 (i + 1) (j + 1) True)
            else names_loop m (i + 1) j True)
         else (case wr_slice m (int j) [m ! i] of None \<Rightarrow> None | Some m1 \<Rightarrow> names_loop m1 (i + 1) (j + 1) False))
      else None)"
  by pat_completeness auto
termination names_loop
  by (relation "measure (\<lambda>(m, i, j, p). length m - i)") (auto dest!: wr_slice_length)

declare names_loop.simps [simp del]

text \<open>\<open>block\<close> is the block \<open>malloc\<close> gives, with what it happens to hold.\<close>

definition hlp_get_channel_names ::
    "t_hlp_connection \<Rightarrow> byte list option \<Rightarrow> (int \<times> byte list option \<times> t_hlp_connection) option" where
  "hlp_get_channel_names c block =
     (case block of None \<Rightarrow> Some (10, None, c)
      | Some m \<Rightarrow>
          let (_, h, c1) = llp_send_header c (set_raw 0 0xa8 llp_init_header);
              (r, _, c2) = llp_send_header c1 (set_raw 8 1 h)
          in if r \<noteq> 0 then Some (4, None, c2)
             else
               let (r, ll_header_in, c3) = hlp_get_header c2 0xb8
               in if r \<noteq> 0 then Some (2, None, c3)
                  else
                    let (n, bs, c4) = llp_get_extdata_sbuff c3 ll_header_in (of_nat CHNAMES_SIZE)
                    in if n < 0 then Some (3, None, c4)
                       else do {
                         outstr \<leftarrow> wr_slice m 0 bs;
                         outb \<leftarrow> names_loop outstr 0 0 False;
                         Some (0, Some outb, c4)
                       })"

section \<open>Pending data\<close>

text \<open>
  \<open>polls\<close> are the results of \<open>poll\<close> at each turn of the loop, 0 when they are used up. A negative one is
  an error and counts as pending data.
\<close>

fun discard_incoming_loop :: "int list \<Rightarrow> int \<Rightarrow> t_hlp_connection \<Rightarrow> int \<times> t_hlp_connection" where
  "discard_incoming_loop [] i c = (i, c)"
| "discard_incoming_loop (p # ps) i c =
     (if p = 0 then (i, c)
      else
        case llp_get_header c of
          (r, h, c1) \<Rightarrow>
            if r \<noteq> 0 then (-1, c1)
            else (case llp_get_discard_extdata c1 h of
                    (r, c2) \<Rightarrow> if r \<noteq> 0 then (-1, c2) else discard_incoming_loop ps 1 c2))"

definition hlp_discard_incoming_data :: "int list \<Rightarrow> t_hlp_connection \<Rightarrow> int \<times> t_hlp_connection" where
  "hlp_discard_incoming_data polls c = discard_incoming_loop polls 0 c"

end
