(* ===== verification/Hl_Replies.thy ===== *)
theory Hl_Replies
  imports Hlprotocol
begin

text \<open>
  What the operations of \<open>Hlprotocol\<close> do on a stream of well-formed messages: which request they
  send, which messages of the recorder they take, skip and keep.
\<close>

section \<open>The expected reply is found\<close>

definition skipped :: "byte \<Rightarrow> message list \<Rightarrow> bool" where
  "skipped e ms \<longleftrightarrow> (\<forall>m \<in> set ms. message_ok m \<and> command m \<noteq> e)"

lemma get_header_finds:
  assumes "skipped e ms" "message_ok r" "command r = e" "rx c = concat (map message_bytes ms) @ message_bytes r @ rest"
  shows "hlp_get_header c e = (0, header_of r, c\<lparr>rx := snd r @ rest\<rparr>)"
  using assms(1,4)
proof (induction ms arbitrary: c)
  case Nil
  then show ?case
    using get_header_message [OF assms(2), of c rest] assms(3) by (subst hlp_get_header.simps) simp
next
  case (Cons m ms)
  let ?rest = "concat (map message_bytes ms) @ message_bytes r @ rest"
  have m: "message_ok m" "command m \<noteq> e" "skipped e ms" using Cons.prems(1) by (simp_all add: skipped_def)
  have "llp_get_header c = (0, header_of m, c\<lparr>rx := snd m @ ?rest\<rparr>)"
    using Cons.prems(2) by (intro get_header_message [OF m(1)]) simp
  moreover have "llp_get_discard_extdata (c\<lparr>rx := snd m @ ?rest\<rparr>) (header_of m) = (0, c\<lparr>rx := ?rest\<rparr>)"
    using discard_message [OF m(1), of "c\<lparr>rx := snd m @ ?rest\<rparr>" ?rest] by simp
  ultimately have "hlp_get_header c e = hlp_get_header (c\<lparr>rx := ?rest\<rparr>) e"
    using m(2) by (subst hlp_get_header.simps) simp
  also have "\<dots> = (0, header_of r, c\<lparr>rx := snd r @ rest\<rparr>)"
    using Cons.IH [OF m(3), of "c\<lparr>rx := ?rest\<rparr>"] by simp
  finally show ?case .
qed

lemma await_reply_found:
  assumes "skipped e ms" "message_ok r" "command r = e" "rx c = concat (map message_bytes ms) @ message_bytes r @ rest"
  shows "await_reply c e = (0, c\<lparr>rx := rest\<rparr>)"
  using get_header_finds [OF assms] discard_message [OF assms(2), of "c\<lparr>rx := snd r @ rest\<rparr>" rest]
  by (simp add: await_reply_def)

text \<open>Without the expected reply the operation waits until the connection ends.\<close>

lemma get_header_missing:
  assumes "skipped e ms" "rx c = concat (map message_bytes ms) @ rest" "length rest < LLP_HEADER_SIZE"
  shows "\<exists>h. hlp_get_header c e = (1, h, c\<lparr>rx := []\<rparr>)"
  using assms(1,2)
proof (induction ms arbitrary: c)
  case Nil
  then show ?case using get_header_short [of c] assms(3) by (subst hlp_get_header.simps) auto
next
  case (Cons m ms)
  let ?rest = "concat (map message_bytes ms) @ rest"
  have m: "message_ok m" "command m \<noteq> e" "skipped e ms" using Cons.prems(1) by (simp_all add: skipped_def)
  have "llp_get_header c = (0, header_of m, c\<lparr>rx := snd m @ ?rest\<rparr>)"
    using Cons.prems(2) by (intro get_header_message [OF m(1)]) simp
  moreover have "llp_get_discard_extdata (c\<lparr>rx := snd m @ ?rest\<rparr>) (header_of m) = (0, c\<lparr>rx := ?rest\<rparr>)"
    using discard_message [OF m(1), of "c\<lparr>rx := snd m @ ?rest\<rparr>" ?rest] by simp
  ultimately have "hlp_get_header c e = hlp_get_header (c\<lparr>rx := ?rest\<rparr>) e"
    using m(2) by (subst hlp_get_header.simps) simp
  then show ?case using Cons.IH [OF m(3), of "c\<lparr>rx := ?rest\<rparr>"] by simp
qed

section \<open>Alarms\<close>

definition alarm_reply :: "byte \<Rightarrow> message \<Rightarrow> bool" where
  "alarm_reply a m \<longleftrightarrow> command m = 0x69 \<and> fst m ! 12 = a"

lemma skip_to_reply:
  "\<forall>m \<in> set ms. message_ok m \<Longrightarrow> \<exists>m \<in> set ms. command m = e \<Longrightarrow>
   \<exists>us m vs. ms = us @ m # vs \<and> skipped e us \<and> command m = e"
proof (induction ms)
  case (Cons m ms)
  show ?case
  proof (cases "command m = e")
    case True
    then show ?thesis by (intro exI [of _ "[]"] exI [of _ m] exI [of _ ms]) (simp add: skipped_def)
  next
    case False
    then obtain us n vs where "ms = us @ n # vs" "skipped e us" "command n = e"
      using Cons by auto
    then show ?thesis
      using False Cons.prems(1)
      by (intro exI [of _ "m # us"] exI [of _ n] exI [of _ vs]) (auto simp: skipped_def)
  qed
qed simp

lemma set_alarm_loop_found:
  assumes "\<forall>m \<in> set ms. message_ok m \<and> \<not> alarm_reply a m" "message_ok r" "alarm_reply a r" "raw h ! 8 = 2"
    and "rx c = concat (map message_bytes ms) @ message_bytes r @ rest"
  shows "set_alarm_loop c h a = (0, c\<lparr>rx := rest\<rparr>)"
  using assms(1,5)
proof (induction ms arbitrary: c rule: length_induct)
  case (1 ms)
  show ?case
  proof (cases "\<exists>m \<in> set ms. command m = 0x69")
    case False
    then have "skipped 0x69 ms" using "1.prems"(1) by (auto simp: skipped_def)
    from get_header_finds [OF this assms(2) _ "1.prems"(2)] assms(3)
    have "hlp_get_header c 0x69 = (0, header_of r, c\<lparr>rx := snd r @ rest\<rparr>)" by (simp add: alarm_reply_def)
    then show ?thesis
      using assms(3,4) discard_message [OF assms(2), of "c\<lparr>rx := snd r @ rest\<rparr>" rest]
      by (subst set_alarm_loop.simps) (simp add: alarm_reply_def)
  next
    case True
    then obtain us m vs where ms: "ms = us @ m # vs" "skipped 0x69 us" "command m = 0x69"
      using skip_to_reply [of ms "0x69"] "1.prems"(1) by blast
    let ?rest = "concat (map message_bytes vs) @ message_bytes r @ rest"
    have m: "message_ok m" "fst m ! 12 \<noteq> a" using "1.prems"(1) ms by (auto simp: alarm_reply_def)
    have "hlp_get_header c 0x69 = (0, header_of m, c\<lparr>rx := snd m @ ?rest\<rparr>)"
      by (rule get_header_finds [OF ms(2) m(1) ms(3)]) (use "1.prems"(2) ms(1) in simp)
    moreover have "llp_get_discard_extdata (c\<lparr>rx := snd m @ ?rest\<rparr>) (header_of m) = (0, c\<lparr>rx := ?rest\<rparr>)"
      using discard_message [OF m(1), of "c\<lparr>rx := snd m @ ?rest\<rparr>" ?rest] by simp
    ultimately have "set_alarm_loop c h a = set_alarm_loop (c\<lparr>rx := ?rest\<rparr>) h a"
      using m(2) assms(4) by (subst set_alarm_loop.simps) simp
    also have "\<dots> = (0, c\<lparr>rx := rest\<rparr>)"
      using "1.IH" [rule_format, of vs "c\<lparr>rx := ?rest\<rparr>"] "1.prems"(1) ms(1) by simp
    finally show ?thesis .
  qed
qed

section \<open>Media\<close>

lemma media_reply_found:
  assumes "skipped 0xbc ms" "message_ok r" "command r = 0xbc" "rx c = concat (map message_bytes ms) @ message_bytes r @ rest"
  shows "media_reply codes c True max_len =
    (if length (snd r) > max_len then (10, None, c\<lparr>rx := rest\<rparr>)
     else (if fst r ! 16 \<noteq> 0 then uint (fst r ! 16) + 256 else 0, Some (snd r), c\<lparr>rx := rest\<rparr>))"
proof -
  have e: "unat (extlen (header_of r)) = length (snd r)" by (rule extlen_header_of [OF assms(2)])
  have d: "llp_get_discard_extdata (c\<lparr>rx := snd r @ rest\<rparr>) (header_of r) = (0, c\<lparr>rx := rest\<rparr>)"
    using discard_message [OF assms(2), of "c\<lparr>rx := snd r @ rest\<rparr>" rest] by simp
  have x: "llp_get_extdata_sbuff (c\<lparr>rx := snd r @ rest\<rparr>) (header_of r) (extlen (header_of r)) =
      (int (length (snd r)), snd r, c\<lparr>rx := rest\<rparr>)"
    using extdata_message [OF assms(2), of "c\<lparr>rx := snd r @ rest\<rparr>" rest "extlen (header_of r)"] e by simp
  show ?thesis
    using get_header_finds [OF assms] e d x
    by (cases codes) (simp add: media_reply_def REMOTE_RETCODE_OFFSET_def Let_def)
qed

section \<open>System information\<close>

text \<open>The structure after a sequence of replies.\<close>

fun told :: "message list \<Rightarrow> t_devinfo \<Rightarrow> t_devinfo option" where
  "told [] d = Some d"
| "told (m # ms) d = do { d' \<leftarrow> switch_sysinfo d (snd m) (int (length (snd m))) (header_of m); told ms d' }"

lemma told_ok: "arrays_ok d \<Longrightarrow> \<exists>d'. told ms d = Some d' \<and> arrays_ok d'"
proof (induction ms arbitrary: d)
  case (Cons m ms)
  then show ?case using switch_sysinfo_ok [OF Cons.prems, of "snd m" "header_of m"] by fastforce
qed simp

lemma collect_infos_told:
  assumes "\<forall>m \<in> set ms. message_ok m \<and> command m \<noteq> LLP_HD_NOP_REPLY \<and> length (snd m) \<le> 1024"
    and "message_ok r" "command r = LLP_HD_NOP_REPLY" "length (snd r) \<le> 1024" "arrays_ok d"
    and "rx c = concat (map message_bytes ms) @ message_bytes r @ rest"
  shows "collect_infos c (Some d) = Some (0, told ms d, c\<lparr>rx := rest\<rparr>)"
  using assms(1,5,6)
proof (induction ms arbitrary: c d)
  case Nil
  have b: "unat (of_nat SYSINFO_ED_LEN :: u32) = 1024" by (simp add: SYSINFO_ED_LEN_def)
  have "llp_get_header c = (0, header_of r, c\<lparr>rx := snd r @ rest\<rparr>)"
    using Nil by (intro get_header_message [OF assms(2)]) simp
  moreover have "llp_get_extdata_sbuff (c\<lparr>rx := snd r @ rest\<rparr>) (header_of r) (of_nat SYSINFO_ED_LEN) =
      (int (length (snd r)), snd r, c\<lparr>rx := rest\<rparr>)"
    using extdata_message [OF assms(2), of "c\<lparr>rx := snd r @ rest\<rparr>" rest "of_nat SYSINFO_ED_LEN"] b assms(4) by simp
  ultimately show ?case using assms(3) by (subst collect_infos.simps) simp
next
  case (Cons m ms)
  let ?rest = "concat (map message_bytes ms) @ message_bytes r @ rest"
  have m: "message_ok m" "command m \<noteq> LLP_HD_NOP_REPLY" "length (snd m) \<le> 1024" using Cons.prems(1) by simp_all
  have b: "unat (of_nat SYSINFO_ED_LEN :: u32) = 1024" by (simp add: SYSINFO_ED_LEN_def)
  have g: "llp_get_header c = (0, header_of m, c\<lparr>rx := snd m @ ?rest\<rparr>)"
    using Cons.prems(3) by (intro get_header_message [OF m(1)]) simp
  have x: "llp_get_extdata_sbuff (c\<lparr>rx := snd m @ ?rest\<rparr>) (header_of m) (of_nat SYSINFO_ED_LEN) =
      (int (length (snd m)), snd m, c\<lparr>rx := ?rest\<rparr>)"
    using extdata_message [OF m(1), of "c\<lparr>rx := snd m @ ?rest\<rparr>" ?rest "of_nat SYSINFO_ED_LEN"] b m(3) by simp
  obtain d' where d': "switch_sysinfo d (snd m) (int (length (snd m))) (header_of m) = Some d'" "arrays_ok d'"
    using switch_sysinfo_ok [OF Cons.prems(2)] by blast
  have "collect_infos c (Some d) = collect_infos (c\<lparr>rx := ?rest\<rparr>) (Some d')"
    using g x m(2) d'(1)
    by (subst collect_infos.simps) (simp add: update_devinfo_from_system_information_def)
  also have "\<dots> = Some (0, told ms d', c\<lparr>rx := rest\<rparr>)"
    using Cons.IH [of d' "c\<lparr>rx := ?rest\<rparr>"] Cons.prems(1) d'(2) by simp
  finally show ?case using d'(1) by simp
qed

section \<open>Channel names\<close>

text \<open>What the conversion computes: every run of ampersands becomes one line end.\<close>

fun pretty_names :: "bool \<Rightarrow> byte list \<Rightarrow> byte list" where
  "pretty_names p [] = []"
| "pretty_names p (c # cs) =
     (if c = 0x26 then (if p then pretty_names True cs else 10 # pretty_names True cs) else c # pretty_names False cs)"

lemma pretty_names_length: "length (pretty_names p s) \<le> length s"
  by (induction p s rule: pretty_names.induct) auto

lemma wr_slice_byte:
  "wr_slice m (int j) [x] = (if j < length m then Some (m[j := x]) else None)"
  "wr_slice m (1 + int j) [x] = (if Suc j < length m then Some (m[Suc j := x]) else None)"
proof -
  have w: "wr_slice m (int k) [x] = (if k < length m then Some (m[k := x]) else None)" for k
    by (auto simp: wr_slice_def upd_conv_take_nth_drop)
  show "wr_slice m (int j) [x] = (if j < length m then Some (m[j := x]) else None)" by (rule w)
  show "wr_slice m (1 + int j) [x] = (if Suc j < length m then Some (m[Suc j := x]) else None)"
    using w [of "Suc j"] by simp
qed

lemma take_Suc_update: "j < length m \<Longrightarrow> take (Suc j) (m[j := x]) = take j m @ [x]"
  by (simp add: take_Suc_conv_app_nth)

lemma drop_head: "drop i m = x # t \<Longrightarrow> i < length m \<and> m ! i = x \<and> drop (Suc i) m = t"
  by (metis Cons_nth_drop_Suc drop_eq_Nil2 list.distinct(1) list.inject not_le)

lemma names_loop_pretty:
  assumes "drop i m = s @ 0 # t" "0 \<notin> set s" "j \<le> i" "j + length (pretty_names p s) + 2 \<le> length m"
  shows "\<exists>m'. names_loop m i j p = Some m' \<and> length m' = length m \<and>
    take (j + length (pretty_names p s) + 2) m' = take j m @ pretty_names p s @ [10, 0]"
  using assms
proof (induction s arbitrary: m i j p)
  case Nil
  from Nil.prems(1) have d: "drop i m = 0 # t" by simp
  have i: "i < length m" "m ! i = 0" using drop_head [OF d] by simp_all
  have j: "j < length m" "Suc j < length m" using Nil.prems(4) by simp_all
  have "take (Suc (Suc j)) (m[j := 10, Suc j := 0]) = take (Suc j) (m[j := 10]) @ [0]"
    using j by (intro take_Suc_update) simp
  then have "take (j + 2) (m[j := 10, Suc j := 0]) = take j m @ [10, 0]"
    using take_Suc_update [OF j(1), of 10] by simp
  then show ?case
    using i j by (subst names_loop.simps) (simp add: wr_slice_byte)
next
  case (Cons c s)
  from Cons.prems(1) have "drop i m = c # s @ 0 # t" by simp
  from drop_head [OF this] have i: "i < length m" "m ! i = c" and d: "drop (Suc i) m = s @ 0 # t" by simp_all
  have c: "c \<noteq> 0" "0 \<notin> set s" using Cons.prems(2) by auto
  have j: "j < length m" using Cons.prems(4) by (simp split: if_splits)
  have go: "\<exists>m'. names_loop (m[j := x]) (Suc i) (Suc j) q = Some m' \<and> length m' = length m \<and>
      take (Suc j + length (pretty_names q s) + 2) m' = take j m @ x # pretty_names q s @ [10, 0]"
    if "Suc j + length (pretty_names q s) + 2 \<le> length m" for x q
    using Cons.IH [of "Suc i" "m[j := x]" "Suc j" q] d c(2) Cons.prems(3) that take_Suc_update [OF j, of x] by simp
  show ?case
  proof (cases "c = 0x26")
    case False
    then show ?thesis
      using go [of False c] i j c(1) Cons.prems(4) by (subst names_loop.simps) (simp add: wr_slice_byte)
  next
    case amp: True
    show ?thesis
    proof (cases p)
      case True
      then show ?thesis
        using Cons.IH [of "Suc i" m j True] d c(2) Cons.prems(3,4) i amp by (subst names_loop.simps) simp
    next
      case False
      then show ?thesis
        using go [of True 10] i j amp Cons.prems(4) by (subst names_loop.simps) (simp add: wr_slice_byte)
    qed
  qed
qed

text \<open>Without a terminating zero the conversion runs out of the block.\<close>

lemma names_loop_overrun: "\<forall>k. i \<le> k \<longrightarrow> k < length m \<longrightarrow> m ! k \<noteq> 0 \<Longrightarrow> j \<le> i \<Longrightarrow> names_loop m i j p = None"
proof (induction m i j p rule: names_loop.induct)
  case (1 m i j p)
  show ?case
  proof (cases "i < length m")
    case True
    then have nz: "m ! i \<noteq> 0" and j: "j < length m" using "1.prems" by auto
    have later: "\<forall>k. Suc i \<le> k \<longrightarrow> k < length (m[j := x]) \<longrightarrow> m[j := x] ! k \<noteq> 0" for x
      using "1.prems" by auto
    have go: "names_loop m i j p = None"
      if "m ! i = 0x26 \<Longrightarrow> \<not> p \<Longrightarrow> names_loop (m[j := 10]) (i + 1) (j + 1) True = None"
        and "m ! i = 0x26 \<Longrightarrow> p \<Longrightarrow> names_loop m (i + 1) j True = None"
        and "m ! i \<noteq> 0x26 \<Longrightarrow> names_loop (m[j := m ! i]) (i + 1) (j + 1) False = None"
      using that True nz j by (subst names_loop.simps) (auto simp: wr_slice_byte)
    show ?thesis
    proof (rule go)
      assume "m ! i = 0x26" "\<not> p"
      then show "names_loop (m[j := 10]) (i + 1) (j + 1) True = None"
        using "1.IH"(1) [OF True nz _ _ _] later "1.prems"(2) j by (simp add: wr_slice_byte)
    next
      assume "m ! i = 0x26" "p"
      then show "names_loop m (i + 1) j True = None"
        using "1.IH"(2) [OF True nz] "1.prems" by simp
    next
      assume "m ! i \<noteq> 0x26"
      then show "names_loop (m[j := m ! i]) (i + 1) (j + 1) False = None"
        using "1.IH"(3) [OF True nz] later "1.prems"(2) j by (simp add: wr_slice_byte)
    qed
  qed (simp add: names_loop.simps)
qed

section \<open>Requests\<close>

text \<open>A request without data: what is sent for a header built from the empty one.\<close>

definition request_bytes :: "(nat \<times> byte) list \<Rightarrow> byte list" where
  "request_bytes fs = fold (\<lambda>(i, v) r. r[i := v]) fs (replicate 32 0)"

lemma send_plain:
  assumes "length (raw h) = 32" "extlen h = 0" "take 4 (drop 4 (raw h)) = [0, 0, 0, 0]" "32 \<le> tx_room c"
  shows "llp_send_header c h = (0, h, c\<lparr>tx := tx c @ raw h, tx_room := tx_room c - 32\<rparr>)"
proof -
  have z: "BT_NV2LM_U32 0 = [0, 0, 0, 0]" by (simp add: BT_NV2LM_U32_def)
  have "raw (store_raw 4 [0, 0, 0, 0] h) = take 4 (raw h) @ take 4 (drop 4 (raw h)) @ drop 8 (raw h)"
    using assms(3) by (simp add: store_raw_def)
  also have "\<dots> = raw h"
    using append_take_drop_id [of 4 "drop 4 (raw h)"] append_take_drop_id [of 4 "raw h"] by simp
  finally have "store_raw 4 (BT_NV2LM_U32 (extlen h)) h = h" using assms(2) by (simp add: z store_raw_def)
  then show ?thesis using send_header_ok [OF assms(1,4)] by simp
qed

definition beside_length :: "(nat \<times> byte) list \<Rightarrow> bool" where
  "beside_length fs \<longleftrightarrow> (\<forall>f \<in> set fs. fst f \<notin> {4, 5, 6, 7})"

lemma fields_length: "length (fold (\<lambda>(i, v) r. r[i := v]) fs r) = length r" for r :: "byte list"
  by (induction fs arbitrary: r) auto

lemma request_bytes_length [simp]: "length (request_bytes fs) = 32"
  by (simp add: request_bytes_def fields_length)

lemma fields_beside:
  "beside_length fs \<Longrightarrow> k \<in> {4, 5, 6, 7} \<Longrightarrow> fold (\<lambda>(i, v) r. r[i := v]) fs r ! k = (r :: byte list) ! k"
  by (induction fs arbitrary: r) (auto simp: beside_length_def)

lemma four_bytes: "8 \<le> length r \<Longrightarrow> take 4 (drop 4 r) = [r ! 4, r ! 5, r ! 6, r ! 7]"
  by (intro nth_equalityI) (auto simp: less_Suc_eq numeral_eq_Suc)

lemma request_bytes_beside: "beside_length fs \<Longrightarrow> k \<in> {4, 5, 6, 7} \<Longrightarrow> request_bytes fs ! k = 0"
  by (subst request_bytes_def, subst fields_beside) auto

lemma send_request:
  assumes "raw h = request_bytes fs" "extlen h = 0" "beside_length fs" "32 \<le> tx_room c"
  shows "llp_send_header c h = (0, h, c\<lparr>tx := tx c @ request_bytes fs, tx_room := tx_room c - 32\<rparr>)"
  using send_plain [of h c] assms by (simp add: four_bytes request_bytes_beside)

definition sent :: "t_ll_header \<Rightarrow> byte list \<Rightarrow> message" where
  "sent h bs = (raw (store_raw 4 (BT_NV2LM_U32 (extlen h)) h), bs)"

lemma sent_nth: "8 \<le> i \<Longrightarrow> i < length (raw h) \<Longrightarrow> fst (sent h bs) ! i = raw h ! i" "0 < length (raw h) \<Longrightarrow> command (sent h bs) = raw h ! 0"
  by (auto simp: sent_def store_raw_def nth_append)

text \<open>The operations that wait for a reply and discard its data.\<close>

lemma request_reply_found:
  assumes "raw h = request_bytes fs" "extlen h = 0" "beside_length fs" "32 \<le> tx_room c"
    and "skipped e ms" "message_ok r" "command r = e" "rx c = concat (map message_bytes ms) @ message_bytes r @ rest"
  shows "request_reply c h e = (0, c\<lparr>rx := rest, tx := tx c @ request_bytes fs, tx_room := tx_room c - 32\<rparr>)"
  using send_request [OF assms(1-4)] assms(8)
    await_reply_found [OF assms(5-7), of "c\<lparr>tx := tx c @ request_bytes fs, tx_room := tx_room c - 32\<rparr>" rest]
  by (simp add: request_reply_def)

section \<open>Properties\<close>

text \<open>
  C27: Subscribing to an alarm sends one request with the alarm type and takes, of any sequence of
  messages, everything up to the confirmation for this very type: other messages and confirmations
  of other types are thrown away with their data, what follows the confirmation stays unread.
\<close>
theorem set_alarm_confirmed:
  assumes "32 \<le> tx_room c" "\<forall>m \<in> set ms. message_ok m \<and> \<not> alarm_reply a m" "message_ok r" "alarm_reply a r"
    and "rx c = concat (map message_bytes ms) @ message_bytes r @ rest"
  shows "hlp_set_alarm c a =
    (0, c\<lparr>rx := rest, tx := tx c @ request_bytes [(0, 0x68), (8, 2), (12, a)], tx_room := tx_room c - 32\<rparr>)"
proof -
  let ?h = "set_raw 12 a (set_raw 8 2 (set_raw 0 0x68 llp_init_header))"
  have h: "raw ?h = request_bytes [(0, 0x68), (8, 2), (12, a)]" "extlen ?h = 0" "raw ?h ! 8 = 2"
    by (simp_all add: request_bytes_def set_raw_def llp_init_header_def LLP_HEADER_SIZE_def)
  let ?c = "c\<lparr>tx := tx c @ request_bytes [(0, 0x68), (8, 2), (12, a)], tx_room := tx_room c - 32\<rparr>"
  have "llp_send_header c ?h = (0, ?h, ?c)"
    by (rule send_request [OF h(1,2) _ assms(1)]) (simp add: beside_length_def)
  moreover have "set_alarm_loop ?c ?h a = (0, ?c\<lparr>rx := rest\<rparr>)"
    by (rule set_alarm_loop_found [OF assms(2-4) h(3)]) (simp add: assms(5))
  ultimately show ?thesis by (simp add: hlp_set_alarm_def)
qed

definition sample_connection :: "byte list \<Rightarrow> t_hlp_connection" where
  "sample_connection bs = \<lparr>rx = bs, tx = [], tx_room = 10000, unique_login_symbol = 7\<rparr>"

definition sample_message :: "(nat \<times> byte) list \<Rightarrow> byte list \<Rightarrow> message" where
  "sample_message fs bs = ((request_bytes fs)[4 := of_nat (length bs)], bs)"

lemma sample_message_ok: "beside_length fs \<Longrightarrow> length bs < 256 \<Longrightarrow> message_ok (sample_message fs bs)"
  by (simp add: message_ok_def sample_message_def LLP_HEADER_SIZE_def four_bytes request_bytes_beside unat_of_nat)

lemma sample_message_parts [simp]:
  "snd (sample_message fs bs) = bs" "k \<noteq> 4 \<Longrightarrow> fst (sample_message fs bs) ! k = request_bytes fs ! k"
  by (simp_all add: sample_message_def)

lemma sample_connection_parts [simp]:
  "rx (sample_connection bs) = bs" "tx (sample_connection bs) = []" "tx_room (sample_connection bs) = 10000"
  "unique_login_symbol (sample_connection bs) = 7"
  by (simp_all add: sample_connection_def)

lemma set_alarm_confirmed_witness:
  "\<exists>c. hlp_set_alarm (sample_connection (concat (map message_bytes
      [sample_message [(0, 0xb0)] [], sample_message [(0, 0x69), (12, 3)] [9], sample_message [(0, 0x69), (12, 2)] [9]]) @ [1])) 2 =
     (0, c) \<and> rx c = [1] \<and> length (tx c) = 32"
  using set_alarm_confirmed [of "sample_connection (concat (map message_bytes
      [sample_message [(0, 0xb0)] [], sample_message [(0, 0x69), (12, 3)] [9], sample_message [(0, 0x69), (12, 2)] [9]]) @ [1])"
      "[sample_message [(0, 0xb0)] [], sample_message [(0, 0x69), (12, 3)] [9]]" 2
      "sample_message [(0, 0x69), (12, 2)] [9]" "[1]"]
  by (auto simp: sample_message_ok beside_length_def alarm_reply_def request_bytes_def)

section \<open>Login, properties\<close>

text \<open>How the recorder reads the credentials: in two fields of the header, or around the first \<open>&&\<close>.\<close>

fun split_amps :: "byte list \<Rightarrow> byte list \<times> byte list" where
  "split_amps [] = ([], [])"
| "split_amps [x] = ([x], [])"
| "split_amps (x # y # xs) =
     (if x = 0x26 \<and> y = 0x26 then ([], xs) else (case split_amps (y # xs) of (u, p) \<Rightarrow> (x # u, p)))"

definition login_read :: "message \<Rightarrow> byte list \<times> byte list" where
  "login_read m =
     (if snd m = [] then (c_str (take 8 (drop 8 (fst m))), c_str (take 8 (drop 16 (fst m)))) else split_amps (snd m))"

lemma split_amps_append: "0x26 \<notin> set u \<Longrightarrow> split_amps (u @ 0x26 # 0x26 # p) = (u, p)"
proof (induction u)
  case (Cons x u)
  then show ?case by (cases u) simp_all
qed simp

lemma c_str_strncpy8: "length s \<le> 8 \<Longrightarrow> 0 \<notin> set s \<Longrightarrow> c_str (strncpy8 s) = s"
  by (cases "length s = 8") (auto simp: c_str_def strncpy8_def takeWhile_append)

lemma length_strncpy8 [simp]: "length (strncpy8 s) = 8"
  by (simp add: strncpy8_def)

lemma login_request_reads:
  assumes "login_request user passwd = (h, up)" "length user + length passwd \<le> MAX_USER_PASSWD_LEN"
    and "0 \<notin> set user" "0 \<notin> set passwd" "0x26 \<notin> set user"
  shows "length (raw h) = 32 \<and> extlen h = of_nat (length up) \<and> length up \<le> 252 \<and>
    (let req = (raw (store_raw 4 (BT_NV2LM_U32 (extlen h)) h), up)
     in login_read req = (user, passwd) \<and> command req = 0xa0)"
proof (cases "length user \<le> 8 \<and> length passwd \<le> 8")
  case True
  then have "up = []" "h = set_raw 31 0xaa (set_raw 30 0xa1 (set_raw 25 0x01 (set_raw 24 0x04
      (set_raw 3 LLP_HD_VER_IHL (set_raw 0 0xa0 ((store_raw 16 (strncpy8 passwd) (store_raw 8 (strncpy8 user) llp_init_header))\<lparr>extlen := 0\<rparr>))))))"
    using assms(1) by (auto simp: login_request_def Let_def)
  then show ?thesis
    using True c_str_strncpy8 assms(3,4)
    by (simp add: login_read_def store_raw_def set_raw_def llp_init_header_def LLP_HEADER_SIZE_def drop_update_swap nth_append)
next
  case False
  then have up: "up = user @ 0x26 # 0x26 # passwd" "h = set_raw 31 0xaa (set_raw 30 0xa1 (set_raw 25 0x01 (set_raw 24 0x04
      (set_raw 3 LLP_HD_VER_IHL (set_raw 0 0xa0 (llp_init_header\<lparr>extlen := of_nat (length up)\<rparr>))))))"
    using assms(1,2) by (auto simp: login_request_def Let_def MAX_USER_PASSWD_LEN_def)
  show ?thesis
    using assms(2) split_amps_append [OF assms(5), of passwd]
    by (simp add: up(2) login_read_def set_raw_def store_raw_def llp_init_header_def LLP_HEADER_SIZE_def MAX_USER_PASSWD_LEN_def nth_append)
       (simp add: up(1))
qed

lemma login_answered:
  assumes hu: "login_request user passwd = (h, up)" "length user + length passwd \<le> MAX_USER_PASSWD_LEN"
    and q: "length (raw h) = 32" "extlen h = of_nat (length up)" "length up \<le> 252" and room: "284 \<le> tx_room c"
    and r: "skipped 0xb0 ms" "message_ok r" "command r = 0xb0"
    and rx: "rx c = concat (map message_bytes ms) @ message_bytes r @ rest"
  shows "hlp_login c d user passwd =
      (if fst r ! 8 = 0 then 0 else uint (fst r ! 9) + 256, map_option (login_devinfo (header_of r)) d,
       c\<lparr>rx := rest, tx := tx c @ message_bytes (sent h up), tx_room := tx_room c - length (message_bytes (sent h up)),
         unique_login_symbol :=
           (if fst r ! 8 = 0 then BT_LM2NV_U32 (take 4 (drop 16 (fst r))) else unique_login_symbol c)\<rparr>)"
proof -
  define c1 where "c1 = c\<lparr>tx := tx c @ fst (sent h up), tx_room := tx_room c - 32\<rparr>"
  define c2 where "c2 = c\<lparr>tx := tx c @ message_bytes (sent h up), tx_room := tx_room c - length (message_bytes (sent h up))\<rparr>"
  have send: "llp_send_header c h = (0, store_raw 4 (BT_NV2LM_U32 (extlen h)) h, c1)" "llp_send_extdata c1 up = (0, c2)"
    using send_header_ok [OF q(1), of c] send_extdata_ok [of up c1] room q(1,3)
    by (simp_all add: c1_def c2_def message_bytes_def sent_def)
  have get: "hlp_get_header c2 0xb0 = (0, header_of r, c2\<lparr>rx := snd r @ rest\<rparr>)"
    by (rule get_header_finds [OF r]) (simp add: c2_def rx)
  have drop: "llp_get_discard_extdata (c2\<lparr>rx := snd r @ rest\<rparr>) (header_of r) = (0, c2\<lparr>rx := rest\<rparr>)"
    using discard_message [OF r(2), of "c2\<lparr>rx := snd r @ rest\<rparr>" rest] by simp
  show ?thesis
    using send get drop hu by (auto simp: hlp_login_def REMOTE_RETCODE_OFFSET_def c2_def)
qed

text \<open>
  C25: Logging in sends one message from which the recorder reads back exactly the user and the
  password, in the header when both are short and behind it otherwise; the answer to it is found
  behind any other messages, its device fields are recorded, and its code or its session number is
  taken.
\<close>
theorem login_carries_credentials:
  assumes "length user + length passwd \<le> 250" "0 \<notin> set user" "0 \<notin> set passwd" "0x26 \<notin> set user"
    and "284 \<le> tx_room c" "skipped 0xb0 ms" "message_ok r" "command r = 0xb0"
    and "rx c = concat (map message_bytes ms) @ message_bytes r @ rest"
  shows "\<exists>req. message_ok req \<and> command req = 0xa0 \<and> login_read req = (user, passwd) \<and>
    hlp_login c d user passwd =
      (if fst r ! 8 = 0 then 0 else uint (fst r ! 9) + 256, map_option (login_devinfo (header_of r)) d,
       c\<lparr>rx := rest, tx := tx c @ message_bytes req, tx_room := tx_room c - length (message_bytes req),
         unique_login_symbol :=
           (if fst r ! 8 = 0 then BT_LM2NV_U32 (take 4 (drop 16 (fst r))) else unique_login_symbol c)\<rparr>)"
proof -
  obtain h up where hu: "login_request user passwd = (h, up)" by fastforce
  have len: "length user + length passwd \<le> MAX_USER_PASSWD_LEN" using assms(1) by (simp add: MAX_USER_PASSWD_LEN_def)
  have q: "length (raw h) = 32" "extlen h = of_nat (length up)" "length up \<le> 252"
    "login_read (sent h up) = (user, passwd)" "command (sent h up) = 0xa0"
    using login_request_reads [OF hu len assms(2-4)] by (auto simp: Let_def sent_def)
  have "message_ok (sent h up)" using sent_message [OF q(1,2)] q(3) by (simp add: sent_def)
  then show ?thesis
    using login_answered [OF hu len q(1-3) assms(5-9), of d] q(4,5) by blast
qed

lemma sample_session: "take 4 (drop 16 (fst (sample_message [(0, 0xb0), (10, 4), (16, 5)] [1]))) = [5, 0, 0, 0]"
  by code_simp

lemma login_carries_credentials_witness:
  "\<exists>d c. hlp_login (sample_connection (message_bytes (sample_message [(0, 0xb0), (10, 4), (16, 5)] [1]) @ [2])) (Some sample_devinfo)
     [0x61, 0x64] [0x70, 0x26] = (0, Some d, c) \<and> n_channels d = 4 \<and> rx c = [2] \<and> unique_login_symbol c = 5"
  using login_carries_credentials [of "[0x61, 0x64]" "[0x70, 0x26]"
      "sample_connection (message_bytes (sample_message [(0, 0xb0), (10, 4), (16, 5)] [1]) @ [2])" "[]"
      "sample_message [(0, 0xb0), (10, 4), (16, 5)] [1]" "[2]" "Some sample_devinfo"]
  by (auto simp: sample_message_ok beside_length_def skipped_def request_bytes_def login_devinfo_def sample_session)

section \<open>System information, properties\<close>

lemma send_infotypes_sends:
  assumes "raw h = request_bytes [(0, 0xa4), (8, x), (12, 0)]" "extlen h = 0" "32 * length ks \<le> tx_room c"
  shows "send_infotypes ks h c =
    (0, c\<lparr>tx := tx c @ concat (map (\<lambda>k. request_bytes [(0, 0xa4), (8, of_nat k), (12, 0)]) ks),
          tx_room := tx_room c - 32 * length ks\<rparr>)"
  using assms
proof (induction ks arbitrary: h c x)
  case (Cons k ks)
  let ?h = "set_raw 8 (of_nat k) h"
  let ?q = "request_bytes [(0, 0xa4), (8, of_nat k), (12, 0)]"
  have h: "raw ?h = ?q" "extlen ?h = 0"
    using Cons.prems(1,2) by (simp_all add: set_raw_def request_bytes_def list_update_swap [of 12 8])
  have "llp_send_header c ?h = (0, ?h, c\<lparr>tx := tx c @ ?q, tx_room := tx_room c - 32\<rparr>)"
    using Cons.prems(3) by (intro send_request [OF h]) (simp_all add: beside_length_def)
  then show ?case
    using Cons.IH [OF h, of "c\<lparr>tx := tx c @ ?q, tx_room := tx_room c - 32\<rparr>"] Cons.prems(3) by simp
qed simp

text \<open>
  One sweep over the information sends a request for every kind and a \<open>nop\<close>, takes every reply
  until the reply to the \<open>nop\<close>, and leaves a well-formed structure updated by these replies in order.
\<close>

definition sweep_requests :: "byte \<Rightarrow> nat \<Rightarrow> byte list" where
  "sweep_requests first n =
     concat (map (\<lambda>k. request_bytes [(0, 0xa4), (8, of_nat k), (12, 0)]) [unat first ..< unat first + n]) @
     request_bytes [(0, 0xa1)]"

lemma sysinfo_sweep_collects:
  assumes "\<forall>m \<in> set ms. message_ok m \<and> command m \<noteq> LLP_HD_NOP_REPLY \<and> length (snd m) \<le> 1024"
    and "message_ok r" "command r = LLP_HD_NOP_REPLY" "length (snd r) \<le> 1024" "arrays_ok d"
    and "rx c = concat (map message_bytes ms) @ message_bytes r @ rest" "32 * (n + 1) \<le> tx_room c"
  shows "\<exists>d'. told ms d = Some d' \<and> arrays_ok d' \<and>
    hlp_get_system_information_multiple x c (Some d) first n =
      Some (0, Some d', c\<lparr>rx := rest,
        tx := tx c @ sweep_requests first n,
        tx_room := tx_room c - 32 * (n + 1)\<rparr>)"
proof -
  let ?h = "set_raw 12 0 (set_raw 8 x (set_raw 0 0xa4 llp_init_header))"
  let ?ks = "[unat first ..< unat first + n]"
  define c1 where "c1 = c\<lparr>tx := tx c @ concat (map (\<lambda>k. request_bytes [(0, 0xa4), (8, of_nat k), (12, 0)]) ?ks),
      tx_room := tx_room c - 32 * n\<rparr>"
  define c2 where "c2 = c1\<lparr>tx := tx c1 @ request_bytes [(0, 0xa1)], tx_room := tx_room c1 - 32\<rparr>"
  have "send_infotypes ?ks ?h c = (0, c1)"
    unfolding c1_def using assms(7)
    by (subst send_infotypes_sends [of ?h x]) (simp_all add: set_raw_def request_bytes_def llp_init_header_def LLP_HEADER_SIZE_def)
  moreover have "llp_send_nop c1 = (0, c2)"
    using assms(7) send_request [of "set_raw 0 LLP_HD_NOP_REQ llp_init_header" "[(0, 0xa1)]" c1]
    by (simp add: llp_send_nop_def c1_def c2_def set_raw_def request_bytes_def llp_init_header_def LLP_HEADER_SIZE_def
        LLP_HD_NOP_REQ_def beside_length_def)
  moreover have "collect_infos c2 (Some d) = Some (0, told ms d, c2\<lparr>rx := rest\<rparr>)"
    by (rule collect_infos_told [OF assms(1-5)]) (simp add: c1_def c2_def assms(6))
  ultimately have "hlp_get_system_information_multiple x c (Some d) first n = Some (0, told ms d, c2\<lparr>rx := rest\<rparr>)"
    by (simp add: hlp_get_system_information_multiple_def)
  then show ?thesis using told_ok [OF assms(5), of ms] by (auto simp: c1_def c2_def sweep_requests_def)
qed

section \<open>Channel names, properties\<close>

lemma channel_names_answer:
  assumes "skipped 0xb8 ms" "message_ok r" "command r = 0xb8" "length (snd r) \<le> CHNAMES_SIZE"
    and "rx c = concat (map message_bytes ms) @ message_bytes r @ rest" "64 \<le> tx_room c" "length m = CHNAMES_SIZE"
  shows "\<exists>c'. rx c' = rest \<and> hlp_get_channel_names c (Some m) =
    map_option (\<lambda>b. (0, Some b, c')) (names_loop (snd r @ drop (length (snd r)) m) 0 0 False)"
proof -
  let ?h = "set_raw 0 0xa8 llp_init_header"
  define c1 where "c1 = c\<lparr>tx := tx c @ request_bytes [(0, 0xa8)], tx_room := tx_room c - 32\<rparr>"
  define c2 where "c2 = c1\<lparr>tx := tx c1 @ request_bytes [(0, 0xa8), (8, 1)], tx_room := tx_room c1 - 32\<rparr>"
  have s: "llp_send_header c ?h = (0, ?h, c1)" "llp_send_header c1 (set_raw 8 1 ?h) = (0, set_raw 8 1 ?h, c2)"
    using assms(6) send_request [of ?h "[(0, 0xa8)]" c] send_request [of "set_raw 8 1 ?h" "[(0, 0xa8), (8, 1)]" c1]
    by (simp_all add: c1_def c2_def set_raw_def request_bytes_def llp_init_header_def LLP_HEADER_SIZE_def beside_length_def)
  have g: "hlp_get_header c2 0xb8 = (0, header_of r, c2\<lparr>rx := snd r @ rest\<rparr>)"
    by (rule get_header_finds [OF assms(1-3)]) (simp add: c1_def c2_def assms(5))
  have b: "unat (of_nat CHNAMES_SIZE :: u32) = 512" by (simp add: CHNAMES_SIZE_def)
  have x: "llp_get_extdata_sbuff (c2\<lparr>rx := snd r @ rest\<rparr>) (header_of r) (of_nat CHNAMES_SIZE) =
      (int (length (snd r)), snd r, c2\<lparr>rx := rest\<rparr>)"
    using extdata_message [OF assms(2), of "c2\<lparr>rx := snd r @ rest\<rparr>" rest "of_nat CHNAMES_SIZE"] b assms(4)
    by (simp add: CHNAMES_SIZE_def)
  have w: "wr_slice m 0 (snd r) = Some (snd r @ drop (length (snd r)) m)"
    using wr_slice_of_nat [of 0 "snd r" m] assms(4,7) by simp
  show ?thesis
    using s g x w
    by (intro exI [of _ "c2\<lparr>rx := rest\<rparr>"])
       (cases "names_loop (snd r @ drop (length (snd r)) m) 0 0 False"; simp add: hlp_get_channel_names_def)
qed

text \<open>
  C33: The conversion of the channel names, in place and with one pass, is the list function that
  replaces every run of ampersands by one line end: whatever the block held before, it begins with
  the converted names, a line end and the terminator, when the answer is terminated and there is
  room for both.
\<close>
theorem channel_names_converted:
  assumes "skipped 0xb8 ms" "message_ok r" "command r = 0xb8" "snd r = s @ 0 # t" "0 \<notin> set s" "length (snd r) \<le> 512"
    and "rx c = concat (map message_bytes ms) @ message_bytes r @ rest" "64 \<le> tx_room c" "length m = 512"
    and "length (pretty_names False s) + 2 \<le> 512"
  shows "\<exists>b c'. hlp_get_channel_names c (Some m) = Some (0, Some b, c') \<and> rx c' = rest \<and> length b = 512 \<and>
    take (length (pretty_names False s) + 2) b = pretty_names False s @ [10, 0]"
proof -
  let ?m = "snd r @ drop (length (snd r)) m"
  obtain c' where c': "rx c' = rest"
      "hlp_get_channel_names c (Some m) = map_option (\<lambda>b. (0, Some b, c')) (names_loop ?m 0 0 False)"
    using channel_names_answer [OF assms(1-3) _ assms(7,8), of m] assms(6,9) by (auto simp: CHNAMES_SIZE_def)
  have "drop 0 ?m = s @ 0 # (t @ drop (length (snd r)) m)" "length ?m = 512" using assms(4,6,9) by simp_all
  from names_loop_pretty [OF this(1) assms(5), of 0 False] this(2) assms(10) show ?thesis
    using c' by auto
qed

lemma numeral_5: "5 = Suc (Suc (Suc (Suc (Suc 0))))"
  by simp

lemma channel_names_converted_witness:
  "\<exists>b c. hlp_get_channel_names (sample_connection (message_bytes (sample_message [(0, 0xb8)] [0x41, 0x26, 0x26, 0x42, 0]) @ [4]))
     (Some (replicate 512 9)) = Some (0, Some b, c) \<and> take 5 b = [0x41, 10, 0x42, 10, 0]"
  using channel_names_converted [of "[]" "sample_message [(0, 0xb8)] [0x41, 0x26, 0x26, 0x42, 0]" "[0x41, 0x26, 0x26, 0x42]" "[]"
      "sample_connection (message_bytes (sample_message [(0, 0xb8)] [0x41, 0x26, 0x26, 0x42, 0]) @ [4])" "[4]" "replicate 512 9"]
  by (auto simp: skipped_def sample_message_ok beside_length_def request_bytes_def numeral_5)

text \<open>
  An answer of exactly 512 bytes without a terminator, which the length check lets through, makes
  the conversion read past the block.
\<close>
lemma channel_names_overrun:
  assumes "skipped 0xb8 ms" "message_ok r" "command r = 0xb8" "length (snd r) = 512" "0 \<notin> set (snd r)"
    and "rx c = concat (map message_bytes ms) @ message_bytes r @ rest" "64 \<le> tx_room c" "length m = 512"
  shows "hlp_get_channel_names c (Some m) = None"
proof -
  have "names_loop (snd r @ drop (length (snd r)) m) 0 0 False = None"
    using assms(4,5,8) by (intro names_loop_overrun) (auto simp: nth_append in_set_conv_nth)
  then show ?thesis
    using channel_names_answer [OF assms(1-3) _ assms(6,7), of m] assms(4,8) by (auto simp: CHNAMES_SIZE_def)
qed

definition unterminated_names :: message where
  "unterminated_names = ((request_bytes [(0, 0xb8)])[5 := 2], replicate 512 0x41)"

lemma channel_names_overrun_witness:
  "hlp_get_channel_names (sample_connection (message_bytes unterminated_names)) (Some (replicate 512 0)) = None"
proof (rule channel_names_overrun [of "[]" unterminated_names _ "[]"])
  show "message_ok unterminated_names"
    by (simp add: message_ok_def unterminated_names_def LLP_HEADER_SIZE_def four_bytes request_bytes_def)
qed (simp_all add: skipped_def unterminated_names_def request_bytes_def)

end
