(* ===== verification/Stream_Queue.thy ===== *)
theory Stream_Queue
  imports Bintools
begin

text \<open>
  The byte queue both stream deframers of \<open>src/mctools.c\<close> work on (\<open>dstf_t\<close>), how incoming data is
  loaded into it, and the container identification, which searches the queue for byte patterns.
  Abstractly the queue is a byte list, \<open>dstf_queue\<close>, and loading appends to it.
\<close>

section \<open>Memory primitives\<close>

text \<open>\<open>memcpy_overlap\<close> copies upwards byte by byte; both ranges lie in the block \<open>m\<close> and may overlap.\<close>

fun memcpy_overlap :: "byte list \<Rightarrow> nat \<Rightarrow> nat \<Rightarrow> nat \<Rightarrow> byte list option" where
  "memcpy_overlap m dst src 0 = Some m"
| "memcpy_overlap m dst src (Suc n) =
     do {
       x \<leftarrow> rd m (int src);
       m' \<leftarrow> wr_slice m (int dst) [x];
       memcpy_overlap m' (Suc dst) (Suc src) n
     }"

function find_from :: "byte list \<Rightarrow> byte list \<Rightarrow> nat \<Rightarrow> nat \<Rightarrow> nat \<Rightarrow> nat option option" where
  "find_from mem seq mem_len seq_len i =
     (if i < size_sub mem_len (size_sub seq_len 1) then
        do {
          here \<leftarrow> rd_slice mem (int i) seq_len;
          there \<leftarrow> rd_slice seq 0 seq_len;
          if here = there then Some (Some i) else find_from mem seq mem_len seq_len (i + 1)
        }
      else Some None)"
  by pat_completeness auto
termination
  by (relation "measure (\<lambda>(mem, seq, mem_len, seq_len, i). size_sub mem_len (size_sub seq_len 1) - i)") auto

declare find_from.simps [simp del]

definition find_bin_seq_in_mem :: "byte list \<Rightarrow> byte list \<Rightarrow> nat \<Rightarrow> nat \<Rightarrow> nat option option" where
  "find_bin_seq_in_mem mem seq mem_len seq_len =
     (if seq_len > mem_len then Some None else find_from mem seq mem_len seq_len 0)"

section \<open>Container identification\<close>

datatype t_mc_format = MC_FORM_DHAV | MC_FORM_MKV | MC_FORM_RAW_H264 | MC_FORM_DVR_NATIVE | MC_FORM_DVR_UNKNOWN

definition str_DHAV :: "byte list" where "str_DHAV = [0x44, 0x48, 0x41, 0x56]"
definition str_dhav :: "byte list" where "str_dhav = [0x64, 0x68, 0x61, 0x76]"
definition str_Dahua_ZH :: "byte list" where
  "str_Dahua_ZH = [0x44, 0x61, 0x68, 0x75, 0x61, 0x5F, 0x5A, 0x48]"

definition identify_mc_format :: "byte list \<Rightarrow> nat \<Rightarrow> t_mc_format option" where
  "identify_mc_format src src_len =
     do {
       i \<leftarrow> find_bin_seq_in_mem src str_DHAV src_len 4;
       j \<leftarrow> (if i \<noteq> None then find_bin_seq_in_mem src str_dhav src_len 4 else Some None);
       if j \<noteq> None then Some MC_FORM_DHAV
       else do {
         k \<leftarrow> find_bin_seq_in_mem src str_Dahua_ZH src_len 8;
         Some (if k \<noteq> None then MC_FORM_RAW_H264 else MC_FORM_DVR_UNKNOWN)
       }
     }"

section \<open>The queue\<close>

record dstf =
  sq :: "byte list"
  sq_offs :: nat
  sq_len :: nat
  sq_maxlen :: nat

definition T_MC_PARMS_DHAV_STF :: nat where "T_MC_PARMS_DHAV_STF = 1000000"

text \<open>\<open>block\<close>: the uninitialised array of \<open>malloc\<close>, or no memory.\<close>

definition dstf_init :: "byte list option \<Rightarrow> dstf option" where
  "dstf_init block =
     (case block of
        None \<Rightarrow> None
      | Some m \<Rightarrow> Some \<lparr>sq = m, sq_offs = 0, sq_len = 0, sq_maxlen = T_MC_PARMS_DHAV_STF\<rparr>)"

text \<open>
  The first part of both deframers: \<open>Inl\<close> is an early return with that code, \<open>Inr\<close> the queue with
  the \<open>src_len\<close> bytes at \<open>src\<close> loaded.
\<close>

definition dstf_load :: "dstf \<Rightarrow> byte list \<Rightarrow> nat \<Rightarrow> (int + dstf) option" where
  "dstf_load q src src_len =
     (let q_free = size_sub (sq_maxlen q) (sq_len q + sq_offs q);
          q_tot_free = size_sub (sq_maxlen q) (sq_len q)
      in if src_len > 0 then
           (if src_len > q_tot_free then Some (Inl (-1))
            else do {
              p \<leftarrow> (if src_len > q_free
                   then do { m \<leftarrow> memcpy_overlap (sq q) 0 (sq_offs q) (sq_len q);
                             Some (q\<lparr>sq := m, sq_offs := 0\<rparr>) }
                   else Some q);
              bs \<leftarrow> rd_slice src 0 src_len;
              m \<leftarrow> wr_slice (sq p) (int (sq_offs p + sq_len p)) bs;
              Some (Inr (p\<lparr>sq := m, sq_len := sq_len p + src_len\<rparr>))
            })
         else Some (Inr q))"

text \<open>Dropping \<open>n\<close> bytes from the front (the framing loops do this one by one or by frame).\<close>

definition dstf_advance :: "nat \<Rightarrow> dstf \<Rightarrow> dstf" where
  "dstf_advance n q = q\<lparr>sq_offs := sq_offs q + n, sq_len := size_sub (sq_len q) n\<rparr>"

section \<open>Copying and searching\<close>

lemma memcpy_overlap_moves:
  "d \<le> s \<Longrightarrow> s + n \<le> length m \<Longrightarrow>
   memcpy_overlap m d s n = Some (take d m @ take n (drop s m) @ drop (d + n) m)"
proof (induction n arbitrary: m d s)
  case 0
  then show ?case by simp
next
  case (Suc n)
  let ?m = "take d m @ [m ! s] @ drop (Suc d) m"
  have "rd m (int s) = Some (m ! s)" "wr_slice m (int d) [m ! s] = Some ?m"
    using Suc.prems by simp_all
  then have "memcpy_overlap m d s (Suc n) = memcpy_overlap ?m (Suc d) (Suc s) n"
    by simp
  also have "\<dots> = Some (take (Suc d) ?m @ take n (drop (Suc s) ?m) @ drop (Suc d + n) ?m)"
    by (rule Suc.IH) (use Suc.prems in auto)
  also have "take (Suc d) ?m = take d m @ [m ! s]" using Suc.prems by simp
  also have "drop (Suc s) ?m = drop (Suc s) m" using Suc.prems by (simp add: Suc_diff_le)
  also have "drop (Suc d + n) ?m = drop (d + Suc n) m" using Suc.prems by (simp add: add.commute)
  also have "(take d m @ [m ! s]) @ take n (drop (Suc s) m) @ drop (d + Suc n) m =
      take d m @ take (Suc n) (drop s m) @ drop (d + Suc n) m"
    using Suc.prems by (simp add: Cons_nth_drop_Suc [symmetric])
  finally show ?case .
qed

definition occurs_at :: "byte list \<Rightarrow> byte list \<Rightarrow> nat \<Rightarrow> bool" where
  "occurs_at seq mem j \<longleftrightarrow> j + length seq \<le> length mem \<and> take (length seq) (drop j mem) = seq"

definition first_at :: "(nat \<Rightarrow> bool) \<Rightarrow> nat option \<Rightarrow> bool" where
  "first_at P r \<longleftrightarrow> (case r of None \<Rightarrow> \<forall>j. \<not> P j | Some i \<Rightarrow> P i \<and> (\<forall>j < i. \<not> P j))"

lemma find_from_first:
  assumes "seq \<noteq> []" "length seq \<le> length mem" "length mem < 2 ^ 64"
    and "\<forall>j < i. \<not> occurs_at seq mem j"
  shows "\<exists>r. find_from mem seq (length mem) (length seq) i = Some r \<and> first_at (occurs_at seq mem) r"
  using assms
proof (induction mem seq "length mem" "length seq" i rule: find_from.induct)
  case (1 mem seq i)
  have n: "size_sub (length mem) (size_sub (length seq) 1) = length mem - (length seq - 1)"
    "length seq \<ge> 1"
    using "1.prems" by (simp_all add: size_sub_ge Suc_leI)
  show ?case
  proof (cases "i < length mem - (length seq - 1)")
    case False
    then have "\<not> occurs_at seq mem j" for j
      using "1.prems"(4) n(2) by (cases "j < i") (auto simp: occurs_at_def)
    with False n show ?thesis by (subst find_from.simps) (simp add: first_at_def)
  next
    case True
    then have here: "rd_slice mem (int i) (length seq) = Some (take (length seq) (drop i mem))"
      by (intro rd_slice_of_nat) (use n(2) in simp)
    have there: "rd_slice seq 0 (length seq) = Some seq" by (simp add: rd_slice_def)
    have occ: "occurs_at seq mem i \<longleftrightarrow> take (length seq) (drop i mem) = seq"
      using True n(2) by (auto simp: occurs_at_def)
    show ?thesis
    proof (cases "occurs_at seq mem i")
      case True
      with here there occ \<open>i < _\<close> n "1.prems"(4) show ?thesis
        by (subst find_from.simps) (simp add: first_at_def)
    next
      case False
      have "\<exists>r. find_from mem seq (length mem) (length seq) (i + 1) = Some r \<and>
          first_at (occurs_at seq mem) r"
        by (rule "1.hyps" [OF _ here there])
           (use True False occ n "1.prems" in \<open>auto simp: less_Suc_eq\<close>)
      with False here there occ True n show ?thesis by (subst find_from.simps) simp
    qed
  qed
qed

lemma find_bin_seq_first:
  assumes "seq \<noteq> []" "length mem < 2 ^ 64"
  shows "\<exists>r. find_bin_seq_in_mem mem seq (length mem) (length seq) = Some r \<and> first_at (occurs_at seq mem) r"
proof (cases "length seq > length mem")
  case True
  then show ?thesis by (simp add: find_bin_seq_in_mem_def first_at_def occurs_at_def)
next
  case False
  then show ?thesis
    using find_from_first [of seq mem 0] assms by (simp add: find_bin_seq_in_mem_def)
qed

section \<open>Invariant and contents\<close>

definition dstf_inv :: "dstf \<Rightarrow> bool" where
  "dstf_inv q \<longleftrightarrow> length (sq q) = sq_maxlen q \<and> sq_offs q + sq_len q \<le> sq_maxlen q \<and> sq_maxlen q < 2 ^ 31"

definition dstf_queue :: "dstf \<Rightarrow> byte list" where
  "dstf_queue q = take (sq_len q) (drop (sq_offs q) (sq q))"

definition dstf_room :: "dstf \<Rightarrow> nat" where
  "dstf_room q = sq_maxlen q - sq_len q"

lemma dstf_init_ok:
  "length m = T_MC_PARMS_DHAV_STF \<Longrightarrow> dstf_init (Some m) = Some q \<Longrightarrow> dstf_inv q \<and> dstf_queue q = []"
  by (auto simp: dstf_init_def dstf_inv_def dstf_queue_def T_MC_PARMS_DHAV_STF_def)

lemma length_dstf_queue: "dstf_inv q \<Longrightarrow> length (dstf_queue q) = sq_len q"
  by (auto simp: dstf_inv_def dstf_queue_def)

lemma dstf_inv_bounds:
  "dstf_inv q \<Longrightarrow> sq_len q \<le> sq_maxlen q \<and> sq_offs q + sq_len q \<le> length (sq q) \<and> sq_maxlen q < 2 ^ 31"
  by (simp add: dstf_inv_def)

lemma dstf_read:
  "dstf_inv q \<Longrightarrow> i + n \<le> sq_len q \<Longrightarrow>
   rd_slice (sq q) (int (sq_offs q + i)) n = Some (take n (drop i (dstf_queue q)))"
  by (subst rd_slice_of_nat)
     (auto simp: dstf_inv_def dstf_queue_def drop_take min_def add.commute)

text \<open>\<open>from q q'\<close>: the same block and limits, the queue \<open>n\<close> bytes further on.\<close>

lemma dstf_advance_ok:
  assumes "dstf_inv q" "n \<le> sq_len q"
  shows "dstf_inv (dstf_advance n q)" "dstf_queue (dstf_advance n q) = drop n (dstf_queue q)"
    "sq_len (dstf_advance n q) = sq_len q - n" "sq_maxlen (dstf_advance n q) = sq_maxlen q"
    "sq (dstf_advance n q) = sq q"
proof -
  have s: "size_sub (sq_len q) n = sq_len q - n"
    using assms by (intro size_sub_ge) (auto simp: dstf_inv_def)
  then show "sq_len (dstf_advance n q) = sq_len q - n" by (simp add: dstf_advance_def)
  show "dstf_inv (dstf_advance n q)" using assms s by (auto simp: dstf_advance_def dstf_inv_def)
  show "dstf_queue (dstf_advance n q) = drop n (dstf_queue q)"
    using assms s by (simp add: dstf_advance_def dstf_queue_def drop_take add.commute)
qed (simp_all add: dstf_advance_def)

lemma dstf_advance_add:
  assumes "dstf_inv q" "m + n \<le> sq_len q"
  shows "dstf_advance n (dstf_advance m q) = dstf_advance (m + n) q"
proof -
  have "sq_len q < 2 ^ 64" using dstf_inv_bounds [OF assms(1)] by simp
  then have "size_sub (sq_len q) m = sq_len q - m" "size_sub (sq_len q) (m + n) = sq_len q - (m + n)"
    "size_sub (sq_len q - m) n = sq_len q - (m + n)"
    using assms(2) by (simp_all add: size_sub_ge)
  then show ?thesis by (simp add: dstf_advance_def add.assoc)
qed

lemma dstf_advance_0: "dstf_inv q \<Longrightarrow> dstf_advance 0 q = q"
  using dstf_inv_bounds [of q] by (simp add: dstf_advance_def size_sub_ge)

section \<open>Loading\<close>

lemma dstf_load_full:
  assumes "dstf_inv q" "dstf_room q < length src"
  shows "dstf_load q src (length src) = Some (Inl (-1))"
proof -
  have "size_sub (sq_maxlen q) (sq_len q) = dstf_room q"
    using dstf_inv_bounds [OF assms(1)] by (simp add: size_sub_ge dstf_room_def)
  with assms(2) show ?thesis by (auto simp: dstf_load_def)
qed

text \<open>The queue with the array rearranged so that \<open>n\<close> more bytes fit behind it.\<close>

lemma dstf_pack_ok:
  assumes inv: "dstf_inv q"
  shows "\<exists>m. memcpy_overlap (sq q) 0 (sq_offs q) (sq_len q) = Some m \<and>
    dstf_inv (q\<lparr>sq := m, sq_offs := 0\<rparr>) \<and> dstf_queue (q\<lparr>sq := m, sq_offs := 0\<rparr>) = dstf_queue q"
proof -
  let ?m = "take (sq_len q) (drop (sq_offs q) (sq q)) @ drop (sq_len q) (sq q)"
  note i = dstf_inv_bounds [OF inv]
  have "memcpy_overlap (sq q) 0 (sq_offs q) (sq_len q) = Some ?m"
    using memcpy_overlap_moves [of 0 "sq_offs q" "sq_len q" "sq q"] i by simp
  moreover have "length ?m = length (sq q)" using i by auto
  ultimately show ?thesis
    using inv i by (auto simp: dstf_inv_def dstf_queue_def)
qed

lemma dstf_store_ok:
  assumes inv: "dstf_inv q" and fits: "sq_offs q + sq_len q + length bs \<le> sq_maxlen q"
  shows "\<exists>m. wr_slice (sq q) (int (sq_offs q + sq_len q)) bs = Some m \<and>
    dstf_inv (q\<lparr>sq := m, sq_len := sq_len q + length bs\<rparr>) \<and>
    dstf_queue (q\<lparr>sq := m, sq_len := sq_len q + length bs\<rparr>) = dstf_queue q @ bs"
proof -
  let ?i = "sq_offs q + sq_len q"
  let ?m = "take ?i (sq q) @ bs @ drop (?i + length bs) (sq q)"
  have len: "?i + length bs \<le> length (sq q)" using inv fits by (simp add: dstf_inv_def)
  then have w: "wr_slice (sq q) (int ?i) bs = Some ?m" by (rule wr_slice_of_nat)
  moreover have "take (sq_len q + length bs) (drop (sq_offs q) ?m) = dstf_queue q @ bs"
    using take_drop_append_wr [OF refl len] by (simp add: dstf_queue_def)
  ultimately show ?thesis
    using inv fits wr_slice_length [OF w] by (simp add: dstf_inv_def dstf_queue_def)
qed

lemma dstf_load_ok:
  assumes inv: "dstf_inv q" and room: "length src \<le> dstf_room q"
  shows "\<exists>q'. dstf_load q src (length src) = Some (Inr q') \<and> dstf_inv q' \<and>
    dstf_queue q' = dstf_queue q @ src \<and> sq_maxlen q' = sq_maxlen q"
proof (cases "src = []")
  case True
  then show ?thesis using inv by (simp add: dstf_load_def Let_def)
next
  case False
  note i = dstf_inv_bounds [OF inv]
  have free: "size_sub (sq_maxlen q) (sq_len q) = dstf_room q"
    "size_sub (sq_maxlen q) (sq_len q + sq_offs q) = sq_maxlen q - (sq_len q + sq_offs q)"
    using i inv by (simp_all add: size_sub_ge dstf_room_def dstf_inv_def)
  have src: "rd_slice src 0 (length src) = Some src" by (simp add: rd_slice_def)
  define p where "p = (if length src > sq_maxlen q - (sq_len q + sq_offs q)
    then do { m \<leftarrow> memcpy_overlap (sq q) 0 (sq_offs q) (sq_len q); Some (q\<lparr>sq := m, sq_offs := 0\<rparr>) }
    else Some q)"
  have "\<exists>q1. p = Some q1 \<and> dstf_inv q1 \<and> dstf_queue q1 = dstf_queue q \<and> sq_maxlen q1 = sq_maxlen q \<and>
      sq_offs q1 + sq_len q1 + length src \<le> sq_maxlen q1"
  proof (cases "length src > sq_maxlen q - (sq_len q + sq_offs q)")
    case True
    with dstf_pack_ok [OF inv] room i show ?thesis by (auto simp: p_def dstf_room_def)
  next
    case False
    with inv i show ?thesis by (auto simp: p_def dstf_inv_def)
  qed
  then obtain q1 where q1: "p = Some q1" "dstf_inv q1" "dstf_queue q1 = dstf_queue q"
    "sq_maxlen q1 = sq_maxlen q" "sq_offs q1 + sq_len q1 + length src \<le> sq_maxlen q1" by blast
  have "dstf_load q src (length src) = do {
      q1 \<leftarrow> p;
      m \<leftarrow> wr_slice (sq q1) (int (sq_offs q1 + sq_len q1)) src;
      Some (Inr (q1\<lparr>sq := m, sq_len := sq_len q1 + length src\<rparr>)) }"
    using False room by (simp add: dstf_load_def Let_def free src p_def del: of_nat_add)
  with dstf_store_ok [OF q1(2,5)] q1 show ?thesis by auto
qed

section \<open>Properties\<close>

text \<open>The literals of the source as byte strings.\<close>

lemma literals: "str_DHAV \<noteq> []" "str_dhav \<noteq> []" "str_Dahua_ZH \<noteq> []"
  "length str_DHAV = 4" "length str_dhav = 4" "length str_Dahua_ZH = 8"
  by (simp_all add: str_DHAV_def str_dhav_def str_Dahua_ZH_def)

lemma find_decides:
  assumes "seq \<noteq> []" "length mem < 2 ^ 64"
  shows "\<exists>r. find_bin_seq_in_mem mem seq (length mem) (length seq) = Some r \<and>
    (r \<noteq> None \<longleftrightarrow> (\<exists>j. occurs_at seq mem j))"
  using find_bin_seq_first [OF assms] by (fastforce simp: first_at_def split: option.splits)

lemma identify_decides:
  assumes "length src < 2 ^ 64"
  shows "identify_mc_format src (length src) =
    Some (if (\<exists>i. occurs_at str_DHAV src i) \<and> (\<exists>j. occurs_at str_dhav src j) then MC_FORM_DHAV
          else if \<exists>k. occurs_at str_Dahua_ZH src k then MC_FORM_RAW_H264
          else MC_FORM_DVR_UNKNOWN)"
proof -
  obtain r1 where r1: "find_bin_seq_in_mem src str_DHAV (length src) 4 = Some r1"
    "r1 \<noteq> None \<longleftrightarrow> (\<exists>j. occurs_at str_DHAV src j)"
    using find_decides [OF literals(1) assms] literals(4) by auto
  obtain r2 where r2: "find_bin_seq_in_mem src str_dhav (length src) 4 = Some r2"
    "r2 \<noteq> None \<longleftrightarrow> (\<exists>j. occurs_at str_dhav src j)"
    using find_decides [OF literals(2) assms] literals(5) by auto
  obtain r3 where r3: "find_bin_seq_in_mem src str_Dahua_ZH (length src) 8 = Some r3"
    "r3 \<noteq> None \<longleftrightarrow> (\<exists>j. occurs_at str_Dahua_ZH src j)"
    using find_decides [OF literals(3) assms] literals(6) by auto
  show ?thesis
    unfolding identify_mc_format_def r1(1) r2(1) r3(1)
    by (simp add: r1(2) [symmetric] r2(2) [symmetric] r3(2) [symmetric])
qed

text \<open>
  The search for a byte pattern returns the first place where it occurs, and nothing exactly when
  it occurs nowhere; it never reads outside the memory it is given.
\<close>
lemma find_bin_seq_first_match:
  "seq \<noteq> [] \<Longrightarrow> length mem < 2 ^ 64 \<Longrightarrow>
   \<exists>r. find_bin_seq_in_mem mem seq (length mem) (length seq) = Some r \<and>
     (case r of
        None \<Rightarrow> \<forall>j. \<not> occurs_at seq mem j
      | Some i \<Rightarrow> occurs_at seq mem i \<and> (\<forall>j < i. \<not> occurs_at seq mem j))"
  using find_bin_seq_first [of seq mem] by (simp add: first_at_def)

lemma find_bin_seq_first_match_witness:
  "\<exists>r. find_bin_seq_in_mem [1, 2, 1, 2, 3] [1, 2, 3] (length [1, 2, 1, 2, 3 :: byte]) (length [1, 2, 3 :: byte]) = Some r \<and>
     (case r of
        None \<Rightarrow> \<forall>j. \<not> occurs_at [1, 2, 3] [1, 2, 1, 2, 3] j
      | Some i \<Rightarrow> occurs_at [1, 2, 3] [1, 2, 1, 2, 3] i \<and> (\<forall>j < i. \<not> occurs_at [1, 2, 3] [1, 2, 1, 2, 3] j))"
  by (rule find_bin_seq_first_match) simp_all

text \<open>
  The container is taken for DHAV exactly when both of its markers occur in the data, otherwise
  for raw H.264 exactly when the vendor string occurs, and is unknown in all other cases.
\<close>
lemma identify_mc_format_decides:
  assumes "length src < 2 ^ 64"
  shows "identify_mc_format src (length src) =
    Some (if (\<exists>i. occurs_at str_DHAV src i) \<and> (\<exists>j. occurs_at str_dhav src j) then MC_FORM_DHAV
          else if \<exists>k. occurs_at str_Dahua_ZH src k then MC_FORM_RAW_H264
          else MC_FORM_DVR_UNKNOWN)"
  by (rule identify_decides) (rule assms)

lemma identify_mc_format_decides_witness:
  "identify_mc_format (str_DHAV @ [1] @ str_dhav) (length (str_DHAV @ [1] @ str_dhav)) = Some MC_FORM_DHAV"
proof -
  have "occurs_at str_DHAV (str_DHAV @ [1] @ str_dhav) 0" "occurs_at str_dhav (str_DHAV @ [1] @ str_dhav) 5"
    by (simp_all add: occurs_at_def str_DHAV_def str_dhav_def)
  moreover have "length (str_DHAV @ [1] @ str_dhav) < 2 ^ 64"
    by (simp add: str_DHAV_def str_dhav_def)
  note identify_mc_format_decides [OF this]
  ultimately show ?thesis by auto
qed

end
