(* ===== verification/Framer.thy ===== *)
theory Framer
  imports Stream_Queue Loops
begin

text \<open>
  The interface between the two deframers and their callers. A deframer takes new data and gives
  a code, at most one frame and the new queue; a caller repeats the call with no new data
  (\<open>do ... while (dstf_ret > 0)\<close> in \<open>src/dvrcontrol.c\<close> and \<open>src/dhav2mkv.c\<close>) and consumes the frames.
\<close>

section \<open>The caller's loop\<close>

type_synonym deframer = "dstf \<Rightarrow> byte list \<Rightarrow> nat \<Rightarrow> nat \<Rightarrow> (int \<times> byte list \<times> dstf) option"

text \<open>
  One turn: the call and, when it gave data, the consumer, which may ask to leave the loop. The
  loop ends with the last code of the deframer.
\<close>

definition drain_turn ::
    "deframer \<Rightarrow> nat \<Rightarrow> (byte list \<Rightarrow> 'c \<Rightarrow> (bool \<times> 'c) option) \<Rightarrow>
     byte list \<times> nat \<Rightarrow> dstf \<times> 'c \<Rightarrow> (int option \<times> dstf \<times> 'c) option" where
  "drain_turn process max_dst_len consume = (\<lambda>(src, src_len) (q, st).
     do {
       (dstf_ret, dst, q') \<leftarrow> process q src src_len max_dst_len;
       (stop, st') \<leftarrow> (if length dst > 0 then consume dst st else Some (False, st));
       Some (if stop \<or> \<not> dstf_ret > 0 then Some dstf_ret else None, (q', st'))
     })"

text \<open>The first turn has the data just read; the others none, up to a bound on their number.\<close>

definition drain ::
    "deframer \<Rightarrow> nat \<Rightarrow> (byte list \<Rightarrow> 'c \<Rightarrow> (bool \<times> 'c) option) \<Rightarrow> nat \<Rightarrow>
     byte list \<Rightarrow> nat \<Rightarrow> dstf \<times> 'c \<Rightarrow> (int option \<times> dstf \<times> 'c) option" where
  "drain process max_dst_len consume fuel src src_len s =
     turns (drain_turn process max_dst_len consume) ((src, src_len) # replicate fuel (src, 0)) s"

section \<open>What the loop computes from a specification of the deframer\<close>

type_synonym framing_spec = "nat \<Rightarrow> nat \<Rightarrow> byte list \<Rightarrow> (int \<times> byte list \<times> byte list) option"

definition frames_of :: "byte list \<Rightarrow> byte list list" where
  "frames_of dst = (if dst = [] then [] else [dst])"

inductive drained :: "framing_spec \<Rightarrow> nat \<Rightarrow> nat \<Rightarrow> byte list \<Rightarrow> int \<Rightarrow> byte list list \<Rightarrow> byte list \<Rightarrow> bool"
  for spec maxlen k where
  drained_last: "spec maxlen k xs = Some (c, dst, rest) \<Longrightarrow> c \<le> 0 \<Longrightarrow>
    drained spec maxlen k xs c (frames_of dst) rest"
| drained_more: "spec maxlen k xs = Some (c, dst, mid) \<Longrightarrow> c > 0 \<Longrightarrow>
    drained spec maxlen k mid c' fs rest \<Longrightarrow> drained spec maxlen k xs c' (frames_of dst @ fs) rest"

text \<open>\<open>woven fs xs\<close>: the frames \<open>fs\<close> occur in \<open>xs\<close> one after the other, without overlap.\<close>

inductive woven :: "byte list list \<Rightarrow> byte list \<Rightarrow> bool" where
  woven_none: "woven [] xs"
| woven_frame: "woven fs xs \<Longrightarrow> woven (f # fs) (g @ f @ xs)"

inductive_simps woven_Nil: "woven [] xs"
inductive_simps woven_Cons: "woven (f # fs) xs"

lemma woven_prefix: "woven fs xs \<Longrightarrow> woven fs (g @ xs)"
proof (induction rule: woven.induct)
  case (woven_frame fs xs f h)
  then show ?case using woven.woven_frame [of fs xs f "g @ h"] by simp
qed (rule woven_none)

text \<open>Handing frames to a consumer one after the other; it must not fail or ask to stop.\<close>

fun consume_all :: "(byte list \<Rightarrow> 'c \<Rightarrow> (bool \<times> 'c) option) \<Rightarrow> byte list list \<Rightarrow> 'c \<Rightarrow> 'c option" where
  "consume_all consume [] st = Some st"
| "consume_all consume (f # fs) st =
     (case consume f st of Some (False, st') \<Rightarrow> consume_all consume fs st' | _ \<Rightarrow> None)"

lemma consume_all_Cons:
  "consume_all consume (f # fs) st = Some st' \<longleftrightarrow>
     (\<exists>st1. consume f st = Some (False, st1) \<and> consume_all consume fs st1 = Some st')"
  by (auto split: option.splits bool.splits)

lemma consume_all_append:
  "consume_all consume (fs @ gs) st = consume_all consume fs st \<bind> consume_all consume gs"
  by (induction fs arbitrary: st) (auto split: option.splits bool.splits)

lemma consume_all_fold:
  "(\<And>f st. consume f st = Some (False, step f st)) \<Longrightarrow> consume_all consume fs st = Some (fold step fs st)"
  by (induction fs arbitrary: st) auto

declare consume_all.simps(2) [simp del]

lemma consume_all_frames:
  "consume_all consume (frames_of dst) st = Some st' \<longleftrightarrow>
     (if length dst > 0 then consume dst st else Some (False, st)) = Some (False, st')"
  by (auto simp: frames_of_def consume_all_Cons)

locale framer =
  fixes process :: deframer and spec :: framing_spec
  assumes process_spec: "dstf_inv q \<Longrightarrow> length src \<le> dstf_room q \<Longrightarrow>
      spec (sq_maxlen q) k (dstf_queue q @ src) = Some (c, dst, rest) \<Longrightarrow>
      \<exists>q'. process q src (length src) k = Some (c, dst, q') \<and> dstf_inv q' \<and> dstf_queue q' = rest \<and>
        sq_maxlen q' = sq_maxlen q"
    and process_idle: "process q src 0 k = process q [] 0 k"
    and spec_cut: "spec maxlen k xs = Some (c, dst, rest) \<Longrightarrow> \<exists>g. xs = g @ dst @ rest"
    and spec_progress: "spec maxlen k xs = Some (c, dst, rest) \<Longrightarrow> c > 0 \<Longrightarrow> length rest < length xs"
begin

lemma drained_cut: "drained spec maxlen k xs c fs rest \<Longrightarrow> \<exists>g. xs = g @ rest"
proof (induction rule: drained.induct)
  case (drained_last xs c dst rest)
  then show ?case using spec_cut [of maxlen k xs c dst rest] by (metis append.assoc)
next
  case (drained_more xs c dst mid c' fs rest)
  then show ?case using spec_cut [of maxlen k xs c dst mid] by (metis append.assoc)
qed

lemma drained_woven: "drained spec maxlen k xs c fs rest \<Longrightarrow> \<exists>g. xs = g @ rest \<and> woven fs g"
proof (induction rule: drained.induct)
  case (drained_last xs c dst rest)
  from spec_cut [OF this(1)] obtain g where g: "xs = (g @ dst @ []) @ rest" by auto
  have "woven [dst] (g @ dst @ [])" by (rule woven_frame [OF woven_none])
  with g show ?case by (auto simp: frames_of_def intro: woven_none)
next
  case (drained_more xs c dst mid c' fs rest)
  from spec_cut [OF drained_more(1)] obtain g where g: "xs = g @ dst @ mid" by auto
  from drained_more obtain h where h: "mid = h @ rest" "woven fs h" by auto
  then have "xs = (g @ dst @ h) @ rest" using g by simp
  moreover have "woven (frames_of dst @ fs) (g @ dst @ h)"
    using h woven_frame [of fs h dst g] woven_prefix [of fs h g] by (auto simp: frames_of_def)
  ultimately show ?case by blast
qed

text \<open>With no undecided call the loop ends, after at most as many turns as there are bytes.\<close>

lemma drained_exists:
  assumes "\<And>zs. length zs \<le> length xs \<Longrightarrow> spec maxlen k zs \<noteq> None"
  shows "\<exists>c fs rest. drained spec maxlen k xs c fs rest"
  using assms
proof (induction "length xs" arbitrary: xs rule: less_induct)
  case less
  from less.prems [of xs] obtain c dst mid where s: "spec maxlen k xs = Some (c, dst, mid)" by auto
  show ?case
  proof (cases "c > 0")
    case False
    with s show ?thesis using drained_last [of spec maxlen k xs c dst mid] by auto
  next
    case True
    from spec_progress [OF s True] have "\<exists>c fs rest. drained spec maxlen k mid c fs rest"
      by (intro less.hyps) (use less.prems in auto)
    with drained_more [of spec, OF s True] show ?thesis by blast
  qed
qed

text \<open>The loop delivers every frame to the consumer, as long as the consumer goes on.\<close>

lemma drain_delivers:
  assumes "drained spec m k (dstf_queue q @ src) c fs rest"
    and "sq_maxlen q = m" "dstf_inv q" "length src \<le> dstf_room q" "length (dstf_queue q @ src) \<le> fuel"
    and "consume_all consume fs st = Some st'"
  shows "\<exists>q'. drain process k consume fuel src (length src) (q, st) = Some (Some c, q', st') \<and>
    dstf_inv q' \<and> dstf_queue q' = rest \<and> sq_maxlen q' = m"
  using assms
proof (induction "dstf_queue q @ src" c fs rest arbitrary: q src st fuel rule: drained.induct)
  case (drained_last c dst rest)
  from process_spec [OF drained_last(4,5) drained_last(1) [folded drained_last(3)]] drained_last(2,3,7) show ?case
    by (auto simp: drain_def drain_turn_def consume_all_frames simp del: length_greater_0_conv)
next
  case (drained_more c dst mid c' fs rest)
  from process_spec [OF drained_more(6,7) drained_more(1) [folded drained_more(5)]] obtain q' where q':
    "process q src (length src) k = Some (c, dst, q')" "dstf_inv q'" "dstf_queue q' = mid"
    "sq_maxlen q' = sq_maxlen q" by blast
  from spec_progress [OF drained_more(1,2)] drained_more(8) have
    lt: "length mid < fuel" by simp
  then obtain n where n: "fuel = Suc n" "length mid \<le> n" by (cases fuel) auto
  obtain st1 where st1: "consume_all consume (frames_of dst) st = Some st1" "consume_all consume fs st1 = Some st'"
    using drained_more(9) by (auto simp: consume_all_append bind_Some_iff)
  have turn: "drain_turn process k consume (src, length src) (q, st) = Some (None, q', st1)"
    using q'(1) drained_more(2) st1(1)
    by (auto simp: drain_turn_def consume_all_frames simp del: length_greater_0_conv)
  have "\<exists>q''. drain process k consume n [] 0 (q', st1) = Some (Some c', q'', st') \<and>
      dstf_inv q'' \<and> dstf_queue q'' = rest \<and> sq_maxlen q'' = m"
    using drained_more(4) [of q' "[]" n st1] q' n drained_more(5) st1(2) by simp
  moreover have "drain process k consume fuel src (length src) (q, st) =
      turns (drain_turn process k consume) ((src, 0) # replicate n (src, 0)) (q', st1)"
    using turn n by (simp add: drain_def)
  moreover have "turns (drain_turn process k consume) (replicate j (src, 0)) s =
      turns (drain_turn process k consume) (replicate j ([], 0)) s" for j s
  proof (induction j arbitrary: s)
    case (Suc j)
    have "drain_turn process k consume (src, 0) s = drain_turn process k consume ([], 0) s"
      by (cases s) (simp add: drain_turn_def process_idle [of _ src])
    with Suc show ?case by (simp cong: option.case_cong)
  qed simp
  from this [of "Suc n"] have
    "turns (drain_turn process k consume) ((src, 0) # replicate n (src, 0)) (q', st1) =
     drain process k consume n [] 0 (q', st1)"
    by (simp add: drain_def)
  ultimately show ?case using q' by auto
qed

lemma drain_refines:
  assumes "drained spec m k (dstf_queue q @ src) c fs rest"
    and "sq_maxlen q = m" "dstf_inv q" "length src \<le> dstf_room q" "length (dstf_queue q @ src) \<le> fuel"
    and consume: "\<And>f st. consume f st = Some (False, step f st)"
  shows "\<exists>q'. drain process k consume fuel src (length src) (q, st) = Some (Some c, q', fold step fs st) \<and>
    dstf_inv q' \<and> dstf_queue q' = rest \<and> sq_maxlen q' = m"
  by (rule drain_delivers [OF assms(1-5) consume_all_fold]) (rule consume)

end

end
