(* ===== verification/Dhav_Framing.thy ===== *)
theory Dhav_Framing
  imports Framer
begin

text \<open>
  \<open>dstf_process_dhav_stream_to_frames\<close> of \<open>src/mctools.c\<close>: the deframer that cuts a DHAV byte stream
  into frames, and the list-level specification it implements. A frame starts with \<open>DHAV\<close>,
  carries its length at offset 12, and ends with \<open>dhav\<close> and the length again.
\<close>

section \<open>The deframer\<close>

datatype dhav_verdict = Incomplete | Whole nat | Garbage | Undetermined

text \<open>One evaluation of the frame that starts at the head of the queue (at least 16 bytes long).\<close>

definition dhav_check :: "dstf \<Rightarrow> dhav_verdict option" where
  "dhav_check q =
     do {
       h \<leftarrow> rd_slice (sq q) (int (sq_offs q)) 4;
       if BT_IDeqLM_32 0x44 0x48 0x41 0x56 h then
         do {
           l \<leftarrow> rd_slice (sq q) (int (sq_offs q + 12)) 4;
           let dhav_rep_len = size_of_int32 (BT_LM2NV_U32 l);
           let dhav_offset = size_sub dhav_rep_len 8;
           if dhav_rep_len > sq_maxlen q then Some Garbage
           else if dhav_rep_len > sq_len q then Some Incomplete
           else do {
             t \<leftarrow> rd_slice (sq q) (ptr_index (sq_offs q) dhav_offset) 4;
             if \<not> BT_IDeqLM_32 0x64 0x68 0x61 0x76 t then Some Garbage
             else do {
               l2 \<leftarrow> rd_slice (sq q) (ptr_index (sq_offs q) dhav_offset + 4) 4;
               if size_of_int32 (BT_LM2NV_U32 l2) \<noteq> dhav_rep_len then Some Garbage
               else Some (Whole dhav_rep_len)
             }
           }
         }
       else Some Garbage
     }"

text \<open>The inner loop: on to the next \<open>DHAV\<close>, or until fewer than 16 bytes are left.\<close>

function dhav_skip :: "dstf \<Rightarrow> dstf option" where
  "dhav_skip q =
     (if sq_len q \<ge> 16 then
        do {
          h \<leftarrow> rd_slice (sq q) (int (sq_offs q)) 4;
          if \<not> BT_IDeqLM_32 0x44 0x48 0x41 0x56 h
          then dhav_skip (q\<lparr>sq_offs := sq_offs q + 1, sq_len := sq_len q - 1\<rparr>)
          else Some q
        }
      else Some q)"
  by pat_completeness auto
termination by (relation "measure sq_len") auto

declare dhav_skip.simps [simp del]

lemma dhav_skip_shrinks: "dhav_skip q = Some q' \<Longrightarrow> sq_len q' \<le> sq_len q"
proof (induction q rule: dhav_skip.induct)
  case (1 q)
  show ?case
  proof (cases "sq_len q \<ge> 16")
    case True
    with "1.prems" obtain h where h: "rd_slice (sq q) (int (sq_offs q)) 4 = Some h"
      by (subst (asm) dhav_skip.simps) (auto simp: bind_Some_iff)
    with "1.prems" "1.IH" [OF True h] True show ?thesis
      by (subst (asm) dhav_skip.simps) (auto split: if_splits)
  next
    case False
    with "1.prems" show ?thesis by (subst (asm) dhav_skip.simps) simp
  qed
qed

text \<open>The outer loop: \<open>Inl\<close> a return code, \<open>Inr\<close> the length of the whole frame at the head.\<close>

function dhav_scan :: "dstf \<Rightarrow> ((int + nat) \<times> dstf) option" where
  "dhav_scan q =
     (if sq_len q < 16 then Some (Inl 0, q)
      else do {
        v \<leftarrow> dhav_check q;
        (case v of
           Incomplete \<Rightarrow> Some (Inl 0, q)
         | Whole dhav_rep_len \<Rightarrow> Some (Inr dhav_rep_len, q)
         | _ \<Rightarrow>
             do {
               q' \<leftarrow> dhav_skip (q\<lparr>sq_offs := sq_offs q + 1, sq_len := sq_len q - 1\<rparr>);
               if sq_len q' < 16 then Some (Inl 3, q') else dhav_scan q'
             })
      })"
  by pat_completeness auto
termination by (relation "measure sq_len") (auto dest: dhav_skip_shrinks)

declare dhav_scan.simps [simp del]

text \<open>The function: return code, the \<open>dst_len\<close> bytes stored at \<open>dst\<close>, and the queue.\<close>

definition dstf_process_dhav_stream_to_frames ::
    "dstf \<Rightarrow> byte list \<Rightarrow> nat \<Rightarrow> nat \<Rightarrow> (int \<times> byte list \<times> dstf) option" where
  "dstf_process_dhav_stream_to_frames q src src_len max_dst_len =
     do {
       loaded \<leftarrow> dstf_load q src src_len;
       (case loaded of
          Inl code \<Rightarrow> Some (code, [], q)
        | Inr q1 \<Rightarrow>
            do {
              (r, q2) \<leftarrow> dhav_scan q1;
              (case r of
                 Inl code \<Rightarrow> Some (code, [], q2)
               | Inr dhav_rep_len \<Rightarrow>
                   if max_dst_len < dhav_rep_len then Some (-3, [], q2)
                   else do {
                     frame \<leftarrow> rd_slice (sq q2) (int (sq_offs q2)) dhav_rep_len;
                     Some (1, frame, dstf_advance dhav_rep_len q2)
                   })
            })
     }"

section \<open>The specification on byte lists\<close>

definition announced :: "byte list \<Rightarrow> nat" where
  "announced xs = size_of_int32 (BT_LM2NV_U32 (take 4 (drop 12 xs)))"

definition closes_at :: "nat \<Rightarrow> byte list \<Rightarrow> bool" where
  "closes_at n xs \<longleftrightarrow> take 4 (drop (n - 8) xs) = str_dhav \<and>
     size_of_int32 (BT_LM2NV_U32 (take 4 (drop (n - 4) xs))) = n"

text \<open>
  An announced length below 8 places the trailer before the frame: what happens then depends on
  bytes that are no longer (or never were) in the queue, and the specification leaves it open.
\<close>

definition verdict :: "nat \<Rightarrow> byte list \<Rightarrow> dhav_verdict" where
  "verdict maxlen xs =
     (if take 4 xs \<noteq> str_DHAV then Garbage
      else let n = announced xs in
        if n < 8 then Undetermined
        else if n > maxlen then Garbage
        else if n > length xs then Incomplete
        else if closes_at n xs then Whole n else Garbage)"

fun dhav_next :: "nat \<Rightarrow> bool \<Rightarrow> byte list \<Rightarrow> ((int + nat) \<times> byte list) option" where
  "dhav_next maxlen skipped [] = Some (Inl (if skipped then 3 else 0), [])"
| "dhav_next maxlen skipped (x # xs) =
     (if length (x # xs) < 16 then Some (Inl (if skipped then 3 else 0), x # xs)
      else case verdict maxlen (x # xs) of
             Incomplete \<Rightarrow> Some (Inl 0, x # xs)
           | Whole n \<Rightarrow> Some (Inr n, x # xs)
           | Garbage \<Rightarrow> dhav_next maxlen True xs
           | Undetermined \<Rightarrow> None)"

lemma dhav_next_short: "length xs < 16 \<Longrightarrow> dhav_next maxlen sk xs = Some (Inl (if sk then 3 else 0), xs)"
  by (cases xs) simp_all

lemma dhav_next_long:
  "16 \<le> length xs \<Longrightarrow> dhav_next maxlen sk xs =
     (case verdict maxlen xs of
        Incomplete \<Rightarrow> Some (Inl 0, xs)
      | Whole n \<Rightarrow> Some (Inr n, xs)
      | Garbage \<Rightarrow> dhav_next maxlen True (tl xs)
      | Undetermined \<Rightarrow> None)"
  by (cases xs) (auto split: dhav_verdict.split)

declare dhav_next.simps [simp del]

section \<open>The deframer implements the specification\<close>

text \<open>What an evaluation at the head of the queue sees.\<close>

lemma header_read:
  "dstf_inv q \<Longrightarrow> 16 \<le> sq_len q \<Longrightarrow> rd_slice (sq q) (int (sq_offs q)) 4 = Some (take 4 (dstf_queue q))"
  using dstf_read [of q 0 4] by simp

lemma dhav_check_verdict:
  assumes inv: "dstf_inv q" and len: "16 \<le> sq_len q"
    and det: "verdict (sq_maxlen q) (dstf_queue q) \<noteq> Undetermined"
  shows "dhav_check q = Some (verdict (sq_maxlen q) (dstf_queue q))"
proof (cases "take 4 (dstf_queue q) = str_DHAV")
  case False
  then show ?thesis
    by (simp add: dhav_check_def header_read [OF inv len] verdict_def str_DHAV_def)
next
  case True
  let ?xs = "dstf_queue q" and ?n = "announced (dstf_queue q)"
  note i = dstf_inv_bounds [OF inv]
  have l: "rd_slice (sq q) (int (sq_offs q + 12)) 4 = Some (take 4 (drop 12 ?xs))"
    by (rule dstf_read) (use inv len in simp_all)
  have n8: "8 \<le> ?n" using det True by (auto simp: verdict_def Let_def split: if_splits)
  have trailer: "rd_slice (sq q) (ptr_index (sq_offs q) (size_sub ?n 8)) 4 = Some (take 4 (drop (?n - 8) ?xs))"
    "rd_slice (sq q) (ptr_index (sq_offs q) (size_sub ?n 8) + 4) 4 = Some (take 4 (drop (?n - 4) ?xs))"
    if fits: "?n \<le> sq_len q"
  proof -
    have s: "size_sub ?n 8 = ?n - 8" using n8 fits i by (simp add: size_sub_ge)
    have p: "ptr_index (sq_offs q) (size_sub ?n 8) = int (sq_offs q + (?n - 8))"
      unfolding s by (rule ptr_index_small) (use fits i in \<open>simp add: less_imp_diff_less\<close>)
    have p4: "ptr_index (sq_offs q) (size_sub ?n 8) + 4 = int (sq_offs q + (?n - 4))"
      unfolding p using n8 by simp
    show "rd_slice (sq q) (ptr_index (sq_offs q) (size_sub ?n 8)) 4 = Some (take 4 (drop (?n - 8) ?xs))"
      unfolding p by (rule dstf_read) (use inv n8 fits in simp_all)
    show "rd_slice (sq q) (ptr_index (sq_offs q) (size_sub ?n 8) + 4) 4 = Some (take 4 (drop (?n - 4) ?xs))"
      unfolding p4 by (rule dstf_read) (use inv n8 fits in simp_all)
  qed
  have "dhav_check q =
    (if ?n > sq_maxlen q then Some Garbage else if ?n > sq_len q then Some Incomplete
     else if closes_at ?n ?xs then Some (Whole ?n) else Some Garbage)"
    using True l trailer
    by (simp add: dhav_check_def header_read [OF inv len] Let_def closes_at_def str_DHAV_def str_dhav_def
        announced_def [symmetric])
  also have "\<dots> = Some (verdict (sq_maxlen q) ?xs)"
    using True n8 length_dstf_queue [OF inv] by (simp add: verdict_def Let_def)
  finally show ?thesis .
qed

text \<open>Stepping over one byte of the queue.\<close>

lemma step_byte:
  assumes "dstf_inv q" "1 \<le> sq_len q"
  shows "q\<lparr>sq_offs := sq_offs q + 1, sq_len := sq_len q - 1\<rparr> = dstf_advance 1 q"
proof -
  have "size_sub (sq_len q) 1 = sq_len q - 1"
    using dstf_inv_bounds [OF assms(1)] assms(2) by (simp add: size_sub_ge)
  then show ?thesis by (simp add: dstf_advance_def)
qed

lemma verdict_no_header: "take 4 xs \<noteq> str_DHAV \<Longrightarrow> verdict maxlen xs = Garbage"
  by (simp add: verdict_def)

definition scans :: "dstf \<Rightarrow> ((int + nat) \<times> byte list) option \<Rightarrow> ((int + nat) \<times> dstf) option \<Rightarrow> bool" where
  "scans q spec impl \<longleftrightarrow> (\<forall>r rest. spec = Some (r, rest) \<longrightarrow>
     (\<exists>q'. impl = Some (r, q') \<and> dstf_inv q' \<and> dstf_queue q' = rest \<and> sq_maxlen q' = sq_maxlen q))"

lemma dhav_skip_next:
  assumes "dstf_inv q"
  shows "\<exists>q'. dhav_skip q = Some q' \<and> dstf_inv q' \<and> sq_maxlen q' = sq_maxlen q \<and>
    dhav_next maxlen True (dstf_queue q') = dhav_next maxlen True (dstf_queue q)"
  using assms
proof (induction q rule: dhav_skip.induct)
  case (1 q)
  show ?case
  proof (cases "16 \<le> sq_len q \<and> take 4 (dstf_queue q) \<noteq> str_DHAV")
    case False
    then have "dhav_skip q = Some q"
      using header_read [OF "1.prems"] by (subst dhav_skip.simps) (auto simp: str_DHAV_def)
    with "1.prems" show ?thesis by blast
  next
    case True
    let ?q = "dstf_advance 1 q"
    note adv = dstf_advance_ok [OF "1.prems", of 1]
    have q1: "q\<lparr>sq_offs := sq_offs q + 1, sq_len := sq_len q - 1\<rparr> = ?q"
      by (rule step_byte) (use "1.prems" True in simp_all)
    have h: "rd_slice (sq q) (int (sq_offs q)) 4 = Some (take 4 (dstf_queue q))"
      using header_read "1.prems" True by simp
    have no: "\<not> BT_IDeqLM_32 0x44 0x48 0x41 0x56 (take 4 (dstf_queue q))"
      using True by (simp add: str_DHAV_def)
    from "1.IH" [OF _ h no] True adv obtain q' where q':
      "dhav_skip ?q = Some q'" "dstf_inv q'" "sq_maxlen q' = sq_maxlen ?q"
      "dhav_next maxlen True (dstf_queue q') = dhav_next maxlen True (dstf_queue ?q)"
      unfolding q1 by auto
    have "dhav_next maxlen True (dstf_queue q) = dhav_next maxlen True (dstf_queue ?q)"
      using True adv length_dstf_queue [OF "1.prems"]
      by (simp add: dhav_next_long verdict_no_header drop_Suc)
    moreover have "dhav_skip q = dhav_skip ?q"
      using True h no q1 by (subst dhav_skip.simps) simp
    ultimately show ?thesis using q' adv True by auto
  qed
qed

lemma dhav_scan_next:
  assumes "dstf_inv q"
  shows "scans q (dhav_next (sq_maxlen q) False (dstf_queue q)) (dhav_scan q) \<and>
    (sq_len q \<ge> 16 \<longrightarrow> scans q (dhav_next (sq_maxlen q) True (dstf_queue q)) (dhav_scan q))"
  using assms
proof (induction "sq_len q" arbitrary: q rule: less_induct)
  case less
  note len = length_dstf_queue [OF less.prems]
  show ?case
  proof (cases "sq_len q < 16")
    case True
    then show ?thesis using less.prems len
      by (subst dhav_scan.simps) (simp add: scans_def dhav_next_short)
  next
    case False
    then have q16: "16 \<le> sq_len q" by simp
    let ?xs = "dstf_queue q" and ?m = "sq_maxlen q"
    have nxt: "dhav_next ?m sk ?xs = (case verdict ?m ?xs of
          Incomplete \<Rightarrow> Some (Inl 0, ?xs) | Whole n \<Rightarrow> Some (Inr n, ?xs)
        | Garbage \<Rightarrow> dhav_next ?m True (tl ?xs) | Undetermined \<Rightarrow> None)" for sk
      by (rule dhav_next_long) (use q16 len in simp)
    have "scans q (dhav_next ?m sk ?xs) (dhav_scan q)" for sk
    proof (cases "verdict ?m ?xs = Garbage")
      case False
      show ?thesis
      proof (cases "verdict ?m ?xs = Undetermined")
        case True
        then show ?thesis by (simp add: nxt scans_def)
      next
        case det: False
        note check = dhav_check_verdict [OF less.prems q16 det]
        have "dhav_scan q = (case verdict ?m ?xs of
            Incomplete \<Rightarrow> Some (Inl 0, q) | Whole n \<Rightarrow> Some (Inr n, q) | _ \<Rightarrow> undefined)"
          using q16 check False det by (subst dhav_scan.simps) (simp split: dhav_verdict.split)
        then show ?thesis
          using False det less.prems by (auto simp: nxt scans_def split: dhav_verdict.splits)
      qed
    next
      case True
      let ?q = "dstf_advance 1 q"
      note adv = dstf_advance_ok [OF less.prems, of 1]
      have q1: "q\<lparr>sq_offs := sq_offs q + 1, sq_len := sq_len q - 1\<rparr> = ?q"
        by (rule step_byte) (use less.prems q16 in simp_all)
      have check: "dhav_check q = Some Garbage"
        using dhav_check_verdict [OF less.prems q16] True by simp
      have inv1: "dstf_inv ?q" "dstf_queue ?q = tl ?xs" "sq_len ?q = sq_len q - 1" "sq_maxlen ?q = ?m"
        using adv q16 by (simp_all add: drop_Suc)
      from dhav_skip_next [OF inv1(1), of ?m] obtain q' where q':
        "dhav_skip ?q = Some q'" "dstf_inv q'" "sq_maxlen q' = ?m"
        "dhav_next ?m True (dstf_queue q') = dhav_next ?m True (tl ?xs)"
        using inv1 by auto
      have scan: "dhav_scan q = (if sq_len q' < 16 then Some (Inl 3, q') else dhav_scan q')"
        using q16 check q1 q'(1) by (subst dhav_scan.simps) simp
      have spec: "dhav_next ?m sk ?xs = dhav_next ?m True (dstf_queue q')"
        using True q'(4) by (simp add: nxt)
      show ?thesis
      proof (cases "sq_len q' < 16")
        case True
        then have "dhav_next ?m sk ?xs = Some (Inl 3, dstf_queue q')"
          unfolding spec by (simp add: dhav_next_short length_dstf_queue [OF q'(2)])
        then show ?thesis using True scan q' by (simp add: scans_def)
      next
        case False
        have "sq_len q' < sq_len q"
          using dhav_skip_shrinks [OF q'(1)] inv1 q16 by simp
        from less.hyps [OF this q'(2)] False q'(3) scan spec show ?thesis
          by (simp add: scans_def)
      qed
    qed
    then show ?thesis by blast
  qed
qed

text \<open>The whole function on a queue with room for the data, whenever the specification decides.\<close>

definition dhav_spec :: "nat \<Rightarrow> nat \<Rightarrow> byte list \<Rightarrow> (int \<times> byte list \<times> byte list) option" where
  "dhav_spec maxlen max_dst_len xs =
     (case dhav_next maxlen False xs of
        None \<Rightarrow> None
      | Some (Inl c, rest) \<Rightarrow> Some (c, [], rest)
      | Some (Inr n, rest) \<Rightarrow>
          Some (if max_dst_len < n then (-3, [], rest) else (1, take n rest, drop n rest)))"

lemma dhav_next_len:
  "dhav_next maxlen sk xs = Some (Inr n, rest) \<Longrightarrow> 8 \<le> n \<and> n \<le> length rest \<and> n \<le> maxlen \<and>
     16 \<le> length rest \<and> take 4 rest = str_DHAV \<and> announced rest = n \<and> closes_at n rest"
proof (induction xs arbitrary: sk)
  case (Cons x xs)
  then show ?case
    by (cases "length (x # xs) < 16")
       (auto simp: dhav_next_short dhav_next_long verdict_def Let_def simp del: list.size
          split: dhav_verdict.splits if_splits)
qed (simp add: dhav_next_short)

lemma dhav_process_spec:
  assumes inv: "dstf_inv q" and room: "length src \<le> dstf_room q"
    and spec: "dhav_spec (sq_maxlen q) max_dst_len (dstf_queue q @ src) = Some (c, dst, rest)"
  shows "\<exists>q'. dstf_process_dhav_stream_to_frames q src (length src) max_dst_len = Some (c, dst, q') \<and>
    dstf_inv q' \<and> dstf_queue q' = rest \<and> sq_maxlen q' = sq_maxlen q"
proof -
  from dstf_load_ok [OF inv room] obtain q1 where q1:
    "dstf_load q src (length src) = Some (Inr q1)" "dstf_inv q1" "dstf_queue q1 = dstf_queue q @ src"
    "sq_maxlen q1 = sq_maxlen q" by blast
  from spec obtain r mid where nxt: "dhav_next (sq_maxlen q1) False (dstf_queue q1) = Some (r, mid)"
    using q1 by (auto simp: dhav_spec_def split: option.splits)
  then obtain q2 where q2: "dhav_scan q1 = Some (r, q2)" "dstf_inv q2" "dstf_queue q2 = mid"
    "sq_maxlen q2 = sq_maxlen q"
    using dhav_scan_next [OF q1(2)] q1(4) by (auto simp: scans_def)
  show ?thesis
  proof (cases r)
    case (Inl code)
    then show ?thesis
      using spec nxt q1 q2 by (auto simp: dstf_process_dhav_stream_to_frames_def dhav_spec_def)
  next
    case (Inr n)
    have n: "n \<le> sq_len q2" using dhav_next_len nxt Inr q2 length_dstf_queue by metis
    from dstf_read [OF q2(2), of 0 n] n have
      "rd_slice (sq q2) (int (sq_offs q2)) n = Some (take n mid)" using q2(3) by simp
    with dstf_advance_ok [OF q2(2) n] Inr spec nxt q1 q2 show ?thesis
      by (auto simp: dstf_process_dhav_stream_to_frames_def dhav_spec_def split: if_splits)
  qed
qed

section \<open>The deframer as a framer\<close>

lemma dhav_next_suffix: "dhav_next maxlen sk xs = Some (r, rest) \<Longrightarrow> \<exists>g. xs = g @ rest"
proof (induction xs arbitrary: sk)
  case (Cons x xs)
  show ?case
  proof (cases "length (x # xs) < 16 \<or> verdict maxlen (x # xs) \<noteq> Garbage")
    case True
    with Cons.prems have "rest = x # xs"
      by (cases "length (x # xs) < 16")
         (auto simp: dhav_next_short dhav_next_long simp del: list.size split: dhav_verdict.splits)
    then show ?thesis by simp
  next
    case False
    with Cons.prems have "dhav_next maxlen True xs = Some (r, rest)"
      by (simp add: dhav_next_long)
    from Cons.IH [OF this] show ?thesis by (metis append_Cons)
  qed
qed (simp add: dhav_next_short)

lemma dhav_next_code:
  assumes "dhav_next maxlen False xs = Some (Inl c, rest)" "c > 0"
  shows "length rest < length xs"
proof (cases "length xs < 16")
  case True
  with assms show ?thesis by (simp add: dhav_next_short)
next
  case False
  then have ne: "xs \<noteq> []" by auto
  have "verdict maxlen xs = Garbage"
    using False assms by (auto simp: dhav_next_long split: dhav_verdict.splits)
  with False assms have "dhav_next maxlen True (tl xs) = Some (Inl c, rest)"
    by (simp add: dhav_next_long)
  from dhav_next_suffix [OF this] obtain g where "tl xs = g @ rest" ..
  then have "length rest \<le> length (tl xs)" by simp
  also have "\<dots> < length xs" using ne by simp
  finally show ?thesis .
qed

lemma dhav_spec_cut:
  assumes "dhav_spec maxlen k xs = Some (c, dst, rest)"
  shows "\<exists>g. xs = g @ dst @ rest"
proof -
  from assms obtain r mid where nxt: "dhav_next maxlen False xs = Some (r, mid)"
    by (auto simp: dhav_spec_def split: option.splits)
  from dhav_next_suffix [OF this] obtain g where "xs = g @ mid" ..
  moreover have "mid = dst @ rest"
    using assms nxt by (cases r) (auto simp: dhav_spec_def split: if_splits)
  ultimately show ?thesis by auto
qed

lemma dhav_spec_progress:
  assumes "dhav_spec maxlen k xs = Some (c, dst, rest)" "c > 0"
  shows "length rest < length xs"
proof -
  from assms obtain r mid where nxt: "dhav_next maxlen False xs = Some (r, mid)"
    by (auto simp: dhav_spec_def split: option.splits)
  show ?thesis
  proof (cases r)
    case (Inl code)
    with assms nxt dhav_next_code show ?thesis by (auto simp: dhav_spec_def)
  next
    case (Inr n)
    with assms nxt have "rest = drop n mid" by (auto simp: dhav_spec_def split: if_splits)
    moreover have "8 \<le> n" "n \<le> length mid" using dhav_next_len nxt Inr by blast+
    moreover have "length mid \<le> length xs" using dhav_next_suffix [OF nxt] by auto
    ultimately show ?thesis by simp
  qed
qed

interpretation dhav: framer dstf_process_dhav_stream_to_frames dhav_spec
proof unfold_locales
  fix q src k c dst rest
  assume "dstf_inv q" "length src \<le> dstf_room q"
    "dhav_spec (sq_maxlen q) k (dstf_queue q @ src) = Some (c, dst, rest)"
  then show "\<exists>q'. dstf_process_dhav_stream_to_frames q src (length src) k = Some (c, dst, q') \<and>
      dstf_inv q' \<and> dstf_queue q' = rest \<and> sq_maxlen q' = sq_maxlen q"
    by (rule dhav_process_spec)
qed (auto simp: dstf_process_dhav_stream_to_frames_def dstf_load_def Let_def
      intro: dhav_spec_cut dhav_spec_progress)

section \<open>Whole streams\<close>

lemma dhav_next_consumes: "dhav_next maxlen sk xs = Some (Inr n, rest) \<Longrightarrow> length (drop n rest) < length xs"
  using dhav_next_len [of maxlen sk xs n rest] dhav_next_suffix [of maxlen sk xs "Inr n" rest] by auto

text \<open>All the frames of a byte list, and what is left over at its end.\<close>

function dhav_deframe :: "nat \<Rightarrow> byte list \<Rightarrow> (byte list list \<times> byte list) option" where
  "dhav_deframe maxlen xs =
     (case dhav_next maxlen False xs of
        None \<Rightarrow> None
      | Some (Inl c, rest) \<Rightarrow> Some ([], rest)
      | Some (Inr n, rest) \<Rightarrow>
          map_option (\<lambda>(fs, rest'). (take n rest # fs, rest')) (dhav_deframe maxlen (drop n rest)))"
  by pat_completeness auto
termination by (relation "measure (\<lambda>(maxlen, xs). length xs)") (auto dest: dhav_next_consumes)

declare dhav_deframe.simps [simp del]

lemma dhav_deframe_rest_short:
  assumes "dhav_next maxlen sk xs = Some (Inl c, rest)"
  shows "dhav_next maxlen False rest = Some (Inl 0, rest)"
  using assms
proof (induction xs arbitrary: sk)
  case (Cons x xs)
  show ?case
  proof (cases "length (x # xs) < 16")
    case True
    with Cons.prems show ?thesis by (auto simp: dhav_next_short simp del: list.size)
  next
    case False
    with Cons show ?thesis
      by (auto simp: dhav_next_long simp del: list.size split: dhav_verdict.splits)
  qed
qed (simp add: dhav_next_short)

lemma dhav_next_codes: "dhav_next maxlen sk xs = Some (Inl c, rest) \<Longrightarrow> c = 0 \<or> c = 3"
proof (induction xs arbitrary: sk)
  case (Cons x xs)
  then show ?case
    by (cases "length (x # xs) < 16")
       (auto simp: dhav_next_short dhav_next_long simp del: list.size
          split: dhav_verdict.splits if_splits)
qed (auto simp: dhav_next_short split: if_splits)

text \<open>The caller's loop delivers exactly these frames.\<close>

lemma dhav_deframe_drained:
  "dhav_deframe maxlen xs = Some (fs, rest) \<Longrightarrow> maxlen \<le> k \<Longrightarrow> drained dhav_spec maxlen k xs 0 fs rest"
proof (induction maxlen xs arbitrary: fs rest rule: dhav_deframe.induct)
  case (1 maxlen xs)
  from "1.prems"(1) obtain r mid where nxt: "dhav_next maxlen False xs = Some (r, mid)"
    by (subst (asm) dhav_deframe.simps) (auto split: option.splits)
  show ?case
  proof (cases r)
    case (Inl c)
    then have fr: "fs = []" "rest = mid"
      using "1.prems"(1) nxt by (simp_all add: dhav_deframe.simps [of maxlen xs])
    have spec: "dhav_spec maxlen k xs = Some (c, [], mid)"
      using nxt Inl by (simp add: dhav_spec_def)
    show ?thesis
    proof (cases "c > 0")
      case True
      have "dhav_spec maxlen k mid = Some (0, [], mid)"
        using dhav_deframe_rest_short nxt Inl by (fastforce simp: dhav_spec_def)
      from drained_last [of dhav_spec, OF this]
      have "drained dhav_spec maxlen k mid 0 [] mid" by (simp add: frames_of_def)
      from drained_more [of dhav_spec, OF spec True this] fr show ?thesis by (simp add: frames_of_def)
    next
      case False
      then have "c = 0" using dhav_next_codes nxt Inl by fastforce
      with drained_last [of dhav_spec, OF spec] fr show ?thesis by (simp add: frames_of_def)
    qed
  next
    case (Inr n)
    from "1.prems"(1) nxt Inr obtain gs where
      gs: "dhav_deframe maxlen (drop n mid) = Some (gs, rest)" "fs = take n mid # gs"
      by (subst (asm) dhav_deframe.simps) auto
    have n: "8 \<le> n" "n \<le> length mid" "n \<le> maxlen" using dhav_next_len nxt Inr by blast+
    have spec: "dhav_spec maxlen k xs = Some (1, take n mid, drop n mid)"
      using nxt Inr n "1.prems"(2) by (simp add: dhav_spec_def)
    have "drained dhav_spec maxlen k (drop n mid) 0 gs rest"
      by (rule "1.IH" [OF nxt refl Inr gs(1) "1.prems"(2)])
    moreover have "mid \<noteq> []" using n by auto
    ultimately show ?thesis
      using drained_more [of dhav_spec, OF spec] gs(2) n by (simp add: frames_of_def)
  qed
qed

section \<open>Data arriving in pieces\<close>

lemma verdict_append:
  assumes "16 \<le> length xs" "verdict maxlen xs \<noteq> Incomplete"
  shows "verdict maxlen (xs @ ys) = verdict maxlen xs"
proof -
  have a: "announced (xs @ ys) = announced xs" "take 4 (xs @ ys) = take 4 xs"
    using assms(1) by (simp_all add: announced_def)
  have "closes_at (announced xs) (xs @ ys) = closes_at (announced xs) xs"
    if "8 \<le> announced xs" "announced xs \<le> length xs"
    using that by (simp add: closes_at_def)
  then show ?thesis
    using assms(2) unfolding verdict_def a Let_def by (auto split: if_splits)
qed

lemma dhav_next_append:
  "(case dhav_next maxlen sk xs of
      None \<Rightarrow> dhav_next maxlen sk (xs @ ys) = None
    | Some (Inl c, rest) \<Rightarrow> (\<exists>sk'. dhav_next maxlen sk (xs @ ys) = dhav_next maxlen sk' (rest @ ys))
    | Some (Inr n, rest) \<Rightarrow> dhav_next maxlen sk (xs @ ys) = Some (Inr n, rest @ ys))"
proof (induction xs arbitrary: sk)
  case Nil
  show ?case by (auto simp: dhav_next_short)
next
  case (Cons x xs)
  show ?case
  proof (cases "length (x # xs) < 16 \<or> verdict maxlen (x # xs) = Incomplete")
    case True
    then have "\<exists>c. dhav_next maxlen sk (x # xs) = Some (Inl c, x # xs)"
      by (cases "length (x # xs) < 16") (auto simp: dhav_next_short dhav_next_long simp del: list.size)
    then show ?thesis by auto
  next
    case False
    then have l: "16 \<le> length (x # xs)" "16 \<le> length (x # xs @ ys)" by auto
    have v: "verdict maxlen (x # xs @ ys) = verdict maxlen (x # xs)"
      using verdict_append [of "x # xs" maxlen ys] False by simp
    show ?thesis
      using Cons.IH [of True] False v
      unfolding append_Cons dhav_next_long [OF l(1)] dhav_next_long [OF l(2)] v list.sel
      by (auto split: dhav_verdict.splits)
  qed
qed

lemma dhav_deframe_flag:
  "dhav_deframe maxlen xs =
     (case dhav_next maxlen sk xs of
        None \<Rightarrow> None
      | Some (Inl c, rest) \<Rightarrow> Some ([], rest)
      | Some (Inr n, rest) \<Rightarrow>
          map_option (\<lambda>(fs, rest'). (take n rest # fs, rest')) (dhav_deframe maxlen (drop n rest)))"
proof (cases "length xs < 16")
  case True
  then show ?thesis by (subst dhav_deframe.simps) (simp add: dhav_next_short)
next
  case False
  then show ?thesis
    by (subst dhav_deframe.simps) (simp add: dhav_next_long split: dhav_verdict.split)
qed

lemma dhav_deframe_append:
  "dhav_deframe maxlen (xs @ ys) =
     do { (fs, r) \<leftarrow> dhav_deframe maxlen xs;
          map_option (\<lambda>(gs, r'). (fs @ gs, r')) (dhav_deframe maxlen (r @ ys)) }"
proof (induction maxlen xs rule: dhav_deframe.induct)
  case (1 maxlen xs)
  note app = dhav_next_append [of maxlen False xs ys]
  show ?case
  proof (cases "dhav_next maxlen False xs")
    case None
    with app show ?thesis by (simp add: dhav_deframe.simps [of maxlen xs] dhav_deframe.simps [of maxlen "xs @ ys"])
  next
    case (Some res)
    obtain r rest where res: "res = (r, rest)" by fastforce
    show ?thesis
    proof (cases r)
      case (Inl c)
      with app Some res obtain sk' where
        "dhav_next maxlen False (xs @ ys) = dhav_next maxlen sk' (rest @ ys)" by auto
      then have "dhav_deframe maxlen (xs @ ys) = dhav_deframe maxlen (rest @ ys)"
        by (subst dhav_deframe_flag [of _ _ False], subst (2) dhav_deframe_flag [of _ _ sk']) simp
      then show ?thesis using Some res Inl
        by (simp add: dhav_deframe.simps [of maxlen xs] case_prod_eta option.map_id)
    next
      case (Inr n)
      have n: "n \<le> length rest" using dhav_next_len Some res Inr by blast
      from "1.IH" [OF Some res [symmetric] Inr] app Some res Inr n show ?thesis
        by (cases "dhav_deframe maxlen (drop n rest)")
           (auto simp: dhav_deframe.simps [of maxlen xs] dhav_deframe.simps [of maxlen "xs @ ys"]
              option.map_comp o_def case_prod_beta)
    qed
  qed
qed

end
