(* ===== verification/Dhav_Frames.thy ===== *)
theory Dhav_Frames
  imports Dhav_Framing
begin

text \<open>
  What the deframer of \<open>src/mctools.c\<close> makes of a stream of frames, at the level of lists: of whole
  frames, of a frame that is still arriving, and of the streams of several sessions. When a session
  ends inside a frame and another one is started, the deframer finds a frame whose trailer is missing,
  with the frames of the new session behind and partly inside its announced length. It skips to the
  next \<open>DHAV\<close>, so only the broken frame is lost, but not before as many bytes have arrived as the
  broken frame announced.
\<close>

section \<open>Frames\<close>

definition dhav_frame :: "byte list \<Rightarrow> bool" where
  "dhav_frame f \<longleftrightarrow> 16 \<le> length f \<and> take 4 f = str_DHAV \<and> announced f = length f \<and> closes_at (length f) f"

text \<open>A frame around a body: type and channel bytes, sequence fields, and both length fields.\<close>

definition dhav_wrap :: "byte list \<Rightarrow> byte list \<Rightarrow> byte list" where
  "dhav_wrap hdr body =
     (let n = BT_NV2LM_U32 (of_nat (24 + length body))
      in str_DHAV @ hdr @ n @ body @ str_dhav @ n)"

lemma dhav_wrap_frame:
  assumes "length hdr = 8" "length body < 2 ^ 31 - 24"
  shows "dhav_frame (dhav_wrap hdr body)" "length (dhav_wrap hdr body) = 24 + length body"
proof -
  let ?n = "24 + length body"
  have s: "length str_DHAV = 4" "length str_dhav = 4" by (simp_all add: str_DHAV_def str_dhav_def)
  show len: "length (dhav_wrap hdr body) = ?n"
    using assms s by (simp add: dhav_wrap_def Let_def)
  have rt: "size_of_int32 (of_nat ?n :: u32) = ?n"
    by (rule size_of_int32_of_nat) (use assms in simp)
  have "take 4 (drop 12 (dhav_wrap hdr body)) = BT_NV2LM_U32 (of_nat ?n)"
    using assms s by (simp add: dhav_wrap_def Let_def del: of_nat_add)
  moreover have "drop (?n - 8) (dhav_wrap hdr body) = str_dhav @ BT_NV2LM_U32 (of_nat ?n)"
    using assms s by (simp add: dhav_wrap_def Let_def del: of_nat_add)
  moreover have "drop (?n - 4) (dhav_wrap hdr body) = BT_NV2LM_U32 (of_nat ?n)"
    using assms s by (simp add: dhav_wrap_def Let_def del: of_nat_add)
  moreover have "take 4 (dhav_wrap hdr body) = str_DHAV"
    using s by (simp add: dhav_wrap_def Let_def)
  ultimately show "dhav_frame (dhav_wrap hdr body)"
    unfolding dhav_frame_def len announced_def closes_at_def
    using s rt by (simp del: of_nat_add)
qed

text \<open>A started frame is waited for; a complete one is delivered, whatever follows it.\<close>

definition started :: "nat \<Rightarrow> byte list \<Rightarrow> bool" where
  "started L p \<longleftrightarrow> (\<exists>f j. dhav_frame f \<and> length f \<le> L \<and> j < length f \<and> p = take j f)"

lemma dhav_deframe_started:
  assumes "started L p" "L \<le> maxlen"
  shows "dhav_deframe maxlen p = Some ([], p)"
proof -
  from assms obtain f j where f: "dhav_frame f" "length f \<le> maxlen" "j < length f" "p = take j f"
    by (auto simp: started_def)
  have "dhav_next maxlen False p = Some (Inl 0, p)"
  proof (cases "16 \<le> length p")
    case False
    then show ?thesis by (simp add: dhav_next_short)
  next
    case True
    then have "16 \<le> j" using f by simp
    then have "take 4 p = str_DHAV" "announced p = length f"
      using f by (simp_all add: dhav_frame_def announced_def take_drop_take min_def)
    moreover have "length p < length f" "8 \<le> length f" using f \<open>16 \<le> j\<close> by simp_all
    ultimately have "verdict maxlen p = Incomplete" using f by (simp add: verdict_def Let_def)
    with True show ?thesis by (simp add: dhav_next_long)
  qed
  then show ?thesis by (simp add: dhav_deframe.simps [of maxlen p])
qed

lemma dhav_deframe_frame:
  assumes "dhav_frame f" "length f \<le> maxlen"
  shows "dhav_deframe maxlen (f @ ys) = map_option (\<lambda>(fs, r). (f # fs, r)) (dhav_deframe maxlen ys)"
proof -
  have "verdict maxlen f = Whole (length f)"
    using assms by (auto simp: dhav_frame_def verdict_def Let_def)
  then have "verdict maxlen (f @ ys) = Whole (length f)"
    using verdict_append [of f maxlen ys] assms by (simp add: dhav_frame_def)
  then have "dhav_next maxlen False (f @ ys) = Some (Inr (length f), f @ ys)"
    using assms by (simp add: dhav_next_long dhav_frame_def)
  then show ?thesis by (subst dhav_deframe.simps) simp
qed

lemma dhav_deframe_frames:
  "\<forall>f \<in> set fs. dhav_frame f \<and> length f \<le> maxlen \<Longrightarrow>
   dhav_deframe maxlen (concat fs @ ys) = map_option (\<lambda>(gs, r). (fs @ gs, r)) (dhav_deframe maxlen ys)"
  by (induction fs; cases "dhav_deframe maxlen ys") (auto simp: dhav_deframe_frame)

text \<open>Every initial part leaves less than a frame in the queue.\<close>

definition settles :: "nat \<Rightarrow> nat \<Rightarrow> byte list \<Rightarrow> bool" where
  "settles L maxlen xs \<longleftrightarrow> (\<forall>zs ys. xs = zs @ ys \<longrightarrow> (\<exists>gs r. dhav_deframe maxlen zs = Some (gs, r) \<and> length r < L))"

lemma settlesD: "settles L maxlen (zs @ ys) \<Longrightarrow> dhav_deframe maxlen zs = Some (gs, r) \<Longrightarrow> length r < L"
  by (fastforce simp: settles_def)

lemma settles_part: "settles L maxlen (zs @ ys) \<Longrightarrow> settles L maxlen zs"
  by (simp add: settles_def)

lemma settles_started:
  assumes "started L p" "L \<le> maxlen"
  shows "settles L maxlen p"
  unfolding settles_def
proof (intro allI impI)
  fix zs ys assume p: "p = zs @ ys"
  obtain f j where f: "dhav_frame f" "length f \<le> L" "j < length f" "p = take j f"
    using assms(1) by (auto simp: started_def)
  have "zs = take (length zs) (zs @ ys)" by simp
  also have "\<dots> = take (min (length zs) j) f" unfolding p [symmetric] f(4) by simp
  finally have z: "zs = take (min (length zs) j) f" .
  moreover have l: "min (length zs) j < length f" using f by simp
  ultimately have "started L zs" using f unfolding started_def by blast
  moreover have "length zs < L" using arg_cong [OF z, of length] l f(2) by simp
  ultimately show "\<exists>gs r. dhav_deframe maxlen zs = Some (gs, r) \<and> length r < L"
    using dhav_deframe_started assms(2) by blast
qed

lemma settles_frame:
  assumes "dhav_frame f" "length f \<le> L" "L \<le> maxlen" "settles L maxlen xs"
  shows "settles L maxlen (f @ xs)"
  unfolding settles_def
proof (intro allI impI)
  fix zs ys assume e: "f @ xs = zs @ ys"
  show "\<exists>gs r. dhav_deframe maxlen zs = Some (gs, r) \<and> length r < L"
  proof (cases "length zs < length f")
    case True
    then obtain u where "f = zs @ u" using append_overlap [OF e [symmetric]] by auto
    then have "started L zs" using assms(1,2) True unfolding started_def by (intro exI [of _ f] exI [of _ "length zs"]) simp
    then show ?thesis using dhav_deframe_started [OF _ assms(3)] True assms(2) by auto
  next
    case False
    then obtain u where u: "zs = f @ u" "xs = u @ ys" using append_overlap [OF e] by auto
    then obtain gs r where "dhav_deframe maxlen u = Some (gs, r)" "length r < L" using assms(4) by (auto simp: settles_def)
    then show ?thesis using dhav_deframe_frame [OF assms(1), of maxlen u] assms(2,3) u(1) by auto
  qed
qed

lemma settles_frames:
  "\<forall>f \<in> set fs. dhav_frame f \<and> length f \<le> L \<Longrightarrow> L \<le> maxlen \<Longrightarrow> settles L maxlen xs \<Longrightarrow> settles L maxlen (concat fs @ xs)"
  by (induction fs) (auto intro: settles_frame)

section \<open>Skipping\<close>

lemma skip_to_header:
  assumes "\<forall>i < length g. take 4 (drop i (g @ rest)) \<noteq> str_DHAV" "16 \<le> length rest"
  shows "dhav_next maxlen True (g @ rest) = dhav_next maxlen True rest"
  using assms(1)
proof (induction g)
  case (Cons x g)
  have "take 4 ((x # g) @ rest) \<noteq> str_DHAV" using Cons.prems by (metis drop_0 length_greater_0_conv list.distinct(1))
  then have "dhav_next maxlen True ((x # g) @ rest) = dhav_next maxlen True (g @ rest)"
    using assms(2) by (simp add: dhav_next_long verdict_no_header)
  moreover have "\<forall>i < length g. take 4 (drop i (g @ rest)) \<noteq> str_DHAV"
    using Cons.prems by fastforce
  ultimately show ?case using Cons.IH by simp
qed simp

lemma skip_to_end:
  assumes "\<forall>i < length g. 16 \<le> length (drop i (g @ u)) \<longrightarrow> take 4 (drop i (g @ u)) \<noteq> str_DHAV" "length u < 16"
  shows "\<exists>c r. dhav_next maxlen True (g @ u) = Some (Inl c, r) \<and> length r < 16"
  using assms(1)
proof (induction g)
  case Nil
  then show ?case using assms(2) by (simp add: dhav_next_short)
next
  case (Cons x g)
  show ?case
  proof (cases "length ((x # g) @ u) < 16")
    case True
    then show ?thesis by (simp add: dhav_next_short del: append_Cons)
  next
    case False
    then have "take 4 ((x # g) @ u) \<noteq> str_DHAV" using Cons.prems [rule_format, of 0] by simp
    then have "dhav_next maxlen True ((x # g) @ u) = dhav_next maxlen True (g @ u)"
      using False by (simp add: dhav_next_long verdict_no_header)
    moreover have "\<forall>i < length g. 16 \<le> length (drop i (g @ u)) \<longrightarrow> take 4 (drop i (g @ u)) \<noteq> str_DHAV"
      using Cons.prems by fastforce
    ultimately show ?thesis using Cons.IH by simp
  qed
qed

section \<open>A broken frame\<close>

text \<open>
  \<open>t\<close> is what has come of a frame, \<open>rest\<close> what follows of the next session. At least the length field
  has come, no \<open>DHAV\<close> stands in what has come, and what stands at the announced end of the frame is
  not its trailer.
\<close>

definition broken :: "nat \<Rightarrow> byte list \<Rightarrow> byte list \<Rightarrow> bool" where
  "broken L t rest \<longleftrightarrow> (\<exists>f. dhav_frame f \<and> length f \<le> L \<and> t = take (length t) f \<and> 16 \<le> length t \<and> length t < length f \<and>
     length f \<le> length (t @ rest) \<and> \<not> closes_at (length f) (t @ rest)) \<and>
     (\<forall>i. 0 < i \<and> i < length t \<longrightarrow> take 4 (drop i (t @ rest)) \<noteq> str_DHAV)"

lemma no_other_header:
  assumes "0x44 \<notin> set (tl t)"
  shows "\<forall>i. 0 < i \<and> i < length t \<longrightarrow> take 4 (drop i (t @ rest)) \<noteq> str_DHAV"
proof (intro allI impI notI)
  fix i assume i: "0 < i \<and> i < length t" and "take 4 (drop i (t @ rest)) = str_DHAV"
  then have "hd (take 4 (drop i (t @ rest))) = 0x44" by (simp add: str_DHAV_def)
  then have "t ! i = 0x44" using i by (simp add: hd_drop_conv_nth nth_append)
  moreover have "t ! i \<in> set (tl t)" using i by (cases t) (auto simp: nth_Cons split: nat.splits)
  ultimately show False using assms by simp
qed

text \<open>The head of a frame of which the length has come.\<close>

lemma headed_verdict:
  assumes "dhav_frame f" "length f \<le> maxlen" "16 \<le> length xs" "take 16 xs = take 16 f"
  shows "verdict maxlen xs = (if length xs < length f then Incomplete else if closes_at (length f) xs then Whole (length f) else Garbage)"
proof -
  have "take 4 (take 16 xs) = take 4 (take 16 f)" "drop 12 (take 16 xs) = drop 12 (take 16 f)" unfolding assms(4) by (rule refl)+
  then have "take 4 xs = str_DHAV" "take 4 (drop 12 xs) = take 4 (drop 12 f)" using assms(1) by (simp_all add: dhav_frame_def drop_take)
  moreover from this(2) have "announced xs = length f" using assms(1) by (simp add: announced_def dhav_frame_def)
  moreover have "8 \<le> length f" using assms(1) by (simp add: dhav_frame_def)
  ultimately show ?thesis using assms(2) by (simp add: verdict_def Let_def)
qed


lemma broken_skipped:
  assumes "broken L t rest" "L \<le> maxlen" "16 \<le> length rest"
  shows "dhav_deframe maxlen (t @ rest) = dhav_deframe maxlen rest"
proof -
  obtain f where f: "dhav_frame f" "length f \<le> L" "t = take (length t) f" "16 \<le> length t" "length t < length f"
      "length f \<le> length (t @ rest)" "\<not> closes_at (length f) (t @ rest)"
    and clean: "\<forall>i. 0 < i \<and> i < length t \<longrightarrow> take 4 (drop i (t @ rest)) \<noteq> str_DHAV"
    using assms(1) by (auto simp: broken_def)
  have "take 16 t = take 16 f" using f(4,5) by (subst f(3)) simp
  then have "verdict maxlen (t @ rest) = Garbage"
    using headed_verdict [OF f(1), of maxlen "t @ rest"] f(2,4,6,7) assms(2) by simp
  moreover obtain x t' where t: "t = x # t'" using f(4) by (cases t) auto
  have "\<forall>i < length t'. take 4 (drop i (t' @ rest)) \<noteq> str_DHAV" using clean unfolding t by fastforce
  note skip_to_header [OF this assms(3), of maxlen]
  ultimately have "dhav_next maxlen False (t @ rest) = dhav_next maxlen True rest"
    using assms(3) f(4) t by (simp add: dhav_next_long)
  then show ?thesis
    by (subst dhav_deframe_flag [of maxlen "t @ rest" False], subst dhav_deframe_flag [of maxlen rest True]) simp
qed

lemma broken_part:
  assumes "broken L t rest" "L \<le> maxlen" "16 \<le> length rest" "t @ rest = zs @ ys" "settles L maxlen rest"
  shows "\<exists>gs r. dhav_deframe maxlen zs = Some (gs, r) \<and> length r < L"
proof -
  obtain f where f: "dhav_frame f" "length f \<le> L" "t = take (length t) f" "16 \<le> length t" "length t < length f"
      "length f \<le> length (t @ rest)" "\<not> closes_at (length f) (t @ rest)"
    and clean: "\<forall>i. 0 < i \<and> i < length t \<longrightarrow> take 4 (drop i (t @ rest)) \<noteq> str_DHAV"
    using assms(1) by (auto simp: broken_def)
  have head: "take 16 (t @ rest) = take 16 f" using f(4,5) by (subst f(3)) simp
  show ?thesis
  proof (cases "length zs < length f")
    case small: True
    have "dhav_deframe maxlen zs = Some ([], zs)"
    proof (cases "16 \<le> length zs")
      case True
      have "take 16 zs = take 16 f" using head True unfolding assms(4) by simp
      then have "verdict maxlen zs = Incomplete"
        using headed_verdict [OF f(1), of maxlen zs] True small f(2) assms(2) by simp
      then show ?thesis using True by (subst dhav_deframe.simps) (simp add: dhav_next_long)
    next
      case False
      then show ?thesis by (subst dhav_deframe.simps) (simp add: dhav_next_short)
    qed
    then show ?thesis using small f(2) by simp
  next
    case False
    obtain u where u: "zs = t @ u" "rest = u @ ys"
      by (rule append_overlap [OF assms(4)]) (use False f(5) in auto)
    have closed: "\<not> closes_at (length f) (t @ u)"
      using f(1,4,5,7) False unfolding u by (simp add: closes_at_def dhav_frame_def)
    have clean': "take 4 (drop i (t @ u)) \<noteq> str_DHAV" if "0 < i" "i < length t" "16 \<le> length (drop i (t @ u))" for i
      using clean [rule_format, of i] that unfolding u(2) by simp
    have b: "16 \<le> length u \<Longrightarrow> broken L t u"
      using f(1-5) False closed clean' unfolding broken_def u(1) by auto
    show ?thesis
    proof (cases "16 \<le> length u")
      case True
      then show ?thesis using broken_skipped [OF b assms(2)] settles_part [of L maxlen u ys] assms(5) unfolding u
        by (force simp: settles_def)
    next
      case short: False
      obtain x t' where t: "t = x # t'" using f(4) by (cases t) auto
      have "\<exists>c r. dhav_next maxlen True (t' @ u) = Some (Inl c, r) \<and> length r < 16"
        by (rule skip_to_end) (use clean' [of "Suc _"] short t in auto)
      moreover have "verdict maxlen (t @ u) = Garbage"
        using headed_verdict [OF f(1), of maxlen "t @ u"] f(2,4) closed head False assms(2) unfolding u by simp
      ultimately show ?thesis using f(2,4,5) t
        by (subst dhav_deframe.simps) (auto simp: u dhav_next_long)
    qed
  qed
qed

section \<open>Several sessions\<close>

text \<open>
  \<open>torn L xs fs p\<close>: \<open>xs\<close> is what has come of one or more sessions, \<open>fs\<close> the frames that are complete in it
  and \<open>p\<close> the frame that has started at its end. All but the last session end inside a frame.
\<close>

inductive torn :: "nat \<Rightarrow> byte list \<Rightarrow> byte list list \<Rightarrow> byte list \<Rightarrow> bool" for L where
  torn_last: "\<forall>f \<in> set fs. dhav_frame f \<and> length f \<le> L \<Longrightarrow> started L p \<Longrightarrow> torn L (concat fs @ p) fs p"
| torn_next: "\<forall>f \<in> set fs. dhav_frame f \<and> length f \<le> L \<Longrightarrow> broken L t xs \<Longrightarrow> 16 \<le> length xs \<Longrightarrow> torn L xs gs p \<Longrightarrow>
    torn L (concat fs @ t @ xs) (fs @ gs) p"

lemma torn_deframed:
  "torn L xs fs p \<Longrightarrow> L \<le> maxlen \<Longrightarrow> dhav_deframe maxlen xs = Some (fs, p) \<and> settles L maxlen xs"
proof (induction rule: torn.induct)
  case (torn_last fs p)
  have "\<forall>f \<in> set fs. dhav_frame f \<and> length f \<le> maxlen" using torn_last.hyps(1) torn_last.prems by auto
  from dhav_deframe_frames [OF this, of p] dhav_deframe_started [OF torn_last.hyps(2) torn_last.prems] show ?case
    using settles_frames [OF torn_last.hyps(1) torn_last.prems settles_started [OF torn_last.hyps(2) torn_last.prems]] by simp
next
  case (torn_next fs t xs gs p)
  have fs: "\<forall>f \<in> set fs. dhav_frame f \<and> length f \<le> maxlen" using torn_next.hyps(1) torn_next.prems by auto
  have ih: "dhav_deframe maxlen xs = Some (gs, p)" "settles L maxlen xs" using torn_next.IH [OF torn_next.prems] by simp_all
  have "dhav_deframe maxlen (t @ xs) = Some (gs, p)"
    using broken_skipped [OF torn_next.hyps(2) torn_next.prems torn_next.hyps(3)] ih(1) by simp
  moreover have "settles L maxlen (t @ xs)" unfolding settles_def
    using broken_part [OF torn_next.hyps(2) torn_next.prems torn_next.hyps(3) _ ih(2)] by blast
  ultimately show ?case
    using dhav_deframe_frames [OF fs, of "t @ xs"] settles_frames [OF torn_next.hyps(1) torn_next.prems] by simp
qed

lemma torn_frames: "torn L xs fs p \<Longrightarrow> \<forall>f \<in> set fs. dhav_frame f \<and> length f \<le> L"
  by (induction rule: torn.induct) auto

lemma torn_contains: "torn L xs fs p \<Longrightarrow> f \<in> set fs \<Longrightarrow> \<exists>ys zs. xs = ys @ f @ zs"
proof (induction rule: torn.induct)
  case (torn_last fs p)
  then show ?case by (metis append.assoc concat.simps(2) concat_append split_list)
next
  case (torn_next fs t xs gs p)
  show ?case
  proof (cases "f \<in> set fs")
    case True
    then show ?thesis by (metis append.assoc concat.simps(2) concat_append split_list)
  next
    case False
    then obtain ys zs where "xs = ys @ f @ zs" using torn_next.IH torn_next.prems by auto
    then show ?thesis by (intro exI [of _ "concat fs @ t @ ys"] exI [of _ zs]) simp
  qed
qed

lemma started_nothing: "24 \<le> L \<Longrightarrow> started L []"
  using dhav_wrap_frame [of "replicate 8 0" "[]"] unfolding started_def
  by (intro exI [of _ "dhav_wrap (replicate 8 0) []"] exI [of _ 0]) simp

end
