(* ===== verification/Dhav_Stream.thy ===== *)
theory Dhav_Stream
  imports Dhav_Frames
begin

text \<open>
  Whole DHAV streams through the deframer of \<open>src/mctools.c\<close>: frames that arrive in pieces of any
  sizes come out complete and in order, and what happens on hostile lengths.
\<close>

section \<open>Feeding\<close>

text \<open>
  The outer loop of the callers: each piece that was read goes through the inner loop; a negative
  code ends it.
\<close>

definition feed_turn ::
    "deframer \<Rightarrow> nat \<Rightarrow> (byte list \<Rightarrow> 'c \<Rightarrow> (bool \<times> 'c) option) \<Rightarrow> nat \<Rightarrow>
     byte list \<Rightarrow> dstf \<times> 'c \<Rightarrow> (int option option \<times> dstf \<times> 'c) option" where
  "feed_turn process max_dst_len consume fuel piece s =
     do {
       (r, s') \<leftarrow> drain process max_dst_len consume fuel piece (length piece) s;
       Some (case r of None \<Rightarrow> Some None | Some c \<Rightarrow> if c < 0 then Some (Some c) else None, s')
     }"

lemma dhav_deframe_settled:
  "dhav_deframe maxlen xs = Some (fs, r) \<Longrightarrow> dhav_deframe maxlen r = Some ([], r)"
proof (induction maxlen xs arbitrary: fs rule: dhav_deframe.induct)
  case (1 maxlen xs)
  from "1.prems" obtain res mid where nxt: "dhav_next maxlen False xs = Some (res, mid)"
    by (subst (asm) dhav_deframe.simps) (auto split: option.splits)
  show ?case
  proof (cases res)
    case (Inl c)
    then have "r = mid" using "1.prems" nxt by (simp add: dhav_deframe.simps [of maxlen xs])
    moreover have "dhav_next maxlen False mid = Some (Inl 0, mid)"
      using dhav_deframe_rest_short nxt Inl by blast
    ultimately show ?thesis by (simp add: dhav_deframe.simps [of maxlen mid])
  next
    case (Inr n)
    then obtain gs where "dhav_deframe maxlen (drop n mid) = Some (gs, r)"
      using "1.prems" nxt by (subst (asm) dhav_deframe.simps) auto
    from "1.IH" [OF nxt refl Inr this] show ?thesis .
  qed
qed

lemma dhav_feed_delivers:
  assumes "dstf_inv q" and maxlen: "maxlen \<le> k" "maxlen \<le> fuel" and "sq_maxlen q = maxlen"
    and "dhav_deframe maxlen (dstf_queue q @ concat pieces) = Some (fs, rest)"
    and "pieces \<noteq> [] \<Longrightarrow> length (hd pieces) \<le> dstf_room q"
    and "\<forall>c \<in> set pieces. length c + L \<le> maxlen"
    and "\<forall>i gs r. 0 < i \<longrightarrow> dhav_deframe maxlen (dstf_queue q @ concat (take i pieces)) = Some (gs, r) \<longrightarrow> length r \<le> L"
    and "consume_all consume fs st = Some st'"
    and "pieces = [] \<Longrightarrow> dhav_deframe maxlen (dstf_queue q) = Some ([], dstf_queue q)"
  shows "\<exists>q'. turns (feed_turn dstf_process_dhav_stream_to_frames k consume fuel) pieces (q, st) =
      Some (None, q', st') \<and> dstf_inv q' \<and> dstf_queue q' = rest \<and> sq_maxlen q' = maxlen"
  using assms(1,4-10)
proof (induction pieces arbitrary: q st fs)
  case Nil
  then show ?case by simp
next
  case (Cons c pieces)
  let ?xs = "dstf_queue q"
  have "do { (gs, r) \<leftarrow> dhav_deframe maxlen (?xs @ c);
      map_option (\<lambda>(hs, r'). (gs @ hs, r')) (dhav_deframe maxlen (r @ concat pieces)) } = Some (fs, rest)"
    using Cons.prems(3) dhav_deframe_append [of maxlen "?xs @ c" "concat pieces"] by simp
  then obtain gs r hs where first: "dhav_deframe maxlen (?xs @ c) = Some (gs, r)"
    and second: "dhav_deframe maxlen (r @ concat pieces) = Some (hs, rest)" "fs = gs @ hs"
    by (auto simp: bind_Some_iff)
  obtain st1 where st1: "consume_all consume gs st = Some st1" "consume_all consume hs st1 = Some st'"
    using Cons.prems(7) second(2) by (auto simp: consume_all_append bind_Some_iff)
  have room: "length c \<le> dstf_room q" using Cons.prems(4) by simp
  then have "length (?xs @ c) \<le> fuel"
    using Cons.prems(1,2) maxlen length_dstf_queue [of q] dstf_inv_bounds [of q] by (auto simp: dstf_room_def)
  from dhav.drain_delivers [where consume = consume and st = st and st' = st1,
      OF dhav_deframe_drained [OF first maxlen(1)] Cons.prems(2,1) room this st1(1)]
  obtain q' where q': "drain dstf_process_dhav_stream_to_frames k consume fuel c (length c) (q, st)
      = Some (Some 0, q', st1)" "dstf_inv q'" "dstf_queue q' = r" "sq_maxlen q' = maxlen"
    by blast
  have later: "length r' \<le> L"
    if "dhav_deframe maxlen (dstf_queue q' @ concat (take i pieces)) = Some (gs', r')" for i gs' r'
    using Cons.prems(6) [rule_format, of "Suc i" "gs @ gs'" r'] that q'(3) first
      dhav_deframe_append [of maxlen "?xs @ c" "concat (take i pieces)"] by simp
  have settled: "dhav_deframe maxlen r = Some ([], r)" by (rule dhav_deframe_settled [OF first])
  have "length r \<le> L" using later [of 0] settled q'(3) by simp
  then have room': "length (hd pieces) \<le> dstf_room q'" if "pieces \<noteq> []"
    using Cons.prems(5) that q'(2-4) length_dstf_queue [of q'] by (cases pieces) (auto simp: dstf_room_def)
  have "\<exists>q''. turns (feed_turn dstf_process_dhav_stream_to_frames k consume fuel) pieces (q', st1) =
      Some (None, q'', st') \<and> dstf_inv q'' \<and> dstf_queue q'' = rest \<and> sq_maxlen q'' = maxlen"
    by (rule Cons.IH) (use q' second(1) settled Cons.prems(5) later room' st1(2) in auto)
  moreover have "feed_turn dstf_process_dhav_stream_to_frames k consume fuel c (q, st) =
      Some (None, q', st1)"
    using q'(1) by (simp add: feed_turn_def)
  ultimately show ?case by simp
qed

lemma dhav_feed:
  assumes "dstf_inv q" and maxlen: "maxlen \<le> k" "maxlen \<le> fuel" and "sq_maxlen q = maxlen"
    and settled: "dhav_deframe maxlen (dstf_queue q) = Some ([], dstf_queue q)"
    and "dhav_deframe maxlen (dstf_queue q @ concat pieces) = Some (fs, rest)"
    and pieces: "\<forall>c \<in> set pieces. length c + L \<le> maxlen"
    and small: "\<forall>i gs r. dhav_deframe maxlen (dstf_queue q @ concat (take i pieces)) = Some (gs, r) \<longrightarrow> length r \<le> L"
    and consume: "\<And>f st. consume f st = Some (False, step f st)"
  shows "\<exists>q'. turns (feed_turn dstf_process_dhav_stream_to_frames k consume fuel) pieces (q, st) =
      Some (None, q', fold step fs st) \<and> dstf_inv q' \<and> dstf_queue q' = rest"
proof -
  have "length (dstf_queue q) \<le> L" using small [rule_format, of 0] settled by simp
  then have room: "length (hd pieces) \<le> dstf_room q" if "pieces \<noteq> []"
    using pieces that assms(1,4) length_dstf_queue [of q] by (cases pieces) (auto simp: dstf_room_def)
  show ?thesis
    using dhav_feed_delivers [OF assms(1-4,6) room pieces _ consume_all_fold settled, of consume step st]
      small consume by blast
qed

section \<open>What holds for every input\<close>

text \<open>Whenever the code returns, it has cut the queue in order, also on announced lengths it trusts wrongly.\<close>

definition cut_of :: "dstf \<Rightarrow> dstf \<Rightarrow> bool" where
  "cut_of q q' \<longleftrightarrow> (\<exists>n \<le> sq_len q. q' = dstf_advance n q)"

lemma cut_of_refl: "dstf_inv q \<Longrightarrow> cut_of q q"
  using dstf_advance_0 [of q] by (metis cut_of_def zero_le)

lemma cut_of_trans: "dstf_inv q \<Longrightarrow> cut_of q q1 \<Longrightarrow> cut_of q1 q2 \<Longrightarrow> cut_of q q2"
proof -
  assume inv: "dstf_inv q" and "cut_of q q1" "cut_of q1 q2"
  then obtain m n where mn: "m \<le> sq_len q" "q1 = dstf_advance m q" "n \<le> sq_len q1" "q2 = dstf_advance n q1"
    by (auto simp: cut_of_def)
  then have "m + n \<le> sq_len q" using dstf_advance_ok(3) [OF inv mn(1)] by simp
  then show ?thesis using dstf_advance_add [OF inv] mn unfolding cut_of_def by metis
qed

lemma cut_of_inv: "dstf_inv q \<Longrightarrow> cut_of q q' \<Longrightarrow> dstf_inv q'"
  using dstf_advance_ok(1) by (auto simp: cut_of_def)

lemma cut_of_queue: "dstf_inv q \<Longrightarrow> cut_of q q' \<Longrightarrow> \<exists>g. dstf_queue q = g @ dstf_queue q'"
proof -
  assume "dstf_inv q" "cut_of q q'"
  then obtain n where "dstf_queue q' = drop n (dstf_queue q)"
    using dstf_advance_ok(2) by (auto simp: cut_of_def)
  then show ?thesis by (metis append_take_drop_id)
qed

lemma cut_of_step:
  "dstf_inv q \<Longrightarrow> 16 \<le> sq_len q \<Longrightarrow> cut_of q (q\<lparr>sq_offs := sq_offs q + 1, sq_len := sq_len q - 1\<rparr>)"
  by (subst step_byte) (auto simp: cut_of_def intro: exI [of _ 1])

lemma dhav_skip_cut: "dstf_inv q \<Longrightarrow> dhav_skip q = Some q' \<Longrightarrow> cut_of q q'"
proof (induction q rule: dhav_skip.induct)
  case (1 q)
  show ?case
  proof (cases "q' = q")
    case True
    with "1.prems" show ?thesis by (simp add: cut_of_refl)
  next
    case False
    with "1.prems" obtain h where h: "16 \<le> sq_len q" "rd_slice (sq q) (int (sq_offs q)) 4 = Some h"
        "\<not> BT_IDeqLM_32 0x44 0x48 0x41 0x56 h"
        "dhav_skip (q\<lparr>sq_offs := sq_offs q + 1, sq_len := sq_len q - 1\<rparr>) = Some q'"
      by (subst (asm) dhav_skip.simps) (auto simp: bind_Some_iff split: if_splits)
    note step = cut_of_step [OF "1.prems"(1) h(1)]
    from "1.IH" [OF h(1-3) cut_of_inv [OF "1.prems"(1) step] h(4)] show ?thesis
      by (rule cut_of_trans [OF "1.prems"(1) step])
  qed
qed

lemma dhav_check_Whole: "dhav_check q = Some (Whole n) \<Longrightarrow> n \<le> sq_len q"
  by (auto simp: dhav_check_def Let_def bind_Some_iff split: if_splits)

lemma dhav_scan_cut:
  "dstf_inv q \<Longrightarrow> dhav_scan q = Some (r, q') \<Longrightarrow> cut_of q q' \<and> (\<forall>n. r = Inr n \<longrightarrow> n \<le> sq_len q') \<and>
     (\<forall>c. r = Inl c \<longrightarrow> c = 0 \<or> c = 3)"
proof (induction q rule: dhav_scan.induct)
  case (1 q)
  show ?case
  proof (cases "sq_len q < 16")
    case True
    with "1.prems" show ?thesis by (subst (asm) dhav_scan.simps) (auto intro: cut_of_refl)
  next
    case False
    then have q16: "16 \<le> sq_len q" by simp
    from "1.prems"(2) False obtain v where v: "dhav_check q = Some v"
      by (subst (asm) dhav_scan.simps) (auto simp: bind_Some_iff)
    let ?q = "q\<lparr>sq_offs := sq_offs q + 1, sq_len := sq_len q - 1\<rparr>"
    note step = cut_of_step [OF "1.prems"(1) q16]
    note inv1 = cut_of_inv [OF "1.prems"(1) step]
    have scan: "dhav_scan q = (case v of Incomplete \<Rightarrow> Some (Inl 0, q) | Whole n \<Rightarrow> Some (Inr n, q)
        | _ \<Rightarrow> do { q1 \<leftarrow> dhav_skip ?q; if sq_len q1 < 16 then Some (Inl 3, q1) else dhav_scan q1 })"
      using False v by (subst dhav_scan.simps) (cases v; simp)
    have skipped: ?thesis if skip: "v = Garbage \<or> v = Undetermined"
    proof -
      from skip "1.prems"(2) obtain q1 where q1: "dhav_skip ?q = Some q1"
          "(if sq_len q1 < 16 then Some (Inl 3, q1) else dhav_scan q1) = Some (r, q')"
        unfolding scan by (auto simp: bind_Some_iff)
      note cut1 = cut_of_trans [OF "1.prems"(1) step dhav_skip_cut [OF inv1 q1(1)]]
      note inv2 = cut_of_inv [OF "1.prems"(1) cut1]
      show ?thesis
      proof (cases "sq_len q1 < 16")
        case True
        with q1 cut1 show ?thesis by auto
      next
        case long: False
        with q1 have "dhav_scan q1 = Some (r, q')" by simp
        from skip "1.IH" [OF False v _ q1(1) long inv2 this] cut_of_trans [OF "1.prems"(1) cut1]
        show ?thesis by auto
      qed
    qed
    show ?thesis
      using "1.prems" v scan skipped
      by (cases v) (auto intro: cut_of_refl dest: dhav_check_Whole)
  qed
qed

lemma dhav_process_cut:
  assumes "dstf_inv q" "length src \<le> dstf_room q"
    and run: "dstf_process_dhav_stream_to_frames q src (length src) k = Some (c, dst, q')"
  shows "dstf_inv q' \<and> (\<exists>g. dstf_queue q @ src = g @ dst @ dstf_queue q') \<and> c \<in> {0, 1, 3, -3} \<and> length dst \<le> k"
proof -
  from dstf_load_ok [OF assms(1,2)] obtain q1 where q1:
    "dstf_load q src (length src) = Some (Inr q1)" "dstf_inv q1" "dstf_queue q1 = dstf_queue q @ src" by blast
  from run q1(1) obtain r q2 where scan: "dhav_scan q1 = Some (r, q2)"
    by (auto simp: dstf_process_dhav_stream_to_frames_def bind_Some_iff)
  note cut = dhav_scan_cut [OF q1(2) scan]
  note inv2 = cut_of_inv [OF q1(2) conjunct1 [OF cut]]
  from cut_of_queue [OF q1(2) conjunct1 [OF cut]] obtain g where
    "dstf_queue q1 = g @ dstf_queue q2" ..
  with q1(3) have g: "dstf_queue q @ src = g @ dstf_queue q2" by simp
  show ?thesis
  proof (cases r)
    case (Inl code)
    then have "c = code" "dst = []" "q' = q2"
      using run q1 scan by (simp_all add: dstf_process_dhav_stream_to_frames_def)
    then show ?thesis using Inl cut g inv2 by auto
  next
    case (Inr n)
    then have n: "n \<le> sq_len q2" using cut by simp
    have "rd_slice (sq q2) (int (sq_offs q2)) n = Some (take n (dstf_queue q2))"
      using dstf_read [OF inv2, of 0 n] n by simp
    moreover note dstf_advance_ok [OF inv2 n]
    ultimately show ?thesis using run q1 scan g inv2 Inr
      by (auto simp: dstf_process_dhav_stream_to_frames_def split: if_splits)
  qed
qed

section \<open>Announced lengths below 8\<close>

lemma dhav_skip_iter:
  "dstf_inv q \<Longrightarrow> n + 16 \<le> sq_len q \<Longrightarrow> \<forall>i < n. take 4 (drop i (dstf_queue q)) \<noteq> str_DHAV \<Longrightarrow>
   take 4 (drop n (dstf_queue q)) = str_DHAV \<Longrightarrow> dhav_skip q = Some (dstf_advance n q)"
proof (induction n arbitrary: q)
  case 0
  then show ?case
    using header_read [of q] dstf_advance_0 [of q] by (subst dhav_skip.simps) (simp add: str_DHAV_def)
next
  case (Suc n)
  note adv = dstf_advance_ok [OF Suc.prems(1), of 1]
  have "dhav_skip (dstf_advance 1 q) = Some (dstf_advance n (dstf_advance 1 q))"
    by (rule Suc.IH) (use Suc.prems adv in auto)
  moreover have "dstf_advance n (dstf_advance 1 q) = dstf_advance (Suc n) q"
    using dstf_advance_add [OF Suc.prems(1), of 1 n] Suc.prems(2) by simp
  moreover have "take 4 (dstf_queue q) \<noteq> str_DHAV" using Suc.prems(3) by (metis drop0 zero_less_Suc)
  ultimately show ?case
    using header_read [of q] Suc.prems step_byte [OF Suc.prems(1)]
    by (subst dhav_skip.simps) (simp add: str_DHAV_def)
qed

lemma length_read:
  "dstf_inv q \<Longrightarrow> 16 \<le> sq_len q \<Longrightarrow>
   rd_slice (sq q) (int (sq_offs q + 12)) 4 = Some (take 4 (drop 12 (dstf_queue q)))"
  by (rule dstf_read) simp_all

lemma dhav_check_short:
  assumes inv: "dstf_inv q" and len: "16 \<le> sq_len q" and head: "take 4 (dstf_queue q) = str_DHAV"
    and n: "announced (dstf_queue q) = n" "n < 8"
  shows "dhav_check q = do {
      t \<leftarrow> rd_slice (sq q) (int (sq_offs q) + int n - 8) 4;
      if t \<noteq> str_dhav then Some Garbage
      else do {
        l2 \<leftarrow> rd_slice (sq q) (int (sq_offs q) + int n - 4) 4;
        if size_of_int32 (BT_LM2NV_U32 l2) \<noteq> n then Some Garbage else Some (Whole n)
      } }"
proof -
  have p: "ptr_index (sq_offs q) (size_sub n 8) = int (sq_offs q) + int n - 8"
    by (rule trans [OF ptr_index_back]) (use n in simp_all)
  have p4: "int (sq_offs q) + int n - 8 + 4 = int (sq_offs q) + int n - 4" by simp
  have "\<not> n > sq_maxlen q" "\<not> n > sq_len q" using n len dstf_inv_bounds [OF inv] by auto
  moreover have "size_of_int32 (BT_LM2NV_U32 (take 4 (drop 12 (dstf_queue q)))) = n"
    using n(1) by (simp add: announced_def)
  ultimately show ?thesis
    using head
    by (simp only: dhav_check_def header_read [OF inv len] length_read [OF inv len] Let_def str_DHAV_def
        str_dhav_def IDeqLM_iff Option.bind.bind_lunit p p4 if_True if_False simp_thms)
qed

lemma dhav_process_idle:
  "dstf_process_dhav_stream_to_frames q src 0 k =
     do { (r, q2) \<leftarrow> dhav_scan q;
          (case r of
             Inl code \<Rightarrow> Some (code, [], q2)
           | Inr n \<Rightarrow>
               if k < n then Some (-3, [], q2)
               else do { frame \<leftarrow> rd_slice (sq q2) (int (sq_offs q2)) n; Some (1, frame, dstf_advance n q2) }) }"
  by (simp add: dstf_process_dhav_stream_to_frames_def dstf_load_def Let_def)

text \<open>The queue stands right behind \<open>dhav\<close> and a zero length, at a header that announces length 0.\<close>

definition stuck :: "dstf \<Rightarrow> bool" where
  "stuck q \<longleftrightarrow> dstf_inv q \<and> 16 \<le> sq_len q \<and> take 4 (dstf_queue q) = str_DHAV \<and> announced (dstf_queue q) = 0 \<and>
     8 \<le> sq_offs q \<and> take 8 (drop (sq_offs q - 8) (sq q)) = str_dhav @ [0, 0, 0, 0]"

lemma stuck_scan: "stuck q \<Longrightarrow> dhav_scan q = Some (Inr 0, q)"
proof -
  assume st: "stuck q"
  then have inv: "dstf_inv q" and len: "16 \<le> sq_len q" and o8: "8 \<le> sq_offs q"
    and head: "take 4 (dstf_queue q) = str_DHAV" and ann: "announced (dstf_queue q) = 0"
    and before: "take 8 (drop (sq_offs q - 8) (sq q)) = str_dhav @ [0, 0, 0, 0]"
    by (simp_all add: stuck_def)
  have b: "sq_offs q + sq_len q \<le> length (sq q)" using dstf_inv_bounds [OF inv] by simp
  have four: "length str_dhav = 4" by (simp add: str_dhav_def)
  have e: "int (sq_offs q) + int 0 - 8 = int (sq_offs q - 8)" "int (sq_offs q) + int 0 - 4 = int (sq_offs q - 4)"
    using o8 by simp_all
  have r1: "rd_slice (sq q) (int (sq_offs q - 8)) 4 = Some str_dhav"
  proof (subst rd_slice_of_nat)
    show "sq_offs q - 8 + 4 \<le> length (sq q)" using b o8 by linarith
    have "take 4 (take 8 (drop (sq_offs q - 8) (sq q))) = str_dhav" unfolding before using four by simp
    then show "Some (take 4 (drop (sq_offs q - 8) (sq q))) = Some str_dhav" by (simp add: min_def)
  qed
  have r2: "rd_slice (sq q) (int (sq_offs q - 4)) 4 = Some [0, 0, 0, 0]"
  proof (subst rd_slice_of_nat)
    show "sq_offs q - 4 + 4 \<le> length (sq q)" using b o8 by simp
    have "drop 4 (take 8 (drop (sq_offs q - 8) (sq q))) = [0, 0, 0, 0]" unfolding before using four by simp
    moreover have "sq_offs q - 8 + 4 = sq_offs q - 4" using o8 by simp
    ultimately show "Some (take 4 (drop (sq_offs q - 4) (sq q))) = Some [0, 0, 0, 0]"
      by (simp add: drop_take add.commute)
  qed
  have "size_of_int32 (BT_LM2NV_U32 [0, 0, 0, 0]) = 0" by (simp add: size_of_int32_eq)
  moreover have "0 < (8 :: nat)" by simp
  note check = dhav_check_short [OF inv len head ann this]
  ultimately have "dhav_check q = Some (Whole 0)"
    unfolding check e r1 by (simp add: r2)
  then show ?thesis using len by (subst dhav_scan.simps) simp
qed

lemma stuck_process: "stuck q \<Longrightarrow> dstf_process_dhav_stream_to_frames q src 0 k = Some (1, [], q)"
proof -
  assume st: "stuck q"
  then have "dstf_inv q" by (simp add: stuck_def)
  then have "rd_slice (sq q) (int (sq_offs q)) 0 = Some []" "dstf_advance 0 q = q"
    using dstf_read [of q 0 0] dstf_advance_0 by simp_all
  then show ?thesis by (simp add: dhav_process_idle stuck_scan [OF st])
qed

lemma stuck_turns:
  "stuck q \<Longrightarrow> turns (drain_turn dstf_process_dhav_stream_to_frames k consume) (replicate n (src, 0)) (q, st) =
     Some (None, q, st)"
  by (induction n) (simp_all add: drain_turn_def stuck_process)

section \<open>Properties\<close>

definition collect :: "byte list \<Rightarrow> byte list list \<Rightarrow> (bool \<times> byte list list) option" where
  "collect f out = Some (False, out @ [f])"

lemma fold_snoc: "fold (\<lambda>f out. out @ [f]) fs out = out @ fs"
  by (induction fs arbitrary: out) simp_all

definition sample_queue :: dstf where
  "sample_queue = \<lparr>sq = replicate 100 0, sq_offs = 0, sq_len = 0, sq_maxlen = 100\<rparr>"

lemma sample_queue_ok: "dstf_inv sample_queue" "dstf_queue sample_queue = []" "dstf_room sample_queue = 100"
  "sq_maxlen sample_queue = 100"
  by (simp_all add: sample_queue_def dstf_inv_def dstf_queue_def dstf_room_def)

text \<open>
  C3: Streams of DHAV frames, of one session or of several that break off inside a frame, cut into
  pieces of any sizes on their way and fed to the deframer the way its callers do, come out as exactly
  their complete frames, in order: the broken frames are skipped and cost no frame of the sessions
  after them, and the frame that has only started to arrive stays in the queue. No call faults, fails
  or stays in its loop, provided every frame and every piece together fit the queue.
\<close>
theorem dhav_stream_delivers:
  assumes inv: "dstf_inv q" "dstf_queue q = []" "sq_maxlen q = maxlen"
    and stream: "torn L (concat pieces) fs p" and pieces: "\<forall>c \<in> set pieces. length c + L \<le> maxlen"
    and limits: "L \<le> maxlen" "maxlen \<le> max_dst_len" "maxlen \<le> fuel"
  shows "\<exists>q'. turns (feed_turn dstf_process_dhav_stream_to_frames max_dst_len collect fuel) pieces (q, []) =
      Some (None, q', fs) \<and> dstf_queue q' = p"
proof -
  have empty: "dhav_deframe maxlen [] = Some ([], [])"
    by (simp add: dhav_deframe.simps [of maxlen "[]"] dhav_next_short)
  note all = torn_deframed [OF stream limits(1)]
  have rest: "\<forall>i gs r. dhav_deframe maxlen ([] @ concat (take i pieces)) = Some (gs, r) \<longrightarrow> length r \<le> L"
  proof (intro allI impI)
    fix i gs r
    assume d: "dhav_deframe maxlen ([] @ concat (take i pieces)) = Some (gs, r)"
    have "concat pieces = concat (take i pieces) @ concat (drop i pieces)"
      by (metis append_take_drop_id concat_append)
    then show "length r \<le> L" using settlesD [of L maxlen "concat (take i pieces)"] all d by fastforce
  qed
  from dhav_feed [where consume = collect and step = "\<lambda>f out. out @ [f]" and st = "[]",
      OF inv(1) limits(2,3) inv(3), unfolded inv(2), OF empty _ pieces rest] all
  show ?thesis by (auto simp: collect_def fold_snoc)
qed

text \<open>Two sessions: the first one breaks off 20 bytes into its second frame.\<close>

definition sample_frame :: "byte list \<Rightarrow> byte list" where
  "sample_frame body = dhav_wrap (replicate 8 1) body"

lemma sample_frame_bytes:
  "sample_frame [7, 7] = str_DHAV @ replicate 8 1 @ [26, 0, 0, 0, 7, 7] @ str_dhav @ [26, 0, 0, 0]"
  "sample_frame [8] = str_DHAV @ replicate 8 1 @ [25, 0, 0, 0, 8] @ str_dhav @ [25, 0, 0, 0]"
  by (simp_all add: sample_frame_def dhav_wrap_def Let_def BT_NV2LM_U32_def)

lemma sample_frame_ok: "dhav_frame (sample_frame [7, 7])" "length (sample_frame [7, 7]) = 26" "dhav_frame (sample_frame [8])"
  "length (sample_frame [8]) = 25"
  using dhav_wrap_frame [of "replicate 8 1" "[7, 7]"] dhav_wrap_frame [of "replicate 8 1" "[8]"] by (simp_all add: sample_frame_def)

lemma sample_broken: "broken 30 (take 20 (sample_frame [7, 7])) (sample_frame [8])"
proof -
  have "\<not> closes_at 26 (take 20 (sample_frame [7, 7]) @ sample_frame [8])"
    by (simp add: sample_frame_bytes closes_at_def str_DHAV_def str_dhav_def)
  moreover have "0x44 \<notin> set (tl (take 20 (sample_frame [7, 7])))"
    by (simp add: sample_frame_bytes str_DHAV_def str_dhav_def)
  ultimately show ?thesis unfolding broken_def using sample_frame_ok
    by (intro conjI exI [of _ "sample_frame [7, 7]"] no_other_header) simp_all
qed

lemma sample_torn: "torn 30 (sample_frame [7, 7] @ take 20 (sample_frame [7, 7]) @ sample_frame [8]) [sample_frame [7, 7], sample_frame [8]] []"
proof -
  have "torn 30 (concat [sample_frame [8]] @ []) [sample_frame [8]] []"
    by (rule torn_last) (use sample_frame_ok in \<open>auto simp: started_def intro!: exI [of _ "sample_frame [8]"] exI [of _ 0]\<close>)
  then have "torn 30 (concat [sample_frame [7, 7]] @ take 20 (sample_frame [7, 7]) @ sample_frame [8]) ([sample_frame [7, 7]] @ [sample_frame [8]]) []"
    by (intro torn_next) (use sample_frame_ok sample_broken in simp_all)
  then show ?thesis by simp
qed

lemma dhav_stream_delivers_witness:
  "\<exists>q'. turns (feed_turn dstf_process_dhav_stream_to_frames 100 collect 100)
      [take 30 (sample_frame [7, 7] @ take 20 (sample_frame [7, 7]) @ sample_frame [8]),
       drop 30 (sample_frame [7, 7] @ take 20 (sample_frame [7, 7]) @ sample_frame [8])] (sample_queue, []) =
      Some (None, q', [sample_frame [7, 7], sample_frame [8]]) \<and> dstf_queue q' = []"
proof -
  let ?s = "sample_frame [7, 7] @ take 20 (sample_frame [7, 7]) @ sample_frame [8]"
  have "torn 30 (concat [take 30 ?s, drop 30 ?s]) [sample_frame [7, 7], sample_frame [8]] []"
    using sample_torn by (simp only: concat.simps append_Nil2 append_take_drop_id)
  from dhav_stream_delivers [OF sample_queue_ok(1,2,4) this] show ?thesis
    using sample_frame_ok by simp
qed

text \<open>
  C10: Refinement: on a well-formed queue with room for the new data, one call of the deframer does
  what the list-level specification says, whenever that is determined: same code, same frame, and
  the queue holds the specified rest. In particular the call returns and reads only the queue.
\<close>
theorem dhav_deframer_refines:
  "dstf_inv q \<Longrightarrow> length src \<le> dstf_room q \<Longrightarrow>
   dhav_spec (sq_maxlen q) max_dst_len (dstf_queue q @ src) = Some (c, dst, rest) \<Longrightarrow>
   \<exists>q'. dstf_process_dhav_stream_to_frames q src (length src) max_dst_len = Some (c, dst, q') \<and>
     dstf_inv q' \<and> dstf_queue q' = rest \<and> sq_maxlen q' = sq_maxlen q"
  by (rule dhav_process_spec)

lemma dhav_deframer_refines_witness:
  "\<exists>q'. dstf_process_dhav_stream_to_frames sample_queue [5, 5, 5, 5, 5, 5, 5, 5, 5, 5, 5, 5, 5, 5, 5, 5, 5]
      (length ([5, 5, 5, 5, 5, 5, 5, 5, 5, 5, 5, 5, 5, 5, 5, 5, 5] :: byte list)) 50 = Some (3, [], q') \<and> dstf_inv q' \<and> dstf_queue q' = [5, 5, 5, 5, 5, 5, 5, 5, 5, 5, 5, 5, 5, 5, 5] \<and> sq_maxlen q' = sq_maxlen sample_queue"
  by (rule dhav_deframer_refines)
     (simp_all add: sample_queue_ok dhav_spec_def dhav_next.simps verdict_def str_DHAV_def)

text \<open>
  C20: Conservation for every input: whenever the deframer returns, what was queued and what came in
  is some skipped bytes, then the frame handed out, then the new queue; the result is one of the
  codes 0, 1, 3, -3, the frame fits the destination, and the queue is well formed.
\<close>
theorem dhav_deframer_conserves:
  "dstf_inv q \<Longrightarrow> length src \<le> dstf_room q \<Longrightarrow>
   dstf_process_dhav_stream_to_frames q src (length src) max_dst_len = Some (c, dst, q') \<Longrightarrow>
   dstf_inv q' \<and> (\<exists>g. dstf_queue q @ src = g @ dst @ dstf_queue q') \<and> c \<in> {0, 1, 3, -3} \<and>
     length dst \<le> max_dst_len"
  by (rule dhav_process_cut)

lemma dhav_deframer_conserves_witness:
  "\<exists>c dst q'. dstf_process_dhav_stream_to_frames sample_queue [5, 5, 5, 5, 5, 5, 5, 5, 5, 5, 5, 5, 5, 5, 5, 5, 5]
      (length ([5, 5, 5, 5, 5, 5, 5, 5, 5, 5, 5, 5, 5, 5, 5, 5, 5] :: byte list)) 50 = Some (c, dst, q') \<and>
    (\<exists>g. dstf_queue sample_queue @ [5, 5, 5, 5, 5, 5, 5, 5, 5, 5, 5, 5, 5, 5, 5, 5, 5] = g @ dst @ dstf_queue q')"
proof -
  have "dhav_spec (sq_maxlen sample_queue) 50 (dstf_queue sample_queue @ [5, 5, 5, 5, 5, 5, 5, 5, 5, 5, 5, 5, 5, 5, 5, 5, 5]) =
      Some (3, [], drop 2 [5, 5, 5, 5, 5, 5, 5, 5, 5, 5, 5, 5, 5, 5, 5, 5, 5])"
    by (simp add: sample_queue_ok dhav_spec_def dhav_next.simps verdict_def str_DHAV_def)
  from dhav_process_spec [OF sample_queue_ok(1) _ this] obtain q' where
    "dstf_process_dhav_stream_to_frames sample_queue [5, 5, 5, 5, 5, 5, 5, 5, 5, 5, 5, 5, 5, 5, 5, 5, 5] (length ([5, 5, 5, 5, 5, 5, 5, 5, 5, 5, 5, 5, 5, 5, 5, 5, 5] :: byte list)) 50 = Some (3, [], q')"
    by (auto simp: sample_queue_ok)
  with dhav_deframer_conserves [OF sample_queue_ok(1) _ this] show ?thesis
    by (auto simp: sample_queue_ok)
qed

text \<open>
  A header that announces a length below 8 makes the deframer look for the trailer before the
  frame. At the start of its array, where a stream begins, that is a read before the array: no
  defined behaviour.
\<close>
lemma dhav_short_length_reads_before:
  "dstf_inv q \<Longrightarrow> 16 \<le> sq_len q \<Longrightarrow> take 4 (dstf_queue q) = str_DHAV \<Longrightarrow>
   sq_offs q + announced (dstf_queue q) < 8 \<Longrightarrow>
   dstf_process_dhav_stream_to_frames q src 0 max_dst_len = None"
  using dhav_check_short [of q "announced (dstf_queue q)"]
  by (subst dhav_process_idle, subst dhav_scan.simps) (simp add: rd_slice_def)

lemma dhav_short_length_reads_before_witness:
  "dstf_process_dhav_stream_to_frames
     \<lparr>sq = str_DHAV @ [0, 0, 0, 0, 0, 0, 0, 0, 0, 0, 0, 0], sq_offs = 0, sq_len = 16, sq_maxlen = 16\<rparr> [] 0 100 = None"
  by (rule dhav_short_length_reads_before)
     (simp_all add: dstf_inv_def dstf_queue_def str_DHAV_def announced_def size_of_int32_eq)

text \<open>
  The 24 bytes \<open>dhav 0000 DHAV xxxxxxxx 0000\<close> hang the process: after skipping the first eight, the
  deframer takes them for the trailer of a frame of length 0, answers 1 (a frame) with no data and
  does not move, so the loop of its callers never ends, however many turns it is given.
\<close>
lemma dhav_zero_length_spins:
  assumes inv: "dstf_inv q" "dstf_queue q = []" and room: "24 \<le> dstf_room q" and hdr: "length xs = 8"
    and src: "src = str_dhav @ [0, 0, 0, 0] @ str_DHAV @ xs @ [0, 0, 0, 0]"
  shows "\<exists>q'. drain dstf_process_dhav_stream_to_frames k consume fuel src (length src) (q, st) = Some (None, q', st)"
proof -
  have s: "length str_DHAV = 4" "length str_dhav = 4" by (simp_all add: str_DHAV_def str_dhav_def)
  have len: "length src = 24" using hdr s by (simp add: src)
  from dstf_load_ok [OF inv(1), of src] room len inv(2) obtain q1 where q1:
    "dstf_load q src (length src) = Some (Inr q1)" "dstf_inv q1" "dstf_queue q1 = src" by auto
  have l1: "sq_len q1 = 24" using length_dstf_queue [OF q1(2)] q1(3) len by simp
  have no: "take 4 (drop i src) \<noteq> str_DHAV" if "i < 8" for i
  proof -
    have "i = 0 \<or> i = 1 \<or> i = 2 \<or> i = 3 \<or> i = 4 \<or> i = 5 \<or> i = 6 \<or> i = 7" using that by auto
    then show ?thesis by (auto simp: src str_dhav_def str_DHAV_def)
  qed
  note adv1 = dstf_advance_ok [OF q1(2), of 1] and adv8 = dstf_advance_ok [OF q1(2), of 8]
  have at8: "take 4 (drop 8 src) = str_DHAV" using s by (simp add: src)
  have "dhav_skip (dstf_advance 1 q1) = Some (dstf_advance 7 (dstf_advance 1 q1))"
    by (rule dhav_skip_iter) (use adv1 l1 q1 no at8 in auto)
  then have skip: "dhav_skip (dstf_advance 1 q1) = Some (dstf_advance 8 q1)"
    using dstf_advance_add [OF q1(2), of 1 7] l1 by simp
  have "verdict (sq_maxlen q1) (dstf_queue q1) = Garbage"
    using no [of 0] q1(3) by (simp add: verdict_def)
  then have check: "dhav_check q1 = Some Garbage"
    using dhav_check_verdict [OF q1(2)] l1 by simp
  have "take 8 (drop (sq_offs q1) (sq q1)) = take 8 (dstf_queue q1)"
    using l1 by (simp add: dstf_queue_def min_def)
  then have stuck: "stuck (dstf_advance 8 q1)"
    using adv8 l1 q1(3) at8 hdr s
    by (auto simp: stuck_def announced_def src size_of_int32_eq dstf_advance_def)
  have "dhav_scan q1 = Some (Inr 0, dstf_advance 8 q1)"
    using l1 check skip step_byte [OF q1(2)] stuck_scan [OF stuck] stuck
    by (subst dhav_scan.simps) (simp add: stuck_def)
  moreover have "rd_slice (sq (dstf_advance 8 q1)) (int (sq_offs (dstf_advance 8 q1))) 0 = Some []"
    "dstf_advance 0 (dstf_advance 8 q1) = dstf_advance 8 q1"
    using stuck dstf_read [of "dstf_advance 8 q1" 0 0] dstf_advance_0 by (simp_all add: stuck_def)
  ultimately have "dstf_process_dhav_stream_to_frames q src (length src) k = Some (1, [], dstf_advance 8 q1)"
    using q1(1) by (simp add: dstf_process_dhav_stream_to_frames_def)
  then have "drain_turn dstf_process_dhav_stream_to_frames k consume (src, length src) (q, st) =
      Some (None, dstf_advance 8 q1, st)" by (simp add: drain_turn_def)
  then show ?thesis by (simp add: drain_def stuck_turns [OF stuck])
qed

lemma dhav_zero_length_spins_witness:
  "\<exists>q'. drain dstf_process_dhav_stream_to_frames 100 collect 1000
      (str_dhav @ [0, 0, 0, 0] @ str_DHAV @ replicate 8 1 @ [0, 0, 0, 0])
      (length (str_dhav @ [0, 0, 0, 0] @ str_DHAV @ replicate 8 1 @ [0, 0, 0, 0])) (sample_queue, []) =
    Some (None, q', [])"
  by (rule dhav_zero_length_spins [OF sample_queue_ok(1,2)]) (simp_all add: sample_queue_ok)

end
