(* ===== verification/Frame_Info.thy ===== *)
theory Frame_Info
  imports Dhav_Stream
begin

text \<open>
  What the program learns from a frame (\<open>src/mctools.c\<close>): \<open>mc_init\<close>, the parser of the extended DHAV
  header, \<open>dt_collect_dhav_frame_info\<close> and \<open>dt_collect_raw_h264_frame_info\<close>. The frame is in a
  buffer \<open>src\<close> of which \<open>src_len\<close> bytes are the frame; a read outside the buffer and a division by
  zero have no defined behaviour (\<open>None\<close>).
\<close>

section \<open>State\<close>

datatype t_frame_type = FT_UNDEFINED | FT_VIDEO_FRAME | FT_VIDEO_I_FRAME | FT_AUDIO_FRAME

record t_mc_parms =
  mc_format :: t_mc_format
  mp_first_frame :: bool
  ntsc_exact_60hz :: bool
  frame_type :: t_frame_type
  has_v_parms :: bool
  v_width :: u32
  v_height :: u32
  v_aspect_x :: u64
  v_aspect_y :: u64
  mp_epoch :: u32
  mp_timestamp :: u64
  mp_dhav_ts :: u16
  NTSC_timings :: bool
  dhav_fps :: byte
  mp_dhav_ts_prev :: u16
  body_p :: nat
  body_len :: nat

text \<open>
  \<open>body_p\<close> is an offset into the buffer the frame is in. \<open>m0\<close> is what \<open>malloc\<close> left in the
  structure: the aspect ratio, the frame rate, the last timestamps and the body are not set.
\<close>

definition mc_init :: "t_mc_parms \<Rightarrow> t_mc_format \<Rightarrow> bool \<Rightarrow> t_mc_parms" where
  "mc_init m0 fmt exact =
     m0\<lparr>mc_format := fmt, frame_type := FT_UNDEFINED, has_v_parms := False, v_width := 0, v_height := 0,
       mp_timestamp := 0, mp_epoch := 0, ntsc_exact_60hz := exact, mp_dhav_ts_prev := 0,
       mp_first_frame := True\<rparr>"

section \<open>The extended header\<close>

text \<open>
  Subfields are stored in an array of 256 strips of 8 bytes. A subfield is its identifier and the
  data after it, 8 bytes in all for identifier 0x88 and 4 for the others; the strip holds the
  identifier too.
\<close>

definition DHAV_SF_STRIPLEN_MAX :: nat where "DHAV_SF_STRIPLEN_MAX = 8"

definition sf_index :: "byte \<Rightarrow> nat \<Rightarrow> nat" where
  "sf_index fn dn = unat fn * DHAV_SF_STRIPLEN_MAX + dn"

definition sf_len :: "byte \<Rightarrow> nat" where
  "sf_len i = (if i = 0x88 then 8 else 4)"

fun sf_loop :: "byte list \<Rightarrow> byte \<Rightarrow> nat \<Rightarrow> nat \<Rightarrow> byte list \<Rightarrow> byte list" where
  "sf_loop [] i id_len id_pos arr = arr"
| "sf_loop (x # xs) i id_len id_pos arr =
     (let i' = (if id_len = 0 then x else i);
          id_pos' = (if id_len = 0 then 0 else id_pos);
          id_len' = (if id_len = 0 then sf_len x else id_len)
      in sf_loop xs i' (id_len' - 1) (id_pos' + 1) (arr[sf_index i' id_pos' := x]))"

definition dhav_sf_parse_ext_head :: "byte list \<Rightarrow> byte list" where
  "dhav_sf_parse_ext_head ext_head = sf_loop ext_head 0 0 0 (replicate (DHAV_SF_STRIPLEN_MAX * 256) 0)"

definition DHAV_SF_DATA :: "byte list \<Rightarrow> byte \<Rightarrow> nat \<Rightarrow> byte" where
  "DHAV_SF_DATA arr fn dn = arr ! sf_index fn dn"

section \<open>Guesses from geometry and frame rate\<close>

definition guess_aspect :: "u32 \<Rightarrow> u32 \<Rightarrow> (u64 \<times> u64) option" where
  "guess_aspect w h =
     (if h = 0 then None
      else Some (if (w * 1000) div h = 1777 then (16, 9) else (4, 3)))"

definition guess_ntsc :: "u32 \<Rightarrow> byte \<Rightarrow> bool" where
  "guess_ntsc h fps =
     (if h = 60 \<or> h = 120 \<or> h = 160 \<or> h = 240 \<or> h = 480 then True
      else if h = 72 \<or> h = 144 \<or> h = 192 \<or> h = 288 \<or> h = 576 then False
      else fps = 60 \<or> fps = 30 \<or> fps = 15)"

section \<open>DHAV frames\<close>

definition BASE_DHAV_HDR_LEN :: nat where "BASE_DHAV_HDR_LEN = 24"

text \<open>The case of an I-frame: \<open>Inl\<close> is the early return.\<close>

definition collect_i_frame :: "t_mc_parms \<Rightarrow> byte list \<Rightarrow> ((int \<times> t_mc_parms) + t_mc_parms) option" where
  "collect_i_frame m sf =
     (let m1 = m\<lparr>v_width := ucast (DHAV_SF_DATA sf 0x80 2) * 8, v_height := ucast (DHAV_SF_DATA sf 0x80 3) * 8,
                 dhav_fps := DHAV_SF_DATA sf 0x81 3\<rparr>
      in if dhav_fps m1 = 0 then Some (Inl (-1, m1))
         else do {
           (x, y) \<leftarrow> guess_aspect (v_width m1) (v_height m1);
           Some (Inr (m1\<lparr>v_aspect_x := x, v_aspect_y := y,
                         NTSC_timings := guess_ntsc (v_height m1) (dhav_fps m1),
                         has_v_parms := True, frame_type := FT_VIDEO_I_FRAME\<rparr>))
         })"

text \<open>The \<open>switch\<close> over the frame type; types 0xf1 and unknown ones are left alone.\<close>

definition collect_head :: "t_mc_parms \<Rightarrow> byte \<Rightarrow> byte list \<Rightarrow> ((int \<times> t_mc_parms) + t_mc_parms) option" where
  "collect_head m DHAV_type sf =
     (if DHAV_type = 0xfc then
        (if \<not> has_v_parms m then Some (Inl (0, m)) else Some (Inr (m\<lparr>frame_type := FT_VIDEO_FRAME\<rparr>)))
      else if DHAV_type = 0xfd then collect_i_frame m sf
      else if DHAV_type = 0xf0 then Some (Inl (0, m\<lparr>frame_type := FT_AUDIO_FRAME\<rparr>))
      else Some (Inl (0, m)))"

text \<open>The timestamp from the 16-bit millisecond counter of the frame.\<close>

definition collect_clock :: "t_mc_parms \<Rightarrow> u16 \<Rightarrow> u32 \<Rightarrow> t_mc_parms" where
  "collect_clock m ts epoch =
     (let m1 = m\<lparr>mp_dhav_ts := ts, mp_epoch := epoch\<rparr>
      in if mp_first_frame m1
         then m1\<lparr>mp_first_frame := False, mp_dhav_ts_prev := ts, mp_timestamp := 0\<rparr>
         else let v_dhav_period = (if ts > mp_dhav_ts_prev m1 then ts - mp_dhav_ts_prev m1
                                   else ts + (0 - mp_dhav_ts_prev m1)) :: u16
              in m1\<lparr>mp_timestamp := mp_timestamp m1 + ucast v_dhav_period * 1000000, mp_dhav_ts_prev := ts\<rparr>)"

definition dt_collect_dhav_frame_info :: "t_mc_parms \<Rightarrow> byte list \<Rightarrow> nat \<Rightarrow> (int \<times> t_mc_parms) option" where
  "dt_collect_dhav_frame_info mp src src_len =
     (let m = mp\<lparr>frame_type := FT_UNDEFINED\<rparr>
      in if src_len = 0 then Some (0, m)
         else do {
           DHAV_type \<leftarrow> rd src 4;
           exthead_len \<leftarrow> rd src 22;
           let body_offset = unat exthead_len + BASE_DHAV_HDR_LEN;
           let len = size_sub (size_sub src_len body_offset) 8;
           ext \<leftarrow> rd_slice src (int BASE_DHAV_HDR_LEN) (unat exthead_len);
           let sf = dhav_sf_parse_ext_head ext;
           head \<leftarrow> collect_head m DHAV_type sf;
           (case head of
              Inl r \<Rightarrow> Some r
            | Inr m1 \<Rightarrow>
                do {
                  ts \<leftarrow> rd_slice src 20 2;
                  epoch \<leftarrow> rd_slice src 16 4;
                  Some (0, (collect_clock m1 (ucast (BT_LM2NV_U16 ts)) (BT_LM2NV_U32 epoch))
                             \<lparr>body_p := body_offset, body_len := len\<rparr>)
                })
         })"

section \<open>Raw H.264 units\<close>

text \<open>
  The closing \<open>if (NAL_type = 0xb6)\<close> is an assignment, always true: every unit that reaches it
  moves the clock.
\<close>

definition h264_clock :: "t_mc_parms \<Rightarrow> t_mc_parms" where
  "h264_clock m =
     (if mp_first_frame m then m\<lparr>mp_timestamp := 0, mp_first_frame := False\<rparr>
      else m\<lparr>mp_timestamp := mp_timestamp m + 60 * 1000 * 1000\<rparr>)"

definition dt_collect_raw_h264_frame_info :: "t_mc_parms \<Rightarrow> byte list \<Rightarrow> nat \<Rightarrow> (int \<times> t_mc_parms) option" where
  "dt_collect_raw_h264_frame_info mp src src_len =
     (let m = mp\<lparr>frame_type := FT_UNDEFINED\<rparr>
      in if src_len = 0 then Some (0, m)
         else do {
           NAL_type \<leftarrow> rd src 3;
           let m1 = m\<lparr>body_p := 0, body_len := src_len\<rparr>;
           if NAL_type = 0xb6 then
             do {
               b4 \<leftarrow> rd src 4;
               Some (0, h264_clock (m1\<lparr>frame_type :=
                 if drop_bit 6 b4 AND 3 = 0 then FT_VIDEO_I_FRAME else FT_VIDEO_FRAME\<rparr>))
             }
           else if NAL_type = 0xf0 then Some (0, m1\<lparr>frame_type := FT_AUDIO_FRAME\<rparr>)
           else if NAL_type = 0xfb then
             do {
               b6 \<leftarrow> rd src 6;
               b7 \<leftarrow> rd src 7;
               let m2 = m1\<lparr>v_width := ucast b6 * 8, v_height := ucast b7 * 8, dhav_fps := 20\<rparr>;
               (x, y) \<leftarrow> guess_aspect (v_width m2) (v_height m2);
               Some (0, h264_clock (m2\<lparr>v_aspect_x := x, v_aspect_y := y,
                          NTSC_timings := guess_ntsc (v_height m2) (dhav_fps m2), has_v_parms := True\<rparr>))
             }
           else Some (0, m1)
         })"

section \<open>The parser of the extended header\<close>

type_synonym subfield = "byte \<times> byte list"

definition sf_ok :: "subfield \<Rightarrow> bool" where
  "sf_ok f \<longleftrightarrow> length (snd f) + 1 = sf_len (fst f)"

definition sf_bytes :: "subfield \<Rightarrow> byte list" where
  "sf_bytes f = fst f # snd f"

fun sf_store :: "byte list \<Rightarrow> byte \<Rightarrow> nat \<Rightarrow> byte list \<Rightarrow> byte list" where
  "sf_store arr i p [] = arr"
| "sf_store arr i p (d # ds) = sf_store (arr[sf_index i p := d]) i (p + 1) ds"

lemma sf_loop_strip:
  "sf_loop (ds @ xs) i (length ds) p arr = (if ds = [] then sf_loop xs i 0 p arr
     else sf_loop xs i 0 (p + length ds) (sf_store arr i p ds))"
proof (induction ds arbitrary: p arr)
  case (Cons d ds)
  then show ?case by (cases ds) simp_all
qed simp

lemma sf_len_pos: "0 < sf_len i" "sf_len i \<le> 8"
  by (simp_all add: sf_len_def)

lemma sf_loop_field:
  assumes "sf_ok f"
  shows "sf_loop (sf_bytes f @ xs) i 0 p arr =
    sf_loop xs (fst f) 0 (sf_len (fst f)) (sf_store arr (fst f) 0 (sf_bytes f))"
proof -
  obtain k ds where f: "f = (k, ds)" by fastforce
  then have len: "length ds = sf_len k - 1" "ds \<noteq> []"
    using assms by (auto simp: sf_ok_def sf_len_def split: if_splits)
  then have "1 + length ds = sf_len k" using sf_len_pos [of k] by simp
  then show ?thesis
    using sf_loop_strip [of ds xs k 1 "arr[sf_index k 0 := k]"] f len
    by (simp add: sf_bytes_def del: One_nat_def)
qed

lemma sf_loop_zero_state: "sf_loop xs i 0 p arr = sf_loop xs j 0 q arr"
  by (cases xs) simp_all

lemma length_sf_store [simp]: "length (sf_store arr i p ds) = length arr"
  by (induction ds arbitrary: arr p) simp_all

lemma sf_store_nth:
  "p + length ds \<le> 8 \<Longrightarrow> length arr = 2048 \<Longrightarrow> k < 8 \<Longrightarrow>
   sf_store arr i p ds ! sf_index j k =
     (if i = j \<and> p \<le> k \<and> k < p + length ds then ds ! (k - p) else arr ! sf_index j k)"
proof (induction ds arbitrary: arr p)
  case (Cons d ds)
  have inj: "sf_index i p = sf_index j k \<longleftrightarrow> i = j \<and> p = k"
  proof
    assume "sf_index i p = sf_index j k"
    then have "unat i * 8 + p = unat j * 8 + k" by (simp add: sf_index_def DHAV_SF_STRIPLEN_MAX_def)
    moreover have "p < 8" "k < 8" using Cons.prems by simp_all
    ultimately have "unat i = unat j" "p = k" by presburger+
    then show "i = j \<and> p = k" by (simp add: word_unat_eq_iff)
  qed simp
  have "unat j < 2 ^ LENGTH(8)" by (rule unsigned_less)
  then have "sf_index j k < 2048" using Cons.prems by (simp add: sf_index_def DHAV_SF_STRIPLEN_MAX_def)
  then show ?case
    using Cons inj by (auto simp: nth_list_update nth_Cons' simp del: One_nat_def)
qed auto

definition sf_lookup :: "subfield list \<Rightarrow> byte \<Rightarrow> nat \<Rightarrow> byte \<Rightarrow> byte" where
  "sf_lookup fs i k d = (case map_of (rev fs) i of None \<Rightarrow> d | Some ds \<Rightarrow> (i # ds) ! k)"

lemma sf_lookup_Cons:
  "sf_lookup (f # fs) i k d = sf_lookup fs i k (if fst f = i then sf_bytes f ! k else d)"
  by (auto simp: sf_lookup_def sf_bytes_def map_add_def split: option.split)

lemma sf_loop_lookup:
  "\<forall>f \<in> set fs. sf_ok f \<Longrightarrow> length arr = 2048 \<Longrightarrow> k < sf_len i \<Longrightarrow>
   sf_loop (concat (map sf_bytes fs)) j 0 p arr ! sf_index i k = sf_lookup fs i k (arr ! sf_index i k)"
proof (induction fs arbitrary: j p arr)
  case Nil
  then show ?case by (simp add: sf_lookup_def)
next
  case (Cons f fs)
  let ?arr = "sf_store arr (fst f) 0 (sf_bytes f)"
  have ok: "sf_ok f" using Cons.prems by simp
  have len: "length (sf_bytes f) = sf_len (fst f)" using ok by (simp add: sf_ok_def sf_bytes_def)
  have "?arr ! sf_index i k = (if fst f = i then sf_bytes f ! k else arr ! sf_index i k)"
    by (subst sf_store_nth) (use Cons.prems len sf_len_pos [of "fst f"] sf_len_pos [of i] in auto)
  moreover have "sf_loop (concat (map sf_bytes (f # fs))) j 0 p arr ! sf_index i k =
      sf_lookup fs i k (?arr ! sf_index i k)"
    using Cons.IH [of ?arr "fst f" "sf_len (fst f)"] Cons.prems sf_loop_field [OF ok] by simp
  ultimately show ?case unfolding sf_lookup_Cons by (simp only:)
qed

section \<open>The clock\<close>

lemma collect_clock_next:
  assumes "\<not> mp_first_frame m" "mp_dhav_ts_prev m = of_nat a" "a \<le> b" "b < a + 2 ^ 16"
  shows "mp_timestamp (collect_clock m (of_nat b) e) = mp_timestamp m + of_nat ((b - a) * 1000000)"
    and "mp_dhav_ts_prev (collect_clock m (of_nat b) e) = of_nat b"
    and "\<not> mp_first_frame (collect_clock m (of_nat b) e)"
proof -
  obtain k where k: "b = a + k" "k < 2 ^ 16" using assms(3,4) by (metis le_Suc_ex nat_add_left_cancel_less)
  have "unat (of_nat k :: u16) = k" using k(2) by (simp add: unat_of_nat)
  moreover have "ucast (of_nat k :: u16) = (of_nat (unat (of_nat k :: u16)) :: u64)" by simp
  ultimately have "ucast ((of_nat b :: u16) - of_nat a) = (of_nat (b - a) :: u64)"
    unfolding k(1) by (simp only: of_nat_add add_diff_cancel_left')
  then show "mp_timestamp (collect_clock m (of_nat b) e) = mp_timestamp m + of_nat ((b - a) * 1000000)"
    using assms(1,2) by (simp add: collect_clock_def Let_def)
qed (use assms in \<open>simp_all add: collect_clock_def Let_def\<close>)

definition ticks :: "(nat \<times> u32) list \<Rightarrow> t_mc_parms \<Rightarrow> t_mc_parms" where
  "ticks = fold (\<lambda>(t, e) m. collect_clock m (of_nat t) e)"

lemma ticks_tail:
  "\<not> mp_first_frame m \<Longrightarrow> mp_dhav_ts_prev m = of_nat a \<Longrightarrow> mp_timestamp m = of_nat ((a - t0) * 1000000) \<Longrightarrow>
   t0 \<le> a \<Longrightarrow> successively (\<lambda>x y. fst x \<le> fst y \<and> fst y < fst x + 2 ^ 16) ((a, e) # ts) \<Longrightarrow>
   mp_timestamp (ticks ts m) = of_nat ((fst (last ((a, e) # ts)) - t0) * 1000000)"
proof (induction ts arbitrary: m a e)
  case Nil
  then show ?case by (simp add: ticks_def)
next
  case (Cons x ts)
  obtain b e' where x: "x = (b, e')" by fastforce
  then have b: "a \<le> b" "b < a + 2 ^ 16" using Cons.prems(5) by simp_all
  note step = collect_clock_next [OF Cons.prems(1,2) b, of e']
  have "(a - t0) * 1000000 + (b - a) * 1000000 = (b - t0) * (1000000 :: nat)"
    using b Cons.prems(4) by (simp add: add_mult_distrib [symmetric])
  then have "mp_timestamp (collect_clock m (of_nat b) e') = of_nat ((b - t0) * 1000000)"
    using step(1) Cons.prems(3) by (metis of_nat_add)
  from Cons.IH [OF step(3,2) this] b Cons.prems(4,5) x show ?case by (simp add: ticks_def)
qed

section \<open>A built frame\<close>

definition dhav_media :: "byte list \<Rightarrow> u32 \<Rightarrow> u16 \<Rightarrow> byte \<Rightarrow> byte list \<Rightarrow> byte list \<Rightarrow> byte list" where
  "dhav_media hdr epoch ts y ext payload =
     dhav_wrap hdr (BT_NV2LM_U32 epoch @ BT_NV2LM_U16 ts @ [of_nat (length ext), y] @ ext @ payload)"

lemma dhav_media_read:
  assumes "length (t # x7) = 8" "length ext < 256" "length payload < 2 ^ 30"
    and f_def: "f = dhav_media (t # x7) epoch ts y ext payload"
  shows "length f = 32 + length ext + length payload" "dhav_frame f"
    and "rd (f @ junk) 4 = Some t" "rd (f @ junk) 22 = Some (of_nat (length ext))"
    and "rd_slice (f @ junk) 24 (length ext) = Some ext"
    and "rd_slice (f @ junk) 20 2 = Some (BT_NV2LM_U16 ts)"
    and "rd_slice (f @ junk) 16 4 = Some (BT_NV2LM_U32 epoch)"
    and "take (length payload) (drop (24 + length ext) f) = payload"
proof -
  let ?body = "BT_NV2LM_U32 epoch @ BT_NV2LM_U16 ts @ [of_nat (length ext), y] @ ext @ payload"
  have body: "length ?body = 8 + length ext + length payload" by simp
  then have "length ?body < 2 ^ 31 - 24" using assms(2,3) by simp
  from dhav_wrap_frame [OF assms(1) this] body show "dhav_frame f" "length f = 32 + length ext + length payload"
    by (simp_all add: f_def dhav_media_def)
  define n where "n = BT_NV2LM_U32 (of_nat (24 + length ?body))"
  have n: "length n = 4" "f = str_DHAV @ (t # x7) @ n @ ?body @ str_dhav @ n"
    unfolding f_def dhav_media_def dhav_wrap_def Let_def n_def by simp_all
  have s: "length str_DHAV = 4" "length x7 = 7" using literals assms(1) by simp_all
  obtain pre where f16: "f = pre @ ?body @ str_dhav @ n" "length pre = 16"
  proof
    show "f = (str_DHAV @ t # x7 @ n) @ ?body @ str_dhav @ n" using n by simp
    show "length (str_DHAV @ t # x7 @ n) = 16" using n s by simp
  qed
  show "rd (f @ junk) 4 = Some t" using n s by (simp add: rd_def nth_append)
  show "rd (f @ junk) 22 = Some (of_nat (length ext))"
    unfolding f16 using f16(2) by (simp add: rd_def nth_append)
  show "rd_slice (f @ junk) 24 (length ext) = Some ext"
    unfolding f16 using f16(2) by (simp add: rd_slice_def)
  show "rd_slice (f @ junk) 20 2 = Some (BT_NV2LM_U16 ts)"
    unfolding f16 using f16(2) by (simp add: rd_slice_def)
  show "rd_slice (f @ junk) 16 4 = Some (BT_NV2LM_U32 epoch)"
    unfolding f16 using f16(2) by (simp add: rd_slice_def)
  show "take (length payload) (drop (24 + length ext) f) = payload"
    unfolding f16 using f16(2) by simp
qed

lemma collect_clock_keeps [simp]:
  "v_width (collect_clock m ts e) = v_width m" "v_height (collect_clock m ts e) = v_height m"
  "dhav_fps (collect_clock m ts e) = dhav_fps m" "frame_type (collect_clock m ts e) = frame_type m"
  "has_v_parms (collect_clock m ts e) = has_v_parms m" "mp_epoch (collect_clock m ts e) = e"
  "mp_dhav_ts (collect_clock m ts e) = ts" "NTSC_timings (collect_clock m ts e) = NTSC_timings m"
  "ntsc_exact_60hz (collect_clock m ts e) = ntsc_exact_60hz m"
  by (simp_all add: collect_clock_def Let_def)

lemma height_not_zero: "(h :: byte) \<noteq> 0 \<Longrightarrow> ucast h * (8 :: u32) \<noteq> 0"
proof
  assume h: "h \<noteq> 0" "ucast h * (8 :: u32) = 0"
  have lt: "unat h < 256" using unsigned_less [of h] by simp
  have "unat (ucast h * (8 :: u32)) = unat h * 8"
    using lt by (simp add: unat_word_ariths unat_ucast_byte_u32)
  with h(2) have "unat h = 0" by simp
  with h(1) show False by (simp add: unat_eq_0)
qed

text \<open>The array after parsing a sequence of subfields.\<close>

lemma sf_data_lookup:
  assumes "\<forall>f \<in> set fs. sf_ok f" "k < sf_len i"
  shows "DHAV_SF_DATA (dhav_sf_parse_ext_head (concat (map sf_bytes fs))) i k = sf_lookup fs i k 0"
proof -
  have "unat i < 2 ^ LENGTH(8)" by (rule unsigned_less)
  then have "sf_index i k < 2048"
    using assms(2) sf_len_pos [of i] by (simp add: sf_index_def DHAV_SF_STRIPLEN_MAX_def)
  then show ?thesis
    using sf_loop_lookup [OF assms(1) _ assms(2), of "replicate 2048 0" 0 0]
    by (simp add: DHAV_SF_DATA_def dhav_sf_parse_ext_head_def DHAV_SF_STRIPLEN_MAX_def)
qed

section \<open>Built frames are understood\<close>

lemma collect_i_media:
  assumes x7: "length x7 = 7" and fs: "\<forall>f \<in> set fs. sf_ok f" "length (concat (map sf_bytes fs)) < 256"
    and geo: "map_of (rev fs) 0x80 = Some [a, w, h]" "h \<noteq> 0" and fps: "map_of (rev fs) 0x81 = Some [b, c, r]" "r \<noteq> 0"
    and payload: "length payload < 2 ^ 30"
    and f: "f = dhav_media (0xfd # x7) epoch ts y (concat (map sf_bytes fs)) payload"
  shows "\<exists>m'. dt_collect_dhav_frame_info m (f @ junk) (length f) = Some (0, m') \<and>
    frame_type m' = FT_VIDEO_I_FRAME \<and> has_v_parms m' \<and>
    v_width m' = ucast w * 8 \<and> v_height m' = ucast h * 8 \<and> dhav_fps m' = r \<and>
    mp_epoch m' = epoch \<and> mp_dhav_ts m' = ts \<and>
    take (body_len m') (drop (body_p m') f) = payload \<and> body_len m' = length payload \<and> body_p m' + body_len m' \<le> length f"
proof -
  let ?ext = "concat (map sf_bytes fs)"
  have t8: "length ((0xfd :: byte) # x7) = 8" using x7 by simp
  note read = dhav_media_read [OF t8 fs(2) payload f]
  let ?sf = "dhav_sf_parse_ext_head ?ext"
  have sf: "DHAV_SF_DATA ?sf 0x80 2 = w" "DHAV_SF_DATA ?sf 0x80 3 = h" "DHAV_SF_DATA ?sf 0x81 3 = r"
    using geo(1) fps(1) sf_data_lookup [OF fs(1), of 2 "0x80"] sf_data_lookup [OF fs(1), of 3 "0x80"]
      sf_data_lookup [OF fs(1), of 3 "0x81"]
    by (simp_all add: sf_len_def sf_lookup_def)
  have "guess_aspect (ucast w * 8) (ucast h * 8) \<noteq> None"
    using height_not_zero [OF geo(2)] by (simp add: guess_aspect_def)
  then obtain ax ay where asp: "guess_aspect (ucast w * 8) (ucast h * 8) = Some (ax, ay)" by fastforce
  define n where "n = length ?ext"
  have n: "unat (of_nat n :: byte) = n" using fs(2) by (simp add: n_def unat_of_nat)
  have len: "size_sub (size_sub (length f) (24 + n)) 8 = length payload"
    using read(1) fs(2) payload by (simp add: n_def size_sub_ge)
  show ?thesis
    using read(1,3-8) sf asp fps(2) n len
    by (simp add: dt_collect_dhav_frame_info_def collect_head_def collect_i_frame_def Let_def BASE_DHAV_HDR_LEN_def
        n_def [symmetric] add.commute)
qed

lemma collect_p_media:
  assumes x7: "length x7 = 7" and ext: "length ext < 256" and payload: "length payload < 2 ^ 30"
    and f: "f = dhav_media (0xfc # x7) epoch ts y ext payload" and parms: "has_v_parms m"
  shows "\<exists>m'. dt_collect_dhav_frame_info m (f @ junk) (length f) = Some (0, m') \<and>
    frame_type m' = FT_VIDEO_FRAME \<and> has_v_parms m' \<and> dhav_fps m' = dhav_fps m \<and>
    take (body_len m') (drop (body_p m') f) = payload \<and> body_len m' = length payload \<and>
    body_p m' + body_len m' \<le> length f"
proof -
  have t8: "length ((0xfc :: byte) # x7) = 8" using x7 by simp
  note read = dhav_media_read [OF t8 ext payload f]
  define n where "n = length ext"
  have n: "unat (of_nat n :: byte) = n" using ext by (simp add: n_def unat_of_nat)
  have len: "size_sub (size_sub (length f) (24 + n)) 8 = length payload"
    using read(1) ext payload by (simp add: n_def size_sub_ge)
  show ?thesis
    using read(1,3-8) n len parms
    by (simp add: dt_collect_dhav_frame_info_def collect_head_def Let_def BASE_DHAV_HDR_LEN_def
        n_def [symmetric] add.commute)
qed

section \<open>Properties\<close>

definition sample_parms :: t_mc_parms where
  "sample_parms = \<lparr>mc_format = MC_FORM_MKV, mp_first_frame = True, ntsc_exact_60hz = False,
     frame_type = FT_UNDEFINED, has_v_parms = True, v_width = 352, v_height = 240, v_aspect_x = 4, v_aspect_y = 3,
     mp_epoch = 0, mp_timestamp = 0, mp_dhav_ts = 0, NTSC_timings = True, dhav_fps = 30, mp_dhav_ts_prev = 0,
     body_p = 0, body_len = 0\<rparr>"

text \<open>
  The extended header: for any sequence of well-formed subfields, the array holds for every
  identifier the bytes of the last subfield with it, and zeros for an identifier that does not
  occur; the strips never spill into each other.
\<close>
lemma ext_head_lookup:
  "\<forall>f \<in> set fs. sf_ok f \<Longrightarrow> k < sf_len i \<Longrightarrow>
   DHAV_SF_DATA (dhav_sf_parse_ext_head (concat (map sf_bytes fs))) i k =
     (case map_of (rev fs) i of None \<Rightarrow> 0 | Some ds \<Rightarrow> (i # ds) ! k)"
  by (simp add: sf_data_lookup sf_lookup_def split: option.split)

lemma ext_head_lookup_witness:
  "DHAV_SF_DATA (dhav_sf_parse_ext_head (concat (map sf_bytes [(0x80, [1, 44, 30]), (0x88, [1, 2, 3, 4, 5, 6, 7])]))) 0x80 2 = 44"
  using ext_head_lookup [of "[(0x80, [1, 44, 30]), (0x88, [1, 2, 3, 4, 5, 6, 7])]" 2 "0x80"]
  by (simp add: sf_ok_def sf_len_def)

text \<open>
  C35: The video clock. From the 16-bit millisecond counter of the frames the program reconstructs the
  elapsed time exactly, across any number of wrap-arounds, provided successive frames are less than
  65536 ms apart: after frames at true times t0, ..., tn the timestamp is tn - t0 in nanoseconds
  (modulo 2^64).
\<close>
theorem dhav_clock_follows:
  assumes "mp_first_frame m"
    and gaps: "successively (\<lambda>x y. fst x \<le> fst y \<and> fst y < fst x + 2 ^ 16) ((t0, e0) # ts)"
  shows "mp_timestamp (fold (\<lambda>(t, e) m. collect_clock m (of_nat t) e) ((t0, e0) # ts) m) =
    of_nat ((fst (last ((t0, e0) # ts)) - t0) * 1000000)"
  using ticks_tail [of "collect_clock m (of_nat t0) e0" t0 t0 e0 ts] assms
  by (simp add: collect_clock_def Let_def ticks_def)

lemma dhav_clock_follows_witness:
  "mp_timestamp (fold (\<lambda>(t, e) m. collect_clock m (of_nat t) e) [(65500, 1), (65540, 1), (131000, 2)]
     (mc_init sample_parms MC_FORM_MKV False)) = of_nat ((131000 - 65500) * 1000000)"
  using dhav_clock_follows [of "mc_init sample_parms MC_FORM_MKV False" 65500 1 "[(65540, 1), (131000, 2)]"]
  by (simp add: mc_init_def)

text \<open>
  C16: An I-frame is understood: from a frame built with any header bytes, epoch, timestamp, subfields
  and payload, anywhere in a larger buffer, the program takes width, height (eight times the bytes of
  subfield 0x80) and frame rate (subfield 0x81), the epoch and the timestamp, marks the parameters
  valid, and locates exactly the payload as the body.
\<close>
theorem i_frame_collected:
  assumes x7: "length x7 = 7" and fs: "\<forall>f \<in> set fs. sf_ok f" "length (concat (map sf_bytes fs)) < 256"
    and geo: "map_of (rev fs) 0x80 = Some [a, w, h]" "h \<noteq> 0" and fps: "map_of (rev fs) 0x81 = Some [b, c, r]" "r \<noteq> 0"
    and payload: "length payload < 2 ^ 30"
    and f: "f = dhav_media (0xfd # x7) epoch ts y (concat (map sf_bytes fs)) payload"
  shows "\<exists>m'. dt_collect_dhav_frame_info m (f @ junk) (length f) = Some (0, m') \<and>
    frame_type m' = FT_VIDEO_I_FRAME \<and> has_v_parms m' \<and>
    v_width m' = ucast w * 8 \<and> v_height m' = ucast h * 8 \<and> dhav_fps m' = r \<and>
    mp_epoch m' = epoch \<and> mp_dhav_ts m' = ts \<and>
    take (body_len m') (drop (body_p m') f) = payload \<and> body_len m' = length payload"
  using collect_i_media [OF assms] by blast

lemma i_frame_collected_witness:
  "\<exists>m'. dt_collect_dhav_frame_info sample_parms (dhav_media (0xfd # replicate 7 0) 5 6 0
        (concat (map sf_bytes [(0x80, [1, 44, 30]), (0x81, [0, 0, 25])])) [1, 2, 3] @ [9])
      (length (dhav_media (0xfd # replicate 7 0) 5 6 0
        (concat (map sf_bytes [(0x80, [1, 44, 30]), (0x81, [0, 0, 25])])) [1, 2, 3])) = Some (0, m') \<and>
    v_width m' = 352 \<and> v_height m' = 240 \<and> dhav_fps m' = 25"
  using i_frame_collected [of "replicate 7 0" "[(0x80, [1, 44, 30]), (0x81, [0, 0, 25])]" 1 44 30 0 0 25
      "[1, 2, 3]" _ 5 6 0 sample_parms "[9]", OF _ _ _ _ _ _ _ _ refl]
  by (auto simp: sf_ok_def sf_len_def sf_bytes_def)

text \<open>
  C40: An I-frame that announces 0 frames per second is refused with -1, but leaves the zero frame rate
  and an earlier permission to use the parameters in place; one with height 0 makes the program
  divide by zero.
\<close>
theorem i_frame_refused:
  "src_len > 0 \<Longrightarrow> rd src 4 = Some 0xfd \<Longrightarrow> rd src 22 = Some n \<Longrightarrow> rd_slice src 24 (unat n) = Some ext \<Longrightarrow>
   (DHAV_SF_DATA (dhav_sf_parse_ext_head ext) 0x81 3 = 0 \<longrightarrow>
      (\<exists>m'. dt_collect_dhav_frame_info m src src_len = Some (-1, m') \<and> dhav_fps m' = 0 \<and>
         has_v_parms m' = has_v_parms m \<and> frame_type m' = FT_UNDEFINED)) \<and>
   (DHAV_SF_DATA (dhav_sf_parse_ext_head ext) 0x81 3 \<noteq> 0 \<and> DHAV_SF_DATA (dhav_sf_parse_ext_head ext) 0x80 3 = 0 \<longrightarrow>
      dt_collect_dhav_frame_info m src src_len = None)"
  by (simp add: dt_collect_dhav_frame_info_def collect_head_def collect_i_frame_def Let_def BASE_DHAV_HDR_LEN_def guess_aspect_def)

definition bare_i_frame :: "byte list" where
  "bare_i_frame = [0, 0, 0, 0, 0xfd, 0, 0, 0, 0, 0, 0, 0, 0, 0, 0, 0, 0, 0, 0, 0, 0, 0, 4, 0, 0x81, 0, 0, 25]"

lemma i_frame_refused_witness:
  "dt_collect_dhav_frame_info sample_parms bare_i_frame 28 = None"
proof -
  have ext: "dhav_sf_parse_ext_head [0x81, 0, 0, 25] = dhav_sf_parse_ext_head (concat (map sf_bytes [(0x81, [0, 0, 25])]))"
    by (simp add: sf_bytes_def)
  have ok: "\<forall>f \<in> set [(0x81 :: byte, [0, 0, 25 :: byte])]. sf_ok f" by (simp add: sf_ok_def sf_len_def)
  have "DHAV_SF_DATA (dhav_sf_parse_ext_head [0x81, 0, 0, 25]) 0x81 3 = 25"
    "DHAV_SF_DATA (dhav_sf_parse_ext_head [0x81, 0, 0, 25]) 0x80 3 = 0"
    unfolding ext using sf_data_lookup [OF ok, of 3 "0x81"] sf_data_lookup [OF ok, of 3 "0x80"]
    by (simp_all add: sf_len_def sf_lookup_def)
  then show ?thesis
    using i_frame_refused [of 28 bare_i_frame 4 "[0x81, 0, 0, 25]" sample_parms]
    by (simp add: bare_i_frame_def rd_def rd_slice_def)
qed

text \<open>
  A configuration unit of a raw H.264 stream is no picture, yet it moves the clock by 60 ms like one
  does: the test that should exclude it is an assignment.
\<close>
lemma h264_config_moves_clock:
  "src_len > 0 \<Longrightarrow> rd src 3 = Some 0xfb \<Longrightarrow> rd src 6 = Some w \<Longrightarrow> rd src 7 = Some h \<Longrightarrow> h \<noteq> 0 \<Longrightarrow>
   \<not> mp_first_frame m \<Longrightarrow>
   \<exists>m'. dt_collect_raw_h264_frame_info m src src_len = Some (0, m') \<and> frame_type m' = FT_UNDEFINED \<and>
     mp_timestamp m' = mp_timestamp m + 60000000"
proof -
  assume a: "src_len > 0" "rd src 3 = Some 0xfb" "rd src 6 = Some w" "rd src 7 = Some h" "h \<noteq> 0" "\<not> mp_first_frame m"
  obtain x y where "guess_aspect (ucast w * 8) (ucast h * 8) = Some (x, y)"
    using height_not_zero [OF a(5)] by (auto simp: guess_aspect_def prod_eq_iff)
  with a show ?thesis by (simp add: dt_collect_raw_h264_frame_info_def h264_clock_def Let_def)
qed

lemma h264_config_moves_clock_witness:
  "\<exists>m'. dt_collect_raw_h264_frame_info (sample_parms\<lparr>mp_first_frame := False, mp_timestamp := 5\<rparr>)
      [0, 0, 1, 0xfb, 0, 0, 44, 36] 8 = Some (0, m') \<and> frame_type m' = FT_UNDEFINED \<and>
    mp_timestamp m' = 5 + 60000000"
  using h264_config_moves_clock [of 8 "[0, 0, 1, 0xfb, 0, 0, 44, 36]" 44 36
      "sample_parms\<lparr>mp_first_frame := False, mp_timestamp := 5\<rparr>"]
  by (simp add: rd_def)

end
