(* ===== verification/Timestamps.thy ===== *)
theory Timestamps
  imports Frame_Info "HOL-Library.Signed_Division"
begin

text \<open>
  \<open>dt_tsproc_process\<close> of \<open>src/mctools.c\<close>, which replaces the jittery timestamps of the DVR by a clock
  that advances in whole frame periods. \<open>uint64_t\<close> clocks are words; the signed 64-bit periods,
  whose values stay small, are \<open>int\<close>, with C's truncating division (\<open>sdiv\<close>). The averages the code
  computes in \<open>long double\<close> only go to the log and are left out.
\<close>

section \<open>State\<close>

record t_mc_tsproc =
  ts_first_frame :: bool
  v_dhav_timestamp :: u64
  v_timestamp :: u64
  sdc_t_dhav :: int
  sdc_t_ref :: int
  sdc_t_eff :: int
  sdc_t_frames :: int
  v_dhav_ts :: u16
  v_dhav_ts_prev :: u16
  dhav_epoch :: u32
  dhav_epoch_prev :: u32

definition TIMESTAMP_JITTER_DAMPING_LIMIT :: int where "TIMESTAMP_JITTER_DAMPING_LIMIT = 4"
definition SLOW_DRIFT_EVAL_MIN_SAMPLES :: int where "SLOW_DRIFT_EVAL_MIN_SAMPLES = 1000"
definition EPOCH_MAX_FORWARD_JUMP :: u64 where "EPOCH_MAX_FORWARD_JUMP = 30"
definition MAX_EPOCH_PEDANTRY_TOWARDS_TIMESTAMP :: u64 where "MAX_EPOCH_PEDANTRY_TOWARDS_TIMESTAMP = 5"

text \<open>\<open>t0\<close>: what \<open>malloc\<close> left in the structure.\<close>

definition dt_tsproc_init :: "t_mc_tsproc \<Rightarrow> t_mc_tsproc" where
  "dt_tsproc_init t0 = t0\<lparr>ts_first_frame := True\<rparr>"

section \<open>The operation\<close>

definition tsproc_start :: "t_mc_parms \<Rightarrow> t_mc_tsproc \<Rightarrow> t_mc_tsproc" where
  "tsproc_start mcp tsc =
     tsc\<lparr>ts_first_frame := False, v_dhav_timestamp := 0, v_timestamp := 0, sdc_t_dhav := 0, sdc_t_ref := 0,
         sdc_t_eff := 0, sdc_t_frames := 0, dhav_epoch := mp_epoch mcp, v_dhav_ts := mp_dhav_ts mcp\<rparr>"

definition ref_period :: "t_mc_parms \<Rightarrow> int option" where
  "ref_period mcp =
     (if dhav_fps mcp = 0 then None
      else Some ((if NTSC_timings mcp \<and> \<not> ntsc_exact_60hz mcp then 1001000000 else 1000000000)
                   div uint (dhav_fps mcp)))"

text \<open>The end of the function, with the period chosen for the output clock.\<close>

definition last_actions :: "bool \<Rightarrow> int \<Rightarrow> int \<Rightarrow> t_mc_tsproc \<Rightarrow> t_mc_tsproc" where
  "last_actions p_reset_sf period_to_use dhav_period tsc =
     (let t = (if p_reset_sf
               then tsc\<lparr>sdc_t_dhav := 0, sdc_t_ref := 0, sdc_t_eff := 0, sdc_t_frames := 0\<rparr> else tsc)
      in t\<lparr>v_timestamp := v_timestamp t + of_int period_to_use,
           v_dhav_timestamp := v_dhav_timestamp t + of_int dhav_period\<rparr>)"

text \<open>The slow-drift statistics, from the second frame on, when nothing else had to be corrected.\<close>

definition tsproc_slow :: "int \<Rightarrow> int \<Rightarrow> t_mc_tsproc \<Rightarrow> t_mc_tsproc" where
  "tsproc_slow ref dhav_period tsc =
     (let t = tsc\<lparr>sdc_t_dhav := sdc_t_dhav tsc + dhav_period, sdc_t_ref := sdc_t_ref tsc + ref,
                  sdc_t_eff := sdc_t_eff tsc + ref, sdc_t_frames := sdc_t_frames tsc + 1\<rparr>;
          tot_period_diff_eff = sdc_t_dhav t - sdc_t_eff t;
          tot_period_diff_eff_abs = \<bar>tot_period_diff_eff\<bar>
      in if tot_period_diff_eff_abs > ref * 2 \<and> sdc_t_frames t \<ge> SLOW_DRIFT_EVAL_MIN_SAMPLES then
           (let j = tot_period_diff_eff sdiv ref; j_abs = \<bar>j\<bar>
            in if j_abs > 2 then last_actions True (ref + j * ref) dhav_period t
               else let period_to_use = ref + 1 * ref
                    in last_actions False period_to_use dhav_period
                         (t\<lparr>sdc_t_eff := sdc_t_eff t + period_to_use - ref\<rparr>))
         else last_actions False ref dhav_period t)"

definition tsproc_later :: "int \<Rightarrow> t_mc_parms \<Rightarrow> t_mc_tsproc \<Rightarrow> t_mc_tsproc" where
  "tsproc_later ref mcp tsc =
     (let t = tsc\<lparr>dhav_epoch_prev := dhav_epoch tsc, dhav_epoch := mp_epoch mcp,
                  v_dhav_ts_prev := v_dhav_ts tsc, v_dhav_ts := mp_dhav_ts mcp\<rparr>;
          epoch_prev = ucast (dhav_epoch tsc) :: u64;
          epoch_cur = ucast (mp_epoch mcp) :: u64;
          dhav_period_ms = mp_dhav_ts mcp - v_dhav_ts tsc;
          dhav_period = uint dhav_period_ms * 1000000;
          dhav_epoch_diff = epoch_cur - epoch_prev
      in if epoch_cur < epoch_prev then
           last_actions True ref ref (t\<lparr>v_dhav_timestamp := v_timestamp t\<rparr>)
         else if dhav_epoch_diff > EPOCH_MAX_FORWARD_JUMP then
           (if dhav_epoch_diff > MAX_EPOCH_PEDANTRY_TOWARDS_TIMESTAMP then
              last_actions True ref ref (t\<lparr>v_dhav_timestamp := v_timestamp t\<rparr>)
            else
              let j = uint ((dhav_epoch_diff * 1000000000) div of_int ref);
                  period_to_use = (j + 1) * ref
              in last_actions True period_to_use period_to_use (t\<lparr>v_dhav_timestamp := v_timestamp t\<rparr>))
         else
           let timestamp_drift =
                 sint ((v_dhav_timestamp t + of_int dhav_period) - (v_timestamp t + of_int ref));
               timestamp_drift_abs = \<bar>timestamp_drift\<bar>
           in if timestamp_drift_abs > TIMESTAMP_JITTER_DAMPING_LIMIT * ref then
                (let j = timestamp_drift sdiv ref
                 in last_actions True (ref + j * ref) dhav_period t)
              else tsproc_slow ref dhav_period t)"

text \<open>
  The result is the returned code, where there is one: the function falls off its end after
  processing a frame (its callers ignore the value).
\<close>

definition dt_tsproc_process :: "t_mc_parms \<Rightarrow> t_mc_tsproc \<Rightarrow> (int option \<times> t_mc_tsproc) option" where
  "dt_tsproc_process mcp tsc =
     (if frame_type mcp \<noteq> FT_VIDEO_I_FRAME \<and> frame_type mcp \<noteq> FT_VIDEO_FRAME then Some (Some 2, tsc)
      else if \<not> has_v_parms mcp then Some (Some 1, tsc)
      else if ts_first_frame tsc then Some (Some 0, tsproc_start mcp tsc)
      else do {
        ref \<leftarrow> ref_period mcp;
        Some (None, tsproc_later ref mcp tsc)
      })"

section \<open>Distance between the two clocks\<close>

definition clock_drift :: "t_mc_tsproc \<Rightarrow> int" where
  "clock_drift t = sint (v_dhav_timestamp t - v_timestamp t)"

lemma sint_of_int64: "\<bar>k\<bar> < 2 ^ 63 \<Longrightarrow> sint (of_int k :: u64) = k"
  by (simp add: signed_of_int signed_take_bit_int_eq_self)

lemma of_int_sint64: "of_int (sint (w :: u64)) = w"
  by simp

lemma clock_drift_advance:
  assumes "\<bar>clock_drift t + p - q\<bar> < 2 ^ 63"
  shows "sint ((v_dhav_timestamp t + of_int p) - (v_timestamp t + of_int q)) = clock_drift t + p - q"
proof -
  have "(v_dhav_timestamp t + of_int p) - (v_timestamp t + of_int q) =
      of_int (sint (v_dhav_timestamp t - v_timestamp t)) + of_int p - of_int q"
    by (simp add: algebra_simps)
  also have "\<dots> = (of_int (clock_drift t + p - q) :: u64)"
    by (simp add: clock_drift_def)
  finally have e: "(v_dhav_timestamp t + of_int p) - (v_timestamp t + of_int q) =
      (of_int (clock_drift t + p - q) :: u64)" .
  show ?thesis unfolding e by (rule sint_of_int64) (rule assms)
qed

lemma last_actions_drift:
  assumes "\<bar>clock_drift t + dp - p\<bar> < 2 ^ 63"
  shows "clock_drift (last_actions r p dp t) = clock_drift t + dp - p"
  using clock_drift_advance [OF assms] by (simp add: last_actions_def clock_drift_def Let_def)

text \<open>The difference of the statistics, and what division leaves of a difference.\<close>

definition slow_diff :: "t_mc_tsproc \<Rightarrow> int" where
  "slow_diff t = sdc_t_dhav t - sdc_t_eff t"

lemma last_actions_diff:
  "slow_diff (last_actions r p dp t) = (if r then 0 else slow_diff t)"
  by (simp add: last_actions_def slow_diff_def Let_def)

lemma sdiv_rest:
  fixes a b :: int assumes "0 < b"
  shows "0 \<le> a \<Longrightarrow> 0 \<le> a - a sdiv b * b \<and> a - a sdiv b * b < b"
    and "a \<le> 0 \<Longrightarrow> - b < a - a sdiv b * b \<and> a - a sdiv b * b \<le> 0"
proof -
  show "0 \<le> a - a sdiv b * b \<and> a - a sdiv b * b < b" if "0 \<le> a"
  proof -
    have "a sdiv b = a div b"
      using assms that by (cases "a = 0") (simp_all add: signed_divide_int_def sgn_if)
    then show ?thesis using assms by (simp add: minus_div_mult_eq_mod)
  qed
  show "- b < a - a sdiv b * b \<and> a - a sdiv b * b \<le> 0" if "a \<le> 0"
  proof (cases "a = 0")
    case False
    then have "a sdiv b = - ((- a) div b)"
      using assms that by (simp add: signed_divide_int_def sgn_if)
    moreover have "- a - (- a) div b * b = (- a) mod b" by (rule minus_div_mult_eq_mod)
    ultimately have "a - a sdiv b * b = - ((- a) mod b)" by simp
    then show ?thesis using assms by simp
  qed (use assms in \<open>simp add: signed_divide_int_def\<close>)
qed

text \<open>
  The invariant behind the bound: the clocks are at most five frame periods apart, and their
  distance differs from the slow-drift statistics by less than two.
\<close>

definition clock_inv :: "int \<Rightarrow> t_mc_tsproc \<Rightarrow> bool" where
  "clock_inv ref t \<longleftrightarrow> \<not> ts_first_frame t \<and> \<bar>clock_drift t\<bar> \<le> 5 * ref \<and>
     \<bar>clock_drift t - slow_diff t\<bar> < 2 * ref"

lemma last_actions_first [simp]: "ts_first_frame (last_actions r p dp t) = ts_first_frame t"
  by (simp add: last_actions_def Let_def)

lemma clock_inv_reset:
  assumes "0 < ref" "\<not> ts_first_frame t" "\<bar>clock_drift t + dp - p\<bar> < 2 * ref" "ref < 2 ^ 32"
  shows "clock_inv ref (last_actions True p dp t)"
proof -
  have "clock_drift (last_actions True p dp t) = clock_drift t + dp - p"
    by (rule last_actions_drift) (use assms in simp)
  then show ?thesis using assms by (simp add: clock_inv_def last_actions_diff)
qed

lemma tsproc_slow_inv:
  assumes ref: "0 < ref" "ref < 2 ^ 32" and inv: "\<bar>clock_drift t - slow_diff t\<bar> < 2 * ref" "\<not> ts_first_frame t"
    and cand: "\<bar>clock_drift t + dp - ref\<bar> \<le> 4 * ref"
  shows "clock_inv ref (tsproc_slow ref dp t)"
proof -
  define t' where "t' = t\<lparr>sdc_t_dhav := sdc_t_dhav t + dp, sdc_t_ref := sdc_t_ref t + ref,
      sdc_t_eff := sdc_t_eff t + ref, sdc_t_frames := sdc_t_frames t + 1\<rparr>"
  define D where "D = clock_drift t + dp - ref"
  define T where "T = sdc_t_dhav t' - sdc_t_eff t'"
  have t': "clock_drift t' = clock_drift t" "\<not> ts_first_frame t'"
    using inv(2) by (simp_all add: t'_def clock_drift_def)
  have DT: "\<bar>D - T\<bar> < 2 * ref" using inv(1) by (simp add: D_def T_def t'_def slow_diff_def)
  have keep: "clock_inv ref (last_actions False ref dp t')"
  proof -
    have "clock_drift (last_actions False ref dp t') = D"
      using last_actions_drift [of t' dp ref False] cand ref t' by (simp add: D_def)
    moreover have "slow_diff (last_actions False ref dp t') = T"
      unfolding last_actions_diff by (simp add: slow_diff_def T_def)
    ultimately show ?thesis using cand DT t' ref by (simp add: clock_inv_def D_def [symmetric])
  qed
  show ?thesis
  proof (cases "\<bar>T\<bar> > ref * 2 \<and> sdc_t_frames t' \<ge> SLOW_DRIFT_EVAL_MIN_SAMPLES")
    case False
    then have "tsproc_slow ref dp t = last_actions False ref dp t'"
      by (auto simp: tsproc_slow_def Let_def t'_def [symmetric] T_def)
    with keep show ?thesis by simp
  next
    case slow: True
    let ?j = "T sdiv ref"
    show ?thesis
    proof (cases "\<bar>?j\<bar> > 2")
      case True
      then have run: "tsproc_slow ref dp t = last_actions True (ref + ?j * ref) dp t'"
        using slow by (simp add: tsproc_slow_def Let_def t'_def [symmetric] T_def [symmetric])
      have "\<bar>D - ?j * ref\<bar> < 2 * ref"
      proof (cases "0 \<le> T")
        case pos: True
        from sdiv_rest(1) [OF ref(1) pos] have r: "0 \<le> T - ?j * ref" "T - ?j * ref < ref" by simp_all
        have "3 * ref \<le> ?j * ref"
        proof (rule mult_right_mono)
          have "?j \<ge> 0" using pos ref(1) by (simp add: signed_divide_int_def sgn_if pos_imp_zdiv_nonneg_iff)
          then show "3 \<le> ?j" using True by simp
        qed (use ref in simp)
        then show ?thesis using r DT cand unfolding D_def [symmetric] by linarith
      next
        case neg: False
        then have "T \<le> 0" by simp
        from sdiv_rest(2) [OF ref(1) this] have r: "- ref < T - ?j * ref" "T - ?j * ref \<le> 0" by simp_all
        have "?j * ref \<le> - 3 * ref"
        proof (rule mult_right_mono)
          have "?j \<le> 0" using neg ref(1)
            by (simp add: signed_divide_int_def sgn_if pos_imp_zdiv_nonneg_iff)
          then show "?j \<le> - 3" using True by simp
        qed (use ref in simp)
        then show ?thesis using r DT cand unfolding D_def [symmetric] by linarith
      qed
      then show ?thesis unfolding run using ref t' by (intro clock_inv_reset) (simp_all add: D_def)
    next
      case False
      let ?t = "t'\<lparr>sdc_t_eff := sdc_t_eff t' + (ref + 1 * ref) - ref\<rparr>"
      have run: "tsproc_slow ref dp t = last_actions False (ref + 1 * ref) dp ?t"
        using False slow by (simp add: tsproc_slow_def Let_def t'_def [symmetric] T_def [symmetric])
      have c: "clock_drift ?t = clock_drift t" "slow_diff ?t = T - ref" "\<not> ts_first_frame ?t"
        using t' by (simp_all add: clock_drift_def slow_diff_def T_def)
      have "clock_drift (last_actions False (ref + 1 * ref) dp ?t) = D - ref"
        using last_actions_drift [of ?t dp "ref + 1 * ref" False] c(1) cand ref by (simp add: D_def)
      then show ?thesis unfolding run
        using c cand DT ref by (simp add: clock_inv_def last_actions_diff D_def [symmetric])
    qed
  qed
qed

definition later_frame :: "t_mc_parms \<Rightarrow> t_mc_tsproc \<Rightarrow> t_mc_tsproc" where
  "later_frame mcp tsc =
     tsc\<lparr>dhav_epoch_prev := dhav_epoch tsc, dhav_epoch := mp_epoch mcp,
         v_dhav_ts_prev := v_dhav_ts tsc, v_dhav_ts := mp_dhav_ts mcp\<rparr>"

definition later_period :: "t_mc_parms \<Rightarrow> t_mc_tsproc \<Rightarrow> int" where
  "later_period mcp tsc = uint (mp_dhav_ts mcp - v_dhav_ts tsc) * 1000000"

lemma later_period_bounds: "0 \<le> later_period mcp tsc" "later_period mcp tsc < 65536000000"
proof -
  have "uint (mp_dhav_ts mcp - v_dhav_ts tsc) < 2 ^ LENGTH(16)" by (rule unsigned_less)
  then show "0 \<le> later_period mcp tsc" "later_period mcp tsc < 65536000000" by (simp_all add: later_period_def)
qed

lemma later_frame_keeps [simp]:
  "clock_drift (later_frame mcp t) = clock_drift t" "slow_diff (later_frame mcp t) = slow_diff t"
  "ts_first_frame (later_frame mcp t) = ts_first_frame t" "v_timestamp (later_frame mcp t) = v_timestamp t"
  "v_dhav_timestamp (later_frame mcp t) = v_dhav_timestamp t"
  "sdc_t_frames (later_frame mcp t) = sdc_t_frames t" "sdc_t_dhav (later_frame mcp t) = sdc_t_dhav t"
  "sdc_t_eff (later_frame mcp t) = sdc_t_eff t" "sdc_t_ref (later_frame mcp t) = sdc_t_ref t"
  by (simp_all add: later_frame_def clock_drift_def slow_diff_def)

text \<open>Going back, or forward by more than 30 seconds, both clocks are set together again.\<close>

definition resynced :: "int \<Rightarrow> t_mc_tsproc \<Rightarrow> t_mc_tsproc" where
  "resynced ref t = last_actions True ref ref (t\<lparr>v_dhav_timestamp := v_timestamp t\<rparr>)"

lemma tsproc_later_cases:
  fixes tsc mcp
  defines "cur \<equiv> ucast (mp_epoch mcp) :: u64" and "prev \<equiv> ucast (dhav_epoch tsc) :: u64"
    and "t \<equiv> later_frame mcp tsc" and "dp \<equiv> later_period mcp tsc"
  shows "tsproc_later ref mcp tsc =
     (if cur < prev \<or> cur - prev > EPOCH_MAX_FORWARD_JUMP then resynced ref t
      else let d = sint ((v_dhav_timestamp tsc + of_int dp) - (v_timestamp tsc + of_int ref))
        in if \<bar>d\<bar> > TIMESTAMP_JITTER_DAMPING_LIMIT * ref then last_actions True (ref + (d sdiv ref) * ref) dp t
           else tsproc_slow ref dp t)"
proof -
  have "cur - prev > EPOCH_MAX_FORWARD_JUMP \<Longrightarrow> cur - prev > MAX_EPOCH_PEDANTRY_TOWARDS_TIMESTAMP"
    unfolding EPOCH_MAX_FORWARD_JUMP_def MAX_EPOCH_PEDANTRY_TOWARDS_TIMESTAMP_def
    by (erule less_trans [rotated]) (simp add: word_less_def)
  then show ?thesis
    by (simp add: tsproc_later_def Let_def resynced_def later_frame_def [symmetric]
        later_period_def [symmetric] cur_def [symmetric] prev_def [symmetric] dp_def [symmetric]
        t_def [symmetric]) (simp add: t_def)
qed

lemma tsproc_later_inv:
  assumes ref: "0 < ref" "ref < 2 ^ 32" and inv: "clock_inv ref tsc"
  shows "clock_inv ref (tsproc_later ref mcp tsc)"
proof -
  let ?t = "later_frame mcp tsc" and ?dp = "later_period mcp tsc"
  let ?D = "clock_drift tsc + ?dp - ref"
  have first: "\<not> ts_first_frame tsc" and cd: "\<bar>clock_drift tsc\<bar> \<le> 5 * ref"
    and diff: "\<bar>clock_drift tsc - slow_diff tsc\<bar> < 2 * ref"
    using inv by (simp_all add: clock_inv_def)
  have "\<bar>?D\<bar> < 2 ^ 63" using cd ref later_period_bounds [of mcp tsc] by simp
  from clock_drift_advance [OF this]
  have d: "sint ((v_dhav_timestamp tsc + of_int ?dp) - (v_timestamp tsc + of_int ref)) = ?D" .
  have resync: "clock_inv ref (resynced ref ?t)"
    unfolding resynced_def
    by (rule clock_inv_reset) (use ref first in \<open>simp_all add: clock_drift_def\<close>)
  have jump: "clock_inv ref (last_actions True (ref + (?D sdiv ref) * ref) ?dp ?t)"
  proof (rule clock_inv_reset)
    show "\<bar>clock_drift ?t + ?dp - (ref + (?D sdiv ref) * ref)\<bar> < 2 * ref"
      using sdiv_rest [OF ref(1), of ?D] ref by (cases "0 \<le> ?D") simp_all
  qed (use ref first in simp_all)
  have slow: "clock_inv ref (tsproc_slow ref ?dp ?t)" if "\<bar>?D\<bar> \<le> 4 * ref"
    by (rule tsproc_slow_inv) (use ref first diff that in simp_all)
  show ?thesis
    unfolding tsproc_later_cases d Let_def using resync jump slow
    by (simp add: TIMESTAMP_JITTER_DAMPING_LIMIT_def)
qed

lemma ref_period_bounds: "ref_period mcp = Some ref \<Longrightarrow> 0 < ref \<and> ref < 2 ^ 32"
proof -
  assume a: "ref_period mcp = Some ref"
  define n where "n = uint (dhav_fps mcp)"
  define c :: int where "c = (if NTSC_timings mcp \<and> \<not> ntsc_exact_60hz mcp then 1001000000 else 1000000000)"
  have "uint (dhav_fps mcp) < 2 ^ LENGTH(8)" by (rule unsigned_less)
  then have "uint (dhav_fps mcp) < 256" by simp
  moreover have "dhav_fps mcp \<noteq> 0" using a by (auto simp: ref_period_def)
  then have "uint (dhav_fps mcp) \<noteq> 0" by (simp add: uint_0_iff)
  moreover have "0 \<le> uint (dhav_fps mcp)" by (rule uint_ge_0)
  ultimately have n: "0 < n" "n < 256" unfolding n_def by linarith+
  have c: "1000000000 \<le> c" "c \<le> 1001000000" by (simp_all add: c_def)
  have r: "ref = c div n" using a by (auto simp: ref_period_def c_def n_def split: if_splits)
  have "0 < ref" unfolding r using n c by (simp add: pos_imp_zdiv_pos_iff)
  moreover have "ref \<le> c" unfolding r using zdiv_mono2 [of c 1 n] n c by simp
  ultimately show ?thesis using c by simp
qed

section \<open>Properties\<close>

text \<open>The function called on one frame after the other.\<close>

fun tsproc_run :: "t_mc_parms list \<Rightarrow> t_mc_tsproc \<Rightarrow> t_mc_tsproc option" where
  "tsproc_run [] t = Some t"
| "tsproc_run (m # ms) t = do { (_, t') \<leftarrow> dt_tsproc_process m t; tsproc_run ms t' }"

definition video_frame :: "int \<Rightarrow> t_mc_parms \<Rightarrow> bool" where
  "video_frame ref m \<longleftrightarrow> (frame_type m = FT_VIDEO_I_FRAME \<or> frame_type m = FT_VIDEO_FRAME) \<and> has_v_parms m \<and>
     ref_period m = Some ref"

lemma process_first: "video_frame ref m \<Longrightarrow> ts_first_frame t \<Longrightarrow> dt_tsproc_process m t = Some (Some 0, tsproc_start m t)"
  by (auto simp: dt_tsproc_process_def video_frame_def)

lemma process_later: "video_frame ref m \<Longrightarrow> \<not> ts_first_frame t \<Longrightarrow> dt_tsproc_process m t = Some (None, tsproc_later ref m t)"
  by (auto simp: dt_tsproc_process_def video_frame_def)

lemma tsproc_run_inv:
  "\<forall>m \<in> set ms. video_frame ref m \<Longrightarrow> clock_inv ref t \<Longrightarrow> \<exists>t'. tsproc_run ms t = Some t' \<and> clock_inv ref t'"
proof (induction ms arbitrary: t)
  case (Cons m ms)
  then have v: "video_frame ref m" by simp
  then have ref: "0 < ref" "ref < 2 ^ 32" using ref_period_bounds by (auto simp: video_frame_def)
  have "\<not> ts_first_frame t" using Cons.prems(2) by (simp add: clock_inv_def)
  with process_later [OF v] Cons.IH [OF _ tsproc_later_inv [OF ref Cons.prems(2)]] Cons.prems(1)
  show ?case by simp
qed simp


definition sample_video :: "nat \<Rightarrow> t_mc_parms" where
  "sample_video ms = sample_parms\<lparr>frame_type := FT_VIDEO_FRAME, mp_dhav_ts := of_nat ms, dhav_fps := 25, NTSC_timings := False\<rparr>"

lemma sample_video_ok: "video_frame 40000000 (sample_video ms)"
  by (simp add: video_frame_def sample_video_def sample_parms_def ref_period_def)

definition sample_tsproc :: t_mc_tsproc where
  "sample_tsproc = \<lparr>ts_first_frame = False, v_dhav_timestamp = 40000000, v_timestamp = 120000000, sdc_t_dhav = 0,
     sdc_t_ref = 0, sdc_t_eff = 80000001, sdc_t_frames = 999, v_dhav_ts = 0, v_dhav_ts_prev = 0, dhav_epoch = 0,
     dhav_epoch_prev = 0\<rparr>"


text \<open>
  When the date of the DVR goes back, or forward by more than 30 seconds, the clocks are set
  together: the output advances by exactly one frame period. In particular the branch that would
  make up for such a jump by whole frames (\<open>jumped ... Corrected\<close>) is never taken, since its limit of 5
  seconds lies below the 30 of the test around it.
\<close>
lemma tsproc_date_jump_resyncs:
  assumes "video_frame ref m" "\<not> ts_first_frame t"
    and jump: "uint (mp_epoch m) < uint (dhav_epoch t) \<or> uint (mp_epoch m) > uint (dhav_epoch t) + 30"
  shows "\<exists>t'. dt_tsproc_process m t = Some (None, t') \<and> v_timestamp t' = v_timestamp t + of_int ref \<and>
    v_dhav_timestamp t' = v_timestamp t'"
proof -
  have u: "uint (ucast (w :: u32) :: u64) = uint w" for w
  proof -
    have "uint w < 2 ^ LENGTH(32)" by (rule unsigned_less)
    then show ?thesis by (simp add: unsigned_ucast_eq take_bit_int_eq_self)
  qed
  let ?cur = "ucast (mp_epoch m) :: u64" and ?prev = "ucast (dhav_epoch t) :: u64"
  have "?cur < ?prev \<or> ?cur - ?prev > EPOCH_MAX_FORWARD_JUMP"
  proof (cases "uint (mp_epoch m) < uint (dhav_epoch t)")
    case True
    then show ?thesis by (simp add: word_less_def u)
  next
    case False
    then have "uint (?cur - ?prev) = uint (mp_epoch m) - uint (dhav_epoch t)"
      by (simp add: uint_sub_if' word_le_def u)
    then show ?thesis using False jump by (simp add: word_less_def EPOCH_MAX_FORWARD_JUMP_def)
  qed
  then have "tsproc_later ref m t = resynced ref (later_frame m t)" by (simp add: tsproc_later_cases)
  then show ?thesis using process_later [OF assms(1,2)] by (simp add: resynced_def last_actions_def Let_def)
qed

lemma tsproc_date_jump_resyncs_witness:
  "\<exists>t'. dt_tsproc_process (sample_video 40\<lparr>mp_epoch := 100\<rparr>) sample_tsproc = Some (None, t') \<and>
     v_timestamp t' = 120000000 + 40000000 \<and> v_dhav_timestamp t' = v_timestamp t'"
  using tsproc_date_jump_resyncs [of 40000000 "sample_video 40\<lparr>mp_epoch := 100\<rparr>" sample_tsproc]
  by (simp add: sample_tsproc_def video_frame_def sample_video_def sample_parms_def ref_period_def)

text \<open>
  The slow-drift correction assumes that the output is two periods late. When the drift goes the
  other way (the output clock is two to three periods ahead) it still advances the output by two
  periods, which puts it one period further ahead.
\<close>
lemma tsproc_slow_drift_wrong_way:
  assumes v: "video_frame ref m" "\<not> ts_first_frame t" and epoch: "mp_epoch m = dhav_epoch t"
    and dp: "dp = uint (mp_dhav_ts m - v_dhav_ts t) * 1000000"
    and near: "\<bar>clock_drift t + dp - ref\<bar> \<le> 4 * ref"
    and ahead: "- 3 * ref < sdc_t_dhav t + dp - (sdc_t_eff t + ref)"
      "sdc_t_dhav t + dp - (sdc_t_eff t + ref) < - 2 * ref"
    and frames: "sdc_t_frames t \<ge> 999"
  shows "\<exists>t'. dt_tsproc_process m t = Some (None, t') \<and> v_timestamp t' = v_timestamp t + of_int (2 * ref) \<and>
    clock_drift t' = (clock_drift t + dp - ref) - ref"
proof -
  have ref: "0 < ref" "ref < 2 ^ 32" using ref_period_bounds v(1) by (auto simp: video_frame_def)
  have p: "later_period m t = dp" by (simp add: later_period_def dp)
  let ?T = "sdc_t_dhav t + dp - (sdc_t_eff t + ref)"
  have "\<bar>clock_drift t + dp - ref\<bar> < 2 ^ 63" using near ref by simp
  note drift = clock_drift_advance [OF this]
  have j: "?T sdiv ref = -2"
  proof -
    from sdiv_rest(2) [OF ref(1), of ?T] ahead ref have
      r: "- ref < ?T - (?T sdiv ref) * ref" "?T - (?T sdiv ref) * ref \<le> 0" by simp_all
    have "- 3 * ref < (?T sdiv ref) * ref" using r ahead by linarith
    then have lo: "- 3 < ?T sdiv ref"
      using mult_right_mono [of "?T sdiv ref" "- 3" ref] ref(1) by linarith
    have "(?T sdiv ref) * ref < - 1 * ref" using r ahead by linarith
    then have hi: "?T sdiv ref < - 1"
      using mult_right_mono [of "- 1" "?T sdiv ref" ref] ref(1) by linarith
    show ?thesis using lo hi by linarith
  qed
  let ?t = "later_frame m t"
  let ?u = "?t\<lparr>sdc_t_dhav := sdc_t_dhav ?t + dp, sdc_t_ref := sdc_t_ref ?t + ref,
      sdc_t_frames := sdc_t_frames ?t + 1, sdc_t_eff := sdc_t_eff ?t + ref + (ref + ref) - ref\<rparr>"
  have slow: "tsproc_slow ref dp ?t = last_actions False (ref + ref) dp ?u"
    using j ahead frames ref
    by (simp add: tsproc_slow_def Let_def SLOW_DRIFT_EVAL_MIN_SAMPLES_def add.commute add.left_commute)
  have "tsproc_later ref m t = last_actions False (ref + ref) dp ?u"
    unfolding tsproc_later_cases p drift Let_def slow
    using epoch near by (simp add: EPOCH_MAX_FORWARD_JUMP_def TIMESTAMP_JITTER_DAMPING_LIMIT_def)
  moreover have "clock_drift (last_actions False (ref + ref) dp ?u) = clock_drift t + dp - ref - ref"
    using last_actions_drift [of ?u dp "ref + ref" False] near ref
    by (simp add: clock_drift_def later_frame_def)
  ultimately show ?thesis
    using process_later [OF v] by (simp add: last_actions_def Let_def later_frame_def)
qed

lemma tsproc_slow_drift_wrong_way_witness:
  "\<exists>t'. dt_tsproc_process (sample_video 40) sample_tsproc = Some (None, t') \<and>
    v_timestamp t' = 120000000 + of_int (2 * 40000000) \<and> clock_drift t' = -120000000"
proof -
  have d: "clock_drift sample_tsproc = -80000000" by (simp add: clock_drift_def sample_tsproc_def)
  show ?thesis
    using tsproc_slow_drift_wrong_way [OF sample_video_ok, of sample_tsproc 40 40000000] d
    by (simp add: sample_tsproc_def sample_video_def sample_parms_def)
qed

lemma collect_refused:
  assumes "dt_collect_dhav_frame_info m src n = Some (-1, m1)"
  shows "dhav_fps m1 = 0 \<and> has_v_parms m1 = has_v_parms m"
proof -
  let ?m = "m\<lparr>frame_type := FT_UNDEFINED\<rparr>"
  obtain ty sf where head: "collect_head ?m ty sf = Some (Inl (-1, m1))"
    using assms
    by (auto simp: dt_collect_dhav_frame_info_def Let_def bind_Some_iff split: sum.splits if_splits)
       (metis sum.exhaust surj_pair)
  then have "collect_i_frame ?m sf = Some (Inl (-1, m1))"
    by (auto simp: collect_head_def split: if_splits)
  then show ?thesis by (auto simp: collect_i_frame_def Let_def bind_Some_iff split: if_splits)
qed

text \<open>
  A frame rate of zero survives its own rejection: after an I-frame that announces 0 frames per
  second (refused with -1, which the callers ignore), the next picture of a running stream makes the
  timestamp correction divide by zero.
\<close>
lemma zero_fps_divides_by_zero:
  assumes bad: "dt_collect_dhav_frame_info m bad n = Some (-1, m1)" and run: "has_v_parms m" "\<not> ts_first_frame t"
    and good: "rd f 4 = Some 0xfc" "dt_collect_dhav_frame_info m1 f k = Some (0, m2)" "k > 0"
  shows "dt_tsproc_process m2 t = None"
proof -
  have m1: "dhav_fps m1 = 0" "has_v_parms m1"
    using collect_refused [OF bad] run(1) by simp_all
  then have "dhav_fps m2 = 0 \<and> has_v_parms m2 \<and> frame_type m2 = FT_VIDEO_FRAME"
    using good
    by (auto simp: dt_collect_dhav_frame_info_def collect_head_def Let_def bind_Some_iff split: if_splits)
  then show ?thesis using run(2) by (simp add: dt_tsproc_process_def ref_period_def)
qed

lemma zero_fps_divides_by_zero_witness:
  "\<exists>m1 m2. dt_collect_dhav_frame_info sample_parms (replicate 4 0 @ [0xfd] @ replicate 17 0 @ [0, 0]) 24 = Some (-1, m1) \<and>
     dt_collect_dhav_frame_info m1 (replicate 4 0 @ [0xfc] @ replicate 17 0 @ [0, 0]) 24 = Some (0, m2) \<and>
     dt_tsproc_process m2 sample_tsproc = None"
proof -
  have sf: "dhav_sf_parse_ext_head [] = replicate 2048 0"
    by (simp add: dhav_sf_parse_ext_head_def DHAV_SF_STRIPLEN_MAX_def)
  have z: "sf_index 0x80 2 < 2048" "sf_index 0x80 3 < 2048" "sf_index 0x81 3 < 2048"
    by (simp_all add: sf_index_def DHAV_SF_STRIPLEN_MAX_def)
  obtain m1 where m1: "dt_collect_dhav_frame_info sample_parms (replicate 4 0 @ [0xfd] @ replicate 17 0 @ [0, 0]) 24 = Some (-1, m1)"
    "has_v_parms m1"
    using z by (simp add: dt_collect_dhav_frame_info_def collect_head_def collect_i_frame_def Let_def rd_def rd_slice_def
        BASE_DHAV_HDR_LEN_def nth_append sf DHAV_SF_DATA_def sample_parms_def)
  obtain m2 where m2: "dt_collect_dhav_frame_info m1 (replicate 4 0 @ [0xfc] @ replicate 17 0 @ [0, 0]) 24 = Some (0, m2)"
    using m1(2) by (simp add: dt_collect_dhav_frame_info_def collect_head_def Let_def rd_def rd_slice_def
        BASE_DHAV_HDR_LEN_def nth_append)
  have "dt_tsproc_process m2 sample_tsproc = None"
    by (rule zero_fps_divides_by_zero [OF m1(1) _ _ _ m2])
       (simp_all add: sample_parms_def sample_tsproc_def rd_def nth_append)
  with m1 m2 show ?thesis by blast
qed

end
