(* ===== verification/Mkv_Output.thy ===== *)
theory Mkv_Output
  imports Timestamps
begin

text \<open>
  \<open>dt_convert_frame_to_mkv\<close> of \<open>src/mctools.c\<close>: the main Matroska header, patched with the parameters
  of the video, and one cluster with one block per frame. The specification side reads the
  clusters back.
\<close>

section \<open>The main header\<close>

definition WHOLE_MAIN_HEADER_LOAD :: nat where "WHOLE_MAIN_HEADER_LOAD = 416 + 4"
definition WHOLE_CLUSTER_HEADER_LOAD :: nat where "WHOLE_CLUSTER_HEADER_LOAD = 22"
definition WHOLE_SIMPLEBLOCK_HEADER_LOAD :: nat where "WHOLE_SIMPLEBLOCK_HEADER_LOAD = 13"

definition mkv_head :: "byte list" where
  "mkv_head =
    [0x1A, 0x45, 0xDF, 0xA3, 0x01, 0, 0, 0, 0, 0, 0, 0x23, 0x42, 0x86, 0x81, 0x01, 0x42, 0xF7, 0x81, 0x01,
     0x42, 0xF2, 0x81, 0x04, 0x42, 0xF3, 0x81, 0x08, 0x42, 0x82, 0x88, 0x6D, 0x61, 0x74, 0x72, 0x6F, 0x73, 0x6B, 0x61, 0x42,
     0x87, 0x81, 0x02, 0x42, 0x85, 0x81, 0x02, 0x18, 0x53, 0x80, 0x67, 0x01, 0xFF, 0xFF, 0xFF, 0xFF, 0xFF, 0xFF, 0xFF, 0xEC,
     0x01, 0, 0, 0, 0, 0, 0, 0x93, 0, 0, 0, 0, 0, 0, 0, 0, 0, 0, 0, 0,
     0, 0, 0, 0, 0, 0, 0, 0, 0, 0, 0, 0, 0, 0, 0, 0, 0, 0, 0, 0,
     0, 0, 0, 0, 0, 0, 0, 0, 0, 0, 0, 0, 0, 0, 0, 0, 0, 0, 0, 0,
     0, 0, 0, 0, 0, 0, 0, 0, 0, 0, 0, 0, 0, 0, 0, 0, 0, 0, 0, 0,
     0, 0, 0, 0, 0, 0, 0, 0, 0, 0, 0, 0, 0, 0, 0, 0, 0, 0, 0, 0,
     0, 0, 0, 0, 0, 0, 0, 0, 0, 0, 0, 0, 0, 0, 0, 0, 0, 0, 0, 0,
     0, 0, 0, 0, 0, 0, 0, 0, 0, 0, 0, 0, 0, 0, 0, 0, 0, 0, 0, 0,
     0, 0, 0, 0, 0, 0, 0, 0, 0, 0, 0, 0, 0, 0, 0, 0x15, 0x49, 0xA9, 0x66, 0x01,
     0, 0, 0, 0, 0, 0, 0x45, 0x2A, 0xD7, 0xB1, 0x83, 0x0F, 0x42, 0x40, 0x4D, 0x80, 0x8D, 0x54, 0x61, 0x6E,
     0x69, 0x44, 0x56, 0x52, 0x20, 0x30, 0x2E, 0x30, 0x2E, 0x30, 0x57, 0x41, 0x8D, 0x54, 0x61, 0x6E, 0x69, 0x44, 0x56, 0x52,
     0x20, 0x30, 0x2E, 0x30, 0x2E, 0x30, 0x73, 0xA4, 0x90, 0x22, 0xD8, 0x7B, 0xF1, 0xE4, 0xC7, 0xFF, 0x82, 0xBE, 0x50, 0x86,
     0x0F, 0x12, 0x9E, 0x76, 0xC2, 0x44, 0x89, 0x88, 0x41, 0x10, 0x3A, 0x60, 0, 0, 0, 0, 0x16, 0x54, 0xAE, 0x6B,
     0x01, 0, 0, 0, 0, 0, 0, 0x70, 0xAE, 0x01, 0, 0, 0, 0, 0, 0, 0x67, 0xD7, 0x81, 0x01,
     0x73, 0xC5, 0x81, 0x01, 0x9C, 0x81, 0, 0x22, 0xB5, 0x9C, 0x83, 0x75, 0x6E, 0x64, 0x88, 0x81, 0, 0x86, 0x8F, 0x56,
     0x5F, 0x4D, 0x50, 0x45, 0x47, 0x34, 0x2F, 0x49, 0x53, 0x4F, 0x2F, 0x41, 0x56, 0x43, 0x83, 0x81, 0x01, 0xE0, 0x01, 0,
     0, 0, 0, 0, 0, 0x1A, 0xB0, 0x82, 0x01, 0x60, 0xBA, 0x82, 0, 0xF0, 0x54, 0xB0, 0x82, 0, 0x04, 0x54,
     0xBA, 0x82, 0, 0x03, 0x23, 0x83, 0xE3, 0x84, 0x3F, 0x80, 0, 0x10, 0x63, 0xA2, 0x99, 0, 0, 0, 0, 0,
     0x01, 0x67, 0x42, 0xE0, 0x14, 0xDA, 0x05, 0x82, 0x17, 0x89, 0x40, 0, 0, 0, 0x01, 0x68, 0xCE, 0x30, 0xA4, 0x80]"

datatype mcodec_t = MCODEC_V_MPEG4_ISO_AVC | MCODEC_V_MPEG4_ISO_ASP

definition str_MCODEC :: "mcodec_t \<Rightarrow> byte list" where
  "str_MCODEC vcodec =
     [0x56, 0x5F, 0x4D, 0x50, 0x45, 0x47, 0x34, 0x2F, 0x49, 0x53, 0x4F, 0x2F, 0x41] @
     (case vcodec of MCODEC_V_MPEG4_ISO_AVC \<Rightarrow> [0x56, 0x43] | MCODEC_V_MPEG4_ISO_ASP \<Rightarrow> [0x53, 0x50])"

text \<open>
  The frame rate as an IEEE-754 single: the product of two doubles, converted to \<open>float\<close>, with
  rounding to the nearest, ties to even. A double here is a whole number of units of a power of
  two: 1000/1001 is \<open>ratio\<close> units of 2 to the -53.
\<close>

definition round_even :: "nat \<Rightarrow> nat \<Rightarrow> nat" where
  "round_even n d = (let q = n div d; r = n mod d in if 2 * r < d \<or> 2 * r = d \<and> even q then q else q + 1)"

fun bit_len :: "nat \<Rightarrow> nat" where
  "bit_len n = (if n = 0 then 0 else Suc (bit_len (n div 2)))"

declare bit_len.simps [simp del]

text \<open>\<open>n\<close> rounded to \<open>p\<close> significant bits: the significand and how many bits were dropped.\<close>

definition round_bits :: "nat \<Rightarrow> nat \<Rightarrow> nat \<times> nat" where
  "round_bits p n = (let k = bit_len n - p in (round_even n (2 ^ k), k))"

definition float_bits :: "nat \<Rightarrow> int \<Rightarrow> u32" where
  "float_bits n e =
     (if n = 0 then 0
      else let (q, k) = round_bits 24 n;
               q' = q * 2 ^ (24 - bit_len q); k' = int k - int (24 - bit_len q);
               (m, x) = (if q' = 2 ^ 24 then (2 ^ 23, k' + 1) else (q', k'))
           in of_int ((e + x + 23 + 127) * 2 ^ 23 + (int m - 2 ^ 23)))"

definition transform_fps_to_mkvfps :: "byte \<Rightarrow> bool \<Rightarrow> bool \<Rightarrow> u32" where
  "transform_fps_to_mkvfps fps_in NTSC exact =
     (if NTSC \<and> exact then float_bits (unat fps_in) 0
      else let ratio = round_even (1000 * 2 ^ 53) 1001;
               (m, k) = round_bits 53 (unat fps_in * ratio)
           in float_bits m (int k - 53))"

lemma bit_len_eqs [simp]:
  "bit_len 0 = 0" "bit_len (Suc 0) = 1" "bit_len (numeral k) = Suc (bit_len (numeral k div 2))"
  by (simp_all add: bit_len.simps)

section \<open>Writing a frame\<close>

definition MKV_HOFF_CodecStr :: nat where "MKV_HOFF_CodecStr = 0x153"
definition MKV_HOFF_PixelWidth :: nat where "MKV_HOFF_PixelWidth = 0x16e + 2"
definition MKV_HOFF_PixelHeight :: nat where "MKV_HOFF_PixelHeight = 0x172 + 2"
definition MKV_HOFF_DisplayWidth :: nat where "MKV_HOFF_DisplayWidth = 0x176 + 3"
definition MKV_HOFF_DisplayHeight :: nat where "MKV_HOFF_DisplayHeight = 0x17b + 3"
definition MKV_HOFF_FrameRate :: nat where "MKV_HOFF_FrameRate = 0x180 + 4"
definition MKV_HOFF_MuxingApp :: nat where "MKV_HOFF_MuxingApp = 0x0ea + 3"
definition MKV_HOFF_WritingApp :: nat where "MKV_HOFF_WritingApp = 0x0fa + 3"
definition MKV_HOFF_Language :: nat where "MKV_HOFF_Language = 0x147 + 4"
definition MKV_HOFF_TimecodeScale :: nat where "MKV_HOFF_TimecodeScale = 0x0e3 + 4"
definition MKV_CLEN_MuxingApp :: nat where "MKV_CLEN_MuxingApp = 0x0d"
definition MKV_CLEN_WritingApp :: nat where "MKV_CLEN_WritingApp = 0x0d"

lemmas mkv_offsets = MKV_HOFF_CodecStr_def MKV_HOFF_PixelWidth_def MKV_HOFF_PixelHeight_def
  MKV_HOFF_DisplayWidth_def MKV_HOFF_DisplayHeight_def MKV_HOFF_FrameRate_def MKV_HOFF_MuxingApp_def
  MKV_HOFF_WritingApp_def MKV_HOFF_Language_def MKV_HOFF_TimecodeScale_def MKV_CLEN_MuxingApp_def
  MKV_CLEN_WritingApp_def

text \<open>The stores to \<open>dst_p\<close>, in the order of the code: an offset and the bytes that go there.\<close>

fun store_all :: "(nat \<times> byte list) list \<Rightarrow> byte list \<Rightarrow> byte list option" where
  "store_all [] m = Some m"
| "store_all ((i, bs) # ws) m = do { m' \<leftarrow> wr_slice m (int i) bs; store_all ws m' }"

text \<open>\<open>tanidvr_sw_str\<close>; the version is the one \<open>configure\<close> put into \<open>config.h\<close>.\<close>

definition tanidvr_sw_str :: "byte list \<Rightarrow> byte list" where
  "tanidvr_sw_str VERSION = [0x54, 0x61, 0x6E, 0x69, 0x44, 0x56, 0x52, 0x20] @ VERSION"

definition mkv_head_stores :: "byte list \<Rightarrow> t_mc_parms \<Rightarrow> mcodec_t \<Rightarrow> (nat \<times> byte list) list" where
  "mkv_head_stores VERSION mc_parms vcodec =
     (let fps_dhav_f = transform_fps_to_mkvfps (dhav_fps mc_parms) (NTSC_timings mc_parms) (ntsc_exact_60hz mc_parms);
          x = length (tanidvr_sw_str VERSION)
      in [(0, mkv_head),
          (MKV_HOFF_CodecStr, str_MCODEC vcodec),
          (MKV_HOFF_PixelWidth, BT_NV2MM_U16 (ucast (v_width mc_parms))),
          (MKV_HOFF_PixelHeight, BT_NV2MM_U16 (ucast (v_height mc_parms))),
          (MKV_HOFF_DisplayWidth, BT_NV2MM_U16 (ucast (v_aspect_x mc_parms))),
          (MKV_HOFF_DisplayHeight, BT_NV2MM_U16 (ucast (v_aspect_y mc_parms))),
          (MKV_HOFF_FrameRate, BT_NV2MM_U32 fps_dhav_f),
          (MKV_HOFF_MuxingApp, replicate MKV_CLEN_MuxingApp 0),
          (MKV_HOFF_MuxingApp, take (if x > MKV_CLEN_MuxingApp then MKV_CLEN_MuxingApp else x) (tanidvr_sw_str VERSION)),
          (MKV_HOFF_WritingApp, replicate MKV_CLEN_WritingApp 0),
          (MKV_HOFF_WritingApp, take (if x > MKV_CLEN_WritingApp then MKV_CLEN_WritingApp else x) (tanidvr_sw_str VERSION)),
          (MKV_HOFF_Language, [0x75, 0x6E, 0x64]),
          (MKV_HOFF_TimecodeScale, [0x00, 0x03, 0xe8])])"

text \<open>The cluster header and the block header in front of \<open>src_len\<close> bytes of video.\<close>

definition mkv_cluster_head :: "nat \<Rightarrow> u64 \<Rightarrow> t_frame_type \<Rightarrow> byte list" where
  "mkv_cluster_head src_len timestamp_us ft =
     (let mkv_cluster_len = of_nat src_len + of_nat WHOLE_CLUSTER_HEADER_LOAD + of_nat WHOLE_SIMPLEBLOCK_HEADER_LOAD - 12;
          mkv_simpleblock_len = of_nat src_len + of_nat WHOLE_SIMPLEBLOCK_HEADER_LOAD - 9
      in [0x1f, 0x43, 0xb6, 0x75] @ 0x01 # tl (BT_NV2MM_U64 mkv_cluster_len) @
         [0xe7, 0x88] @ BT_NV2MM_U64 timestamp_us @
         0xa3 # 0x01 # tl (BT_NV2MM_U64 mkv_simpleblock_len) @
         [0x81, 0x00, 0x00, if ft = FT_VIDEO_I_FRAME then 0x01 else 0x00])"

text \<open>
  \<open>dst\<close> is the memory at \<open>dst_p\<close>, as long as it really is; \<open>max_dst_len\<close> is what the caller says it
  is. The result is the returned code, the memory and \<open>*dst_len\<close>. The main header is in the
  buffer before the length is compared with \<open>max_dst_len\<close>.
\<close>

definition dt_convert_frame_to_mkv ::
    "byte list \<Rightarrow> t_mc_parms \<Rightarrow> byte list \<Rightarrow> nat \<Rightarrow> byte list \<Rightarrow> nat \<Rightarrow> bool \<Rightarrow> mcodec_t \<Rightarrow>
     (int \<times> byte list \<times> nat) option" where
  "dt_convert_frame_to_mkv VERSION mc_parms src src_dhav_len dst max_dst_len first_frame vcodec =
     (if src_dhav_len = 0 then Some (3, dst, 0)
      else if frame_type mc_parms \<noteq> FT_VIDEO_I_FRAME \<and> frame_type mc_parms \<noteq> FT_VIDEO_FRAME then Some (2, dst, 0)
      else if \<not> has_v_parms mc_parms then Some (1, dst, 0)
      else
        let src_len = body_len mc_parms;
            timestamp_us = mp_timestamp mc_parms div 1000;
            at = (if first_frame then WHOLE_MAIN_HEADER_LOAD else 0);
            whole_payload = (WHOLE_CLUSTER_HEADER_LOAD + WHOLE_SIMPLEBLOCK_HEADER_LOAD + src_len + at) mod 2 ^ 64
        in do {
          dst1 \<leftarrow> (if first_frame then store_all (mkv_head_stores VERSION mc_parms vcodec) dst else Some dst);
          if whole_payload > max_dst_len then Some (-4, dst1, 0)
          else do {
            let head = mkv_cluster_head src_len timestamp_us (frame_type mc_parms);
            dst2 \<leftarrow> wr_slice dst1 (int at) head;
            body \<leftarrow> rd_slice src (int (body_p mc_parms)) src_len;
            dst3 \<leftarrow> wr_slice dst2 (int (at + length head)) body;
            Some (0, dst3, whole_payload)
          }
        })"

section \<open>What the code writes\<close>

lemma length_mkv_head [simp]: "length mkv_head = 420"
  by (simp add: mkv_head_def)

lemma length_str_MCODEC [simp]: "length (str_MCODEC c) = 15"
  by (cases c) (simp_all add: str_MCODEC_def)

lemma length_mkv_cluster_head [simp]: "length (mkv_cluster_head n t ft) = 35"
  by (simp add: mkv_cluster_head_def Let_def)

lemma store_all_length: "store_all ws m = Some m' \<Longrightarrow> length m' = length m"
  by (induction ws arbitrary: m) (auto simp: bind_Some_iff, metis wr_slice_length)

lemma wr_slice_nth:
  assumes "wr_slice m (int i) bs = Some m'" "j < length m"
  shows "m' ! j = (if i \<le> j \<and> j < i + length bs then bs ! (j - i) else m ! j)"
  using assms by (auto simp: wr_slice_def nth_append min_def split: if_splits)

lemma store_all_untouched:
  "store_all ws m = Some m' \<Longrightarrow> j < length m \<Longrightarrow> \<forall>(i, bs) \<in> set ws. j < i \<or> i + length bs \<le> j \<Longrightarrow> m' ! j = m ! j"
proof (induction ws arbitrary: m)
  case (Cons w ws)
  obtain i bs where w: "w = (i, bs)" by fastforce
  then obtain m1 where m1: "wr_slice m (int i) bs = Some m1" "store_all ws m1 = Some m'"
    using Cons.prems(1) by (auto simp: bind_Some_iff)
  have "m' ! j = m1 ! j"
    using Cons.IH [OF m1(2)] Cons.prems wr_slice_length [OF m1(1)] by auto
  also have "\<dots> = m ! j"
    using Cons.prems by (auto simp: w wr_slice_nth [OF m1(1)])
  finally show ?case .
qed simp

lemma store_all_stores:
  assumes "store_all (us @ (i, bs) # ws) m = Some m'"
    and "\<forall>(k, cs) \<in> set ws. i + length bs \<le> k \<or> k + length cs \<le> i"
  shows "take (length bs) (drop i m') = bs"
  using assms
proof (induction us arbitrary: m)
  case Nil
  then obtain m1 where m1: "wr_slice m (int i) bs = Some m1" "store_all ws m1 = Some m'"
    by (auto simp: bind_Some_iff)
  have len: "length m1 = length m" "length m' = length m"
    using store_all_length [OF m1(2)] wr_slice_length [OF m1(1)] by simp_all
  have fits: "i + length bs \<le> length m"
    using m1(1) by (auto simp: wr_slice_def split: if_splits)
  have "m' ! j = bs ! (j - i)" if "i \<le> j" "j < i + length bs" for j
  proof -
    have "m' ! j = m1 ! j"
      by (rule store_all_untouched [OF m1(2)]) (use Nil.prems(2) that fits len in auto)
    also have "\<dots> = bs ! (j - i)"
      using that fits by (simp add: wr_slice_nth [OF m1(1)])
    finally show ?thesis .
  qed
  then show ?case using fits len by (intro nth_equalityI) simp_all
next
  case (Cons u us)
  then show ?case by (cases u) (auto simp: bind_Some_iff)
qed

lemma store_all_fits:
  "\<forall>(i, bs) \<in> set ws. i + length bs \<le> length m \<Longrightarrow> \<exists>m'. store_all ws m = Some m'"
proof (induction ws arbitrary: m)
  case (Cons w ws)
  obtain i bs where w: "w = (i, bs)" by fastforce
  then obtain m1 where m1: "wr_slice m (int i) bs = Some m1" "length m1 = length m"
    using Cons.prems by (auto simp: wr_slice_def)
  then show ?case using Cons by (auto simp: w)
qed simp


lemma wr_slice_prefix:
  assumes "wr_slice m (int i) bs = Some m'" shows "take (i + length bs) m' = take i m @ bs"
  using assms by (auto simp: wr_slice_def split: if_splits)

definition mkv_cluster :: "t_mc_parms \<Rightarrow> byte list \<Rightarrow> byte list" where
  "mkv_cluster m src = mkv_cluster_head (body_len m) (mp_timestamp m div 1000) (frame_type m) @
     take (body_len m) (drop (body_p m) src)"

lemma convert_writes:
  assumes "dt_convert_frame_to_mkv V m src len dst mx fst_frame c = Some (0, d, n)"
    and small: "body_len m < 2 ^ 63"
  shows "\<exists>d1. (if fst_frame then store_all (mkv_head_stores V m c) dst = Some d1 else d1 = dst) \<and>
    n = (if fst_frame then 420 else 0) + 35 + body_len m \<and> n \<le> mx \<and> body_p m + body_len m \<le> length src \<and>
    take n d = take (if fst_frame then 420 else 0) d1 @ mkv_cluster m src"
proof -
  define start :: nat where "start = (if fst_frame then 420 else 0)"
  have loads: "WHOLE_CLUSTER_HEADER_LOAD + WHOLE_SIMPLEBLOCK_HEADER_LOAD = 35" "WHOLE_MAIN_HEADER_LOAD = 420"
    by (simp_all add: WHOLE_CLUSTER_HEADER_LOAD_def WHOLE_SIMPLEBLOCK_HEADER_LOAD_def WHOLE_MAIN_HEADER_LOAD_def)
  have start: "(if fst_frame then WHOLE_MAIN_HEADER_LOAD else 0) = start" by (simp add: start_def loads)
  have whole: "(35 + body_len m + start) mod 2 ^ 64 = start + 35 + body_len m"
    using small by (simp add: start_def)
  have sums: "(455 + body_len m) mod 18446744073709551616 = 455 + body_len m"
    "(35 + body_len m) mod 18446744073709551616 = 35 + body_len m"
    using small by simp_all
  let ?head = "mkv_cluster_head (body_len m) (mp_timestamp m div 1000) (frame_type m)"
  obtain d1 d2 body where
    d1: "(if fst_frame then store_all (mkv_head_stores V m c) dst else Some dst) = Some d1" and
    n: "n = start + 35 + body_len m" "n \<le> mx" and
    d2: "wr_slice d1 (int start) ?head = Some d2" and
    body: "rd_slice src (int (body_p m)) (body_len m) = Some body" and
    d3: "wr_slice d2 (int (start + length ?head)) body = Some d"
    using assms(1) unfolding dt_convert_frame_to_mkv_def Let_def loads start whole
    by (simp add: bind_Some_iff split: if_splits) (auto simp: start_def sums split: if_splits)
  have b: "body_p m + body_len m \<le> length src" "body = take (body_len m) (drop (body_p m) src)" "length body = body_len m"
    using body rd_slice_length [OF body] by (auto simp: rd_slice_Some_iff)
  have "take n d = take (start + length ?head) d2 @ body"
    using wr_slice_prefix [OF d3] b n by simp
  also have "\<dots> = take start d1 @ mkv_cluster m src"
    unfolding wr_slice_prefix [OF d2] by (simp add: mkv_cluster_def b)
  finally show ?thesis
    using d1 n b(1) by (intro exI [of _ d1]) (auto simp: start_def)
qed

section \<open>Reading Matroska back\<close>

text \<open>
  The element syntax of EBML: a variable-length number has as many leading zero bits as bytes that
  follow the first; an identifier keeps the length marker, a size does not.
\<close>

definition vint_width :: "byte \<Rightarrow> nat" where
  "vint_width b =
     (let v = unat b
      in if 128 \<le> v then 1 else if 64 \<le> v then 2 else if 32 \<le> v then 3 else if 16 \<le> v then 4
         else if 8 \<le> v then 5 else if 4 \<le> v then 6 else if 2 \<le> v then 7 else if 1 \<le> v then 8 else 0)"

definition read_vint :: "byte list \<Rightarrow> (byte list \<times> nat \<times> byte list) option" where
  "read_vint bs =
     (case bs of [] \<Rightarrow> None
      | b # _ \<Rightarrow>
          let w = vint_width b
          in if w = 0 \<or> length bs < w then None
             else Some (take w bs, be_nat (take w bs) - 2 ^ (7 * w), drop w bs))"

definition read_element :: "byte list \<Rightarrow> (byte list \<times> byte list \<times> byte list) option" where
  "read_element bs =
     do {
       (ident, _, bs1) \<leftarrow> read_vint bs;
       (_, n, bs2) \<leftarrow> read_vint bs1;
       if n \<le> length bs2 then Some (ident, take n bs2, drop n bs2) else None
     }"

definition read_cluster :: "byte list \<Rightarrow> ((nat \<times> byte \<times> byte list) \<times> byte list) option" where
  "read_cluster bs =
     do {
       (ident, inner, rest) \<leftarrow> read_element bs;
       (ident1, time, inner1) \<leftarrow> read_element inner;
       (ident2, block, inner2) \<leftarrow> read_element inner1;
       (_, track, block1) \<leftarrow> read_vint block;
       (case block1 of
          t1 # t0 # flags # payload \<Rightarrow>
            if ident = [0x1f, 0x43, 0xb6, 0x75] \<and> ident1 = [0xe7] \<and> ident2 = [0xa3] \<and> inner2 = [] \<and>
               track = 1 \<and> t1 = 0 \<and> t0 = 0
            then Some ((be_nat time, flags, payload), rest) else None
        | _ \<Rightarrow> None)
     }"

fun read_clusters :: "nat \<Rightarrow> byte list \<Rightarrow> ((nat \<times> byte \<times> byte list) list \<times> byte list) option" where
  "read_clusters 0 bs = Some ([], bs)"
| "read_clusters (Suc n) bs =
     do { (c, rest) \<leftarrow> read_cluster bs; (cs, rest') \<leftarrow> read_clusters n rest; Some (c # cs, rest') }"

lemma be_nat_tl_U64:
  assumes "n < 2 ^ 56" shows "be_nat (tl (BT_NV2MM_U64 (of_nat n))) = n"
proof -
  have "unat (of_nat n :: u64) = n" using assms by (simp add: unat_of_nat)
  then have "tl (BT_NV2MM_U64 (of_nat n)) = be_bytes 7 n" by (simp add: NV2MM_U64_be)
  then show ?thesis using assms by (simp add: be_nat_be_bytes del: be_bytes_numeral)
qed

lemma read_vint_size:
  assumes "n < 2 ^ 56"
  shows "read_vint (0x01 # tl (BT_NV2MM_U64 (of_nat n)) @ xs) = Some (0x01 # tl (BT_NV2MM_U64 (of_nat n)), n, xs)"
  using be_nat_tl_U64 [OF assms] by (simp add: read_vint_def vint_width_def Let_def)

lemma read_element_sized:
  assumes "length p < 2 ^ 56" "read_vint (ident @ ys) = Some (ident, v, ys)"
    and "ys = 0x01 # tl (BT_NV2MM_U64 (of_nat (length p))) @ p @ xs"
  shows "read_element (ident @ ys) = Some (ident, p, xs)"
  using assms(2) read_vint_size [OF assms(1), of "p @ xs"] by (simp add: read_element_def assms(3))

lemma cluster_sizes:
  "(of_nat n + of_nat WHOLE_CLUSTER_HEADER_LOAD + of_nat WHOLE_SIMPLEBLOCK_HEADER_LOAD - 12 :: u64) = of_nat (n + 23)"
  "(of_nat n + of_nat WHOLE_SIMPLEBLOCK_HEADER_LOAD - 9 :: u64) = of_nat (n + 4)"
  by (simp_all add: WHOLE_CLUSTER_HEADER_LOAD_def WHOLE_SIMPLEBLOCK_HEADER_LOAD_def)

lemma read_mkv_cluster:
  assumes "body_p m + body_len m \<le> length src" "body_len m < 2 ^ 48"
  shows "read_cluster (mkv_cluster m src @ xs) =
    Some ((unat (mp_timestamp m) div 1000, if frame_type m = FT_VIDEO_I_FRAME then 1 else 0,
           take (body_len m) (drop (body_p m) src)), xs)"
proof -
  define body where "body = take (body_len m) (drop (body_p m) src)"
  define fl :: byte where "fl = (if frame_type m = FT_VIDEO_I_FRAME then 1 else 0)"
  define ts where "ts = BT_NV2MM_U64 (mp_timestamp m div 1000)"
  have len: "length body = body_len m" using assms(1) by (simp add: body_def)
  define block where "block = [0x81, 0, 0, fl] @ body"
  define inner where "inner = [0xe7, 0x88] @ ts @ [0xa3, 0x01] @ tl (BT_NV2MM_U64 (of_nat (length block))) @ block"
  have lts: "length ts = 8" by (simp add: ts_def)
  have lb: "length block = body_len m + 4" by (simp add: block_def len)
  have li: "length inner = body_len m + 23" using lb by (simp add: inner_def lts)
  have mn: "min (length src - body_p m) (body_len m) = body_len m" using assms(1) by simp
  have c: "mkv_cluster m src @ xs =
      [0x1f, 0x43, 0xb6, 0x75] @ 0x01 # tl (BT_NV2MM_U64 (of_nat (length inner))) @ inner @ xs"
    unfolding mkv_cluster_def mkv_cluster_head_def Let_def cluster_sizes li inner_def lb block_def
    by (simp add: body_def fl_def ts_def mn add.commute)
  have e1: "read_element (mkv_cluster m src @ xs) = Some ([0x1f, 0x43, 0xb6, 0x75], inner, xs)"
    unfolding c by (rule read_element_sized [OF _ _ refl])
      (use assms(2) li in \<open>simp_all add: read_vint_def vint_width_def Let_def\<close>)
  have e2: "read_element inner = Some ([0xe7], ts, [0xa3] @ 0x01 # tl (BT_NV2MM_U64 (of_nat (length block))) @ block)"
    by (simp add: inner_def read_element_def read_vint_def vint_width_def Let_def lts)
  have e3: "read_element ([0xa3] @ 0x01 # tl (BT_NV2MM_U64 (of_nat (length block))) @ block) = Some ([0xa3], block, [])"
    by (rule read_element_sized) (use assms(2) lb in \<open>simp_all add: read_vint_def vint_width_def Let_def\<close>)
  have t: "be_nat ts = unat (mp_timestamp m) div 1000"
  proof -
    have "unat (mp_timestamp m div 1000) = unat (mp_timestamp m) div 1000" by (simp add: unat_div)
    moreover have "unat (mp_timestamp m) div 1000 < 2 ^ 64"
      using unsigned_less [of "mp_timestamp m", where 'a = nat] by simp
    ultimately show ?thesis by (simp add: ts_def NV2MM_U64_be be_nat_be_bytes del: be_bytes_numeral)
  qed
  have v: "read_vint block = Some ([0x81], 1, [0, 0, fl] @ body)"
    by (simp add: block_def read_vint_def vint_width_def Let_def)
  show ?thesis
    unfolding read_cluster_def e1 by (simp add: e2 e3 [simplified] v t body_def fl_def)
qed

section \<open>Writing what fits\<close>

lemma wr_slice_fits:
  "i + length bs \<le> length m \<Longrightarrow> \<exists>m'. wr_slice m (int i) bs = Some m' \<and> length m' = length m"
  by simp

lemma mkv_head_stores_fit:
  "420 \<le> length m \<Longrightarrow> \<exists>m'. store_all (mkv_head_stores V p c) m = Some m' \<and> length m' = length m"
proof -
  assume "420 \<le> length m"
  then have "\<exists>m'. store_all (mkv_head_stores V p c) m = Some m'"
    by (intro store_all_fits) (auto simp: mkv_head_stores_def Let_def mkv_offsets)
  then show ?thesis using store_all_length by blast
qed

lemma convert_fits:
  assumes "len \<noteq> 0" "frame_type m = FT_VIDEO_I_FRAME \<or> frame_type m = FT_VIDEO_FRAME" "has_v_parms m"
    and body: "body_p m + body_len m \<le> length src" and fits: "body_len m + 455 \<le> mx" "mx \<le> length dst" "mx < 2 ^ 63"
  shows "\<exists>d n. dt_convert_frame_to_mkv V m src len dst mx fst_frame c = Some (0, d, n) \<and> length d = length dst"
proof -
  define start :: nat where "start = (if fst_frame then 420 else 0)"
  have loads: "WHOLE_CLUSTER_HEADER_LOAD + WHOLE_SIMPLEBLOCK_HEADER_LOAD = 35" "WHOLE_MAIN_HEADER_LOAD = 420"
    by (simp_all add: WHOLE_CLUSTER_HEADER_LOAD_def WHOLE_SIMPLEBLOCK_HEADER_LOAD_def WHOLE_MAIN_HEADER_LOAD_def)
  have start: "(if fst_frame then WHOLE_MAIN_HEADER_LOAD else 0) = start" "start \<le> 420" by (simp_all add: start_def loads)
  have whole: "(35 + body_len m + start) mod 2 ^ 64 = start + 35 + body_len m"
    using fits start(2) by simp
  have sums: "(455 + body_len m) mod 18446744073709551616 = 455 + body_len m"
    "(35 + body_len m) mod 18446744073709551616 = 35 + body_len m"
    using fits by simp_all
  obtain d1 where d1: "(if fst_frame then store_all (mkv_head_stores V m c) dst else Some dst) = Some d1" "length d1 = length dst"
    using mkv_head_stores_fit [of dst V m c] fits by (cases fst_frame) auto
  let ?head = "mkv_cluster_head (body_len m) (mp_timestamp m div 1000) (frame_type m)"
  obtain d2 where d2: "wr_slice d1 (int start) ?head = Some d2" "length d2 = length d1"
    using wr_slice_fits [of start ?head d1] d1 fits start by auto
  have b: "rd_slice src (int (body_p m)) (body_len m) = Some (take (body_len m) (drop (body_p m) src))"
    using body by simp
  obtain d3 where d3: "wr_slice d2 (int (start + length ?head)) (take (body_len m) (drop (body_p m) src)) = Some d3"
      "length d3 = length d2"
    using wr_slice_fits [of "start + length ?head" "take (body_len m) (drop (body_p m) src)" d2] d1 d2 fits start body by auto
  have ft: "\<not> (frame_type m \<noteq> FT_VIDEO_I_FRAME \<and> frame_type m \<noteq> FT_VIDEO_FRAME)" using assms(2) by blast
  have le: "\<not> start + 35 + body_len m > mx" using fits start by simp
  show ?thesis
    unfolding dt_convert_frame_to_mkv_def Let_def loads start whole if_not_P [OF ft] d1 bind.bind_lunit if_not_P [OF le] d2 b d3
    using assms(1,3) d1 d2 d3 sums le by (cases fst_frame) (simp_all add: start_def)
qed

text \<open>
  A whole recording: the frames one after the other, the main header with the first, each output
  appended to the file the way the callers do.
\<close>

fun write_stream ::
    "byte list \<Rightarrow> mcodec_t \<Rightarrow> nat \<Rightarrow> byte list \<Rightarrow> bool \<Rightarrow> (t_mc_parms \<times> byte list) list \<Rightarrow> byte list option" where
  "write_stream V c mx dst first_frame [] = Some []"
| "write_stream V c mx dst first_frame ((m, src) # fs) =
     do {
       (r, d, n) \<leftarrow> dt_convert_frame_to_mkv V m src (length src) dst mx first_frame c;
       rest \<leftarrow> write_stream V c mx d False fs;
       Some (take n d @ rest)
     }"

definition shown :: "t_mc_parms \<times> byte list \<Rightarrow> nat \<times> byte \<times> byte list" where
  "shown f = (unat (mp_timestamp (fst f)) div 1000, if frame_type (fst f) = FT_VIDEO_I_FRAME then 1 else 0,
              take (body_len (fst f)) (drop (body_p (fst f)) (snd f)))"

definition writable :: "nat \<Rightarrow> t_mc_parms \<times> byte list \<Rightarrow> bool" where
  "writable mx f \<longleftrightarrow> frame_type (fst f) \<in> {FT_VIDEO_I_FRAME, FT_VIDEO_FRAME} \<and> has_v_parms (fst f) \<and>
     body_len (fst f) + 455 \<le> mx \<and> body_p (fst f) + body_len (fst f) \<le> length (snd f) \<and> snd f \<noteq> []"

lemma write_stream_clusters:
  assumes "mx \<le> length dst" "mx < 2 ^ 48" "\<forall>f \<in> set fs. writable mx f"
  shows "\<exists>out. write_stream V c mx dst False fs = Some out \<and> read_clusters (length fs) out = Some (map shown fs, [])"
  using assms(1,3)
proof (induction fs arbitrary: dst)
  case (Cons f fs)
  obtain m src where f: "f = (m, src)" by fastforce
  have w: "writable mx (m, src)" using Cons.prems f by simp
  obtain d n where d: "dt_convert_frame_to_mkv V m src (length src) dst mx False c = Some (0, d, n)" "length d = length dst"
    using convert_fits [of "length src" m src mx dst V False c] w Cons.prems(1) assms(2) by (auto simp: writable_def)
  have n: "take n d = mkv_cluster m src" "body_p m + body_len m \<le> length src"
    using convert_writes [OF d(1)] w assms(2) by (auto simp: writable_def)
  obtain out where out: "write_stream V c mx d False fs = Some out" "read_clusters (length fs) out = Some (map shown fs, [])"
    using Cons.IH [of d] Cons.prems d(2) by auto
  have "body_len m < 2 ^ 48" using w assms(2) by (simp add: writable_def)
  then show ?case
    using read_mkv_cluster [OF n(2), of out] by (simp add: f d n out shown_def)
qed simp

definition mkv_fields :: "(nat \<times> nat) list" where
  "mkv_fields =
     [(MKV_HOFF_CodecStr, 15), (MKV_HOFF_PixelWidth, 2), (MKV_HOFF_PixelHeight, 2), (MKV_HOFF_DisplayWidth, 2),
      (MKV_HOFF_DisplayHeight, 2), (MKV_HOFF_FrameRate, 4), (MKV_HOFF_MuxingApp, 13), (MKV_HOFF_WritingApp, 13),
      (MKV_HOFF_Language, 3), (MKV_HOFF_TimecodeScale, 3)]"

text \<open>A store that no later store overlaps is what the memory holds in the end.\<close>

definition apart :: "nat \<times> byte list \<Rightarrow> (nat \<times> byte list) list \<Rightarrow> bool" where
  "apart w ws \<longleftrightarrow> (\<forall>(k, cs) \<in> set ws. fst w + length (snd w) \<le> k \<or> k + length cs \<le> fst w)"

lemma store_all_nth:
  assumes "store_all ws m = Some m'" "k < length ws" "apart (ws ! k) (drop (Suc k) ws)"
  shows "take (length (snd (ws ! k))) (drop (fst (ws ! k)) m') = snd (ws ! k)"
  using store_all_stores [of "take k ws" "fst (ws ! k)" "snd (ws ! k)" "drop (Suc k) ws" m m'] assms
  by (simp add: apart_def id_take_nth_drop [symmetric])

lemma wr_slice_over:
  assumes "length s \<le> length a"
  shows "wr_slice m (int i) a \<bind> (\<lambda>m1. wr_slice m1 (int i) s \<bind> f) = wr_slice m (int i) (s @ drop (length s) a) \<bind> f"
  using assms by (auto simp: wr_slice_def min_def) (cases a; simp)

definition app_field :: "byte list \<Rightarrow> byte list" where
  "app_field V = take 13 (tanidvr_sw_str V @ replicate 13 0)"

definition mkv_merged_stores :: "byte list \<Rightarrow> t_mc_parms \<Rightarrow> mcodec_t \<Rightarrow> (nat \<times> byte list) list" where
  "mkv_merged_stores V m c =
     [(0, mkv_head), (0x153, str_MCODEC c),
      (0x170, BT_NV2MM_U16 (ucast (v_width m))), (0x174, BT_NV2MM_U16 (ucast (v_height m))),
      (0x179, BT_NV2MM_U16 (ucast (v_aspect_x m))), (0x17e, BT_NV2MM_U16 (ucast (v_aspect_y m))),
      (0x184, BT_NV2MM_U32 (transform_fps_to_mkvfps (dhav_fps m) (NTSC_timings m) (ntsc_exact_60hz m))),
      (0xed, app_field V), (0xfd, app_field V), (0x14b, [0x75, 0x6E, 0x64]), (0xe7, [0x00, 0x03, 0xe8])]"

lemma length_app_field [simp]: "length (app_field V) = 13"
  by (simp add: app_field_def)

lemma app_field_eq:
  "take (if length s > 13 then 13 else length s) s @ drop (length (take (if length s > 13 then 13 else length s) s)) (replicate 13 0)
   = take 13 (s @ replicate 13 (0 :: byte))"
  by (simp add: min_def)

lemma store_all_merged: "store_all (mkv_head_stores V m c) dst = store_all (mkv_merged_stores V m c) dst"
proof -
  have over: "wr_slice a (int i) (replicate 13 0) \<bind> (\<lambda>m1. wr_slice m1 (int i)
      (take (if length s > 13 then 13 else length s) s) \<bind> f) = wr_slice a (int i) (take 13 (s @ replicate 13 0)) \<bind> f"
    for a :: "byte list" and i s and f :: "byte list \<Rightarrow> byte list option"
    by (subst wr_slice_over) (simp_all only: app_field_eq, simp)
  show ?thesis
    unfolding mkv_head_stores_def mkv_merged_stores_def Let_def mkv_offsets store_all.simps app_field_def over
    by simp
qed

lemma mkv_first_420:
  assumes "dt_convert_frame_to_mkv V m src len dst mx True c = Some (0, d, n)" and "body_len m < 2 ^ 63"
  shows "\<exists>d1. store_all (mkv_merged_stores V m c) dst = Some d1 \<and> take 420 d = take 420 d1 \<and> 420 \<le> length d1 \<and> 420 \<le> length d"
proof -
  obtain d1 where d1: "store_all (mkv_head_stores V m c) dst = Some d1" "n = 455 + body_len m"
      "take n d = take 420 d1 @ mkv_cluster m src"
    using convert_writes [OF assms] by auto
  then obtain m1 where m1: "wr_slice dst 0 mkv_head = Some m1"
    by (auto simp: mkv_head_stores_def Let_def bind_Some_iff)
  have "420 \<le> length dst" using m1 by (auto simp: wr_slice_def split: if_splits)
  then have l: "420 \<le> length d1" using store_all_length [OF d1(1)] by simp
  have "take 420 (take n d) = take 420 d1" using l by (simp add: d1(3))
  then have "take 420 d = take 420 d1" by (simp add: d1(2) min_def)
  then show ?thesis using l d1(1) by (metis store_all_merged length_take min_absorb2 min_def nat_le_linear)
qed

lemma field_of:
  assumes "take 420 d = take 420 d1" "off + k \<le> 420"
  shows "take k (drop off d) = take k (drop off d1)"
  by (metis assms take_drop_take)

lemma be_nat_U16: "be_nat (BT_NV2MM_U16 x) = unat x"
  using unsigned_less [of x, where 'a = nat]
  by (simp add: NV2MM_U16_be be_nat_be_bytes del: be_bytes_numeral)

lemma be_nat_U32: "be_nat (BT_NV2MM_U32 x) = unat x"
  using unsigned_less [of x, where 'a = nat]
  by (simp add: NV2MM_U32_be be_nat_be_bytes del: be_bytes_numeral)

section \<open>Properties\<close>

definition sample_frame :: "t_mc_parms \<times> byte list" where
  "sample_frame = (sample_parms\<lparr>frame_type := FT_VIDEO_I_FRAME, mp_timestamp := 40000000, body_p := 2, body_len := 3\<rparr>,
                   [9, 9, 1, 2, 3])"

text \<open>
  C7: A recording is a Matroska file that reads back: whatever video frames are written after each
  other, the header takes the first 420 bytes and the rest parses, with the length fields the code
  computed, into one cluster per frame holding its time in microseconds, its key-frame flag and its
  exact payload.
\<close>
theorem mkv_recording_reads_back:
  assumes "mx \<le> length dst" "mx < 2 ^ 48" "fs \<noteq> []" "\<forall>f \<in> set fs. writable mx f"
  shows "\<exists>head out. write_stream V c mx dst True fs = Some (head @ out) \<and> length head = 420 \<and>
    read_clusters (length fs) out = Some (map shown fs, [])"
proof -
  obtain m src fs' where fs: "fs = (m, src) # fs'" using assms(3) by (cases fs) auto
  have w: "writable mx (m, src)" using assms(4) fs by simp
  obtain d n where d: "dt_convert_frame_to_mkv V m src (length src) dst mx True c = Some (0, d, n)" "length d = length dst"
    using convert_fits [of "length src" m src mx dst V True c] w assms(1,2) by (auto simp: writable_def)
  obtain d1 where n: "take n d = take 420 d1 @ mkv_cluster m src" "body_p m + body_len m \<le> length src"
      "store_all (mkv_head_stores V m c) dst = Some d1"
    using convert_writes [OF d(1)] w assms(2) by (auto simp: writable_def)
  obtain out where out: "write_stream V c mx d False fs' = Some out" "read_clusters (length fs') out = Some (map shown fs', [])"
    using write_stream_clusters [of mx d fs' V c] assms d(2) fs by auto
  have "body_len m < 2 ^ 48" "420 \<le> length dst" using w assms(1,2) by (auto simp: writable_def)
  then show ?thesis
    using read_mkv_cluster [OF n(2), of out] store_all_length [OF n(3)]
    by (intro exI [of _ "take 420 d1"] exI [of _ "mkv_cluster m src @ out"]) (simp add: fs d n out shown_def)
qed

lemma mkv_recording_reads_back_witness:
  "\<exists>head out. write_stream [0x31] MCODEC_V_MPEG4_ISO_AVC 500 (replicate 500 0) True [sample_frame, sample_frame] =
      Some (head @ out) \<and> length head = 420 \<and>
    read_clusters (length [sample_frame, sample_frame]) out = Some ([(40000, 1, [1, 2, 3]), (40000, 1, [1, 2, 3])], [])"
proof -
  have w: "writable 500 sample_frame" by (simp add: writable_def sample_frame_def sample_parms_def)
  have sh: "shown sample_frame = (40000, 1, [1, 2, 3])" by (simp add: shown_def sample_frame_def)
  have m: "map shown [sample_frame, sample_frame] = [(40000, 1, [1, 2, 3]), (40000, 1, [1, 2, 3])]" by (simp add: sh)
  show ?thesis
    unfolding m [symmetric] by (rule mkv_recording_reads_back) (simp_all add: w)
qed

text \<open>
  C34: The main header describes the video: after a first frame the output starts with the 420 bytes of
  the template in which exactly the codec, the picture and display sizes (modulo 2^16), the frame
  rate, the two application names (13 bytes), the language and the time unit of 1000 ns are the ones
  of this video; every other byte is the one of the template.
\<close>
theorem mkv_header_describes:
  assumes "dt_convert_frame_to_mkv V m src len dst mx True c = Some (0, d, n)" and "body_len m < 2 ^ 63"
  shows "take 15 (drop MKV_HOFF_CodecStr d) = str_MCODEC c \<and>
    map (\<lambda>off. be_nat (take 2 (drop off d)))
        [MKV_HOFF_PixelWidth, MKV_HOFF_PixelHeight, MKV_HOFF_DisplayWidth, MKV_HOFF_DisplayHeight] =
      map (\<lambda>v. v mod 65536) [unat (v_width m), unat (v_height m), unat (v_aspect_x m), unat (v_aspect_y m)] \<and>
    be_nat (take 4 (drop MKV_HOFF_FrameRate d)) =
      unat (transform_fps_to_mkvfps (dhav_fps m) (NTSC_timings m) (ntsc_exact_60hz m)) \<and>
    take 13 (drop MKV_HOFF_MuxingApp d) = take 13 (tanidvr_sw_str V @ replicate 13 0) \<and>
    take 13 (drop MKV_HOFF_WritingApp d) = take 13 (tanidvr_sw_str V @ replicate 13 0) \<and>
    be_nat (take 3 (drop MKV_HOFF_TimecodeScale d)) = 1000 \<and>
    (\<forall>i < 420. (\<forall>(off, k) \<in> set mkv_fields. i < off \<or> off + k \<le> i) \<longrightarrow> d ! i = mkv_head ! i)"
proof (intro conjI allI impI)
  let ?ws = "mkv_merged_stores V m c"
  obtain d1 where st: "store_all ?ws dst = Some d1" and same: "take 420 d = take 420 d1"
      and len: "420 \<le> length d1" "420 \<le> length d"
    using mkv_first_420 [OF assms] by blast
  have at: "take (length (snd (?ws ! k))) (drop (fst (?ws ! k)) d) = snd (?ws ! k)"
    if "k < length ?ws" "apart (?ws ! k) (drop (Suc k) ?ws)" "fst (?ws ! k) + length (snd (?ws ! k)) \<le> 420" for k
    using store_all_nth [OF st that(1,2)] field_of [OF same that(3)] by simp
  note ev = mkv_merged_stores_def apart_def
  show "take 15 (drop MKV_HOFF_CodecStr d) = str_MCODEC c"
    using at [of 1] by (simp add: ev mkv_offsets)
  show "map (\<lambda>off. be_nat (take 2 (drop off d)))
           [MKV_HOFF_PixelWidth, MKV_HOFF_PixelHeight, MKV_HOFF_DisplayWidth, MKV_HOFF_DisplayHeight] =
         map (\<lambda>v. v mod 65536) [unat (v_width m), unat (v_height m), unat (v_aspect_x m), unat (v_aspect_y m)]"
    using at [of 2] at [of 3] at [of 4] at [of 5]
    by (simp add: ev mkv_offsets be_nat_U16 unat_of_nat unsigned_ucast_eq take_bit_eq_mod)
  show "be_nat (take 4 (drop MKV_HOFF_FrameRate d)) =
         unat (transform_fps_to_mkvfps (dhav_fps m) (NTSC_timings m) (ntsc_exact_60hz m))"
    using at [of 6] by (simp add: ev mkv_offsets be_nat_U32)
  show "take 13 (drop MKV_HOFF_MuxingApp d) = take 13 (tanidvr_sw_str V @ replicate 13 0)"
    unfolding app_field_def [symmetric] using at [of 7] by (simp add: ev mkv_offsets)
  show "take 13 (drop MKV_HOFF_WritingApp d) = take 13 (tanidvr_sw_str V @ replicate 13 0)"
    unfolding app_field_def [symmetric] using at [of 8] by (simp add: ev mkv_offsets)
  show "be_nat (take 3 (drop MKV_HOFF_TimecodeScale d)) = 1000"
    using at [of 10] by (simp add: ev mkv_offsets numeral_3_eq_3 [symmetric])
  fix i :: nat assume i: "i < 420" "\<forall>(off, k) \<in> set mkv_fields. i < off \<or> off + k \<le> i"
  obtain m1 where m1: "wr_slice dst (int 0) mkv_head = Some m1" "store_all (tl ?ws) m1 = Some d1"
    using st by (auto simp: mkv_merged_stores_def bind_Some_iff)
  have "d1 ! i = m1 ! i"
    by (rule store_all_untouched [OF m1(2)])
      (use i len store_all_length [OF m1(2)] in \<open>simp_all add: mkv_fields_def mkv_offsets ev\<close>)
  also have "\<dots> = mkv_head ! i"
    using wr_slice_nth [OF m1(1), of i] i(1) len store_all_length [OF m1(2)] wr_slice_length [OF m1(1)] by simp
  finally show "d ! i = mkv_head ! i"
    using same i(1) by (metis nth_take)
qed

lemma mkv_header_describes_witness:
  "\<exists>d n. dt_convert_frame_to_mkv [0x31] (fst sample_frame) [9, 9, 1, 2, 3] 5 (replicate 500 0) 500 True MCODEC_V_MPEG4_ISO_AVC
      = Some (0, d, n) \<and> be_nat (take 2 (drop MKV_HOFF_PixelWidth d)) = 352 \<and> d ! 0 = 0x1A"
proof -
  obtain d n where d: "dt_convert_frame_to_mkv [0x31] (fst sample_frame) [9, 9, 1, 2, 3] 5 (replicate 500 0) 500 True MCODEC_V_MPEG4_ISO_AVC
      = Some (0, d, n)"
    using convert_fits [of 5 "fst sample_frame" "[9, 9, 1, 2, 3]" 500 "replicate 500 0" "[0x31]" True MCODEC_V_MPEG4_ISO_AVC]
    by (auto simp: sample_frame_def sample_parms_def)
  have "body_len (fst sample_frame) < 2 ^ 63" by (simp add: sample_frame_def)
  note h = mkv_header_describes [OF d this]
  have "be_nat (take 2 (drop MKV_HOFF_PixelWidth d)) = 352"
    using h by (simp add: sample_frame_def sample_parms_def)
  moreover have "d ! 0 = 0x1A"
    using h by (simp add: mkv_fields_def mkv_offsets) (simp add: mkv_head_def)
  ultimately show ?thesis using d by blast
qed



text \<open>
  The frame rate of a 25 frames per second PAL recording is written as 24.975 (25000/1001): the
  ratio 1000/1001 is applied to every video that is not NTSC with exact timings, where the exact
  value 25.0 would be 0x41C80000; an NTSC recording with exact timings gets its 30.0.
\<close>
lemma mkv_frame_rate_scaled:
  "transform_fps_to_mkvfps 25 False exact = 0x41C7CCDA \<and> float_bits 25 0 = 0x41C80000 \<and>
   transform_fps_to_mkvfps 30 True True = 0x41F00000 \<and> transform_fps_to_mkvfps 30 True False = 0x41EFC29F"
  by (simp add: transform_fps_to_mkvfps_def round_even_def round_bits_def float_bits_def Let_def)

lemma collect_head_Inl:
  assumes "collect_head m t sf = Some (Inl (0, m'))" "frame_type m = FT_UNDEFINED"
  shows "frame_type m' \<notin> {FT_VIDEO_I_FRAME, FT_VIDEO_FRAME}"
  using assms by (auto simp: collect_head_def collect_i_frame_def Let_def bind_Some_iff split: if_splits)

lemma collect_body_len:
  assumes "rd src 22 = Some h" "0 < src_len" "dt_collect_dhav_frame_info m src src_len = Some (0, m')"
    and ft: "frame_type m' \<in> {FT_VIDEO_I_FRAME, FT_VIDEO_FRAME}"
  shows "body_len m' = size_sub (size_sub src_len (unat h + 24)) 8"
proof -
  obtain t ext hd where hd: "collect_head (m\<lparr>frame_type := FT_UNDEFINED\<rparr>) t (dhav_sf_parse_ext_head ext) = Some hd"
    and rest: "(case hd of Inl r \<Rightarrow> Some r
        | Inr m1 \<Rightarrow>
            do {
              ts \<leftarrow> rd_slice src 20 2;
              epoch \<leftarrow> rd_slice src 16 4;
              Some (0, (collect_clock m1 (ucast (BT_LM2NV_U16 ts)) (BT_LM2NV_U32 epoch))
                         \<lparr>body_p := unat h + 24, body_len := size_sub (size_sub src_len (unat h + 24)) 8\<rparr>)
            }) = Some (0, m')"
    using assms(1-3) unfolding dt_collect_dhav_frame_info_def Let_def BASE_DHAV_HDR_LEN_def
    by (simp add: bind_Some_iff) blast
  show ?thesis
  proof (cases hd)
    case (Inl r)
    then show ?thesis using rest hd collect_head_Inl [of _ t _ m'] ft by auto
  next
    case (Inr m1)
    then show ?thesis using rest by (auto simp: bind_Some_iff)
  qed
qed

lemma size_sub_size_sub: "size_sub (size_sub a b) c = nat ((int a - int b - int c) mod 2 ^ 64)"
  by (simp add: size_sub_def mod_diff_left_eq)

text \<open>
  A frame shorter than its own headers is not noticed: its body length wraps around 2^64, the
  payload length computed from it wraps back and passes the check of the output buffer, and the copy
  of the body runs out of the buffers.
\<close>
lemma mkv_short_frame_overruns:
  assumes "rd src 22 = Some h" "0 < src_len" "src_len < unat h + 32" "unat h \<le> src_len + 3"
    and "dt_collect_dhav_frame_info m src src_len = Some (0, m')"
    and "has_v_parms m'" "frame_type m' \<in> {FT_VIDEO_I_FRAME, FT_VIDEO_FRAME}"
    and "455 \<le> mx" "length src < 2 ^ 62"
  shows "(35 + body_len m' + (if fst_frame then 420 else 0)) mod 2 ^ 64 \<le> mx \<and>
    dt_convert_frame_to_mkv V m' src src_len dst mx fst_frame c = None"
proof -
  define k where "k = unat h + 32 - src_len"
  have k: "1 \<le> k" "k \<le> 35" "int src_len - int (unat h + 24) - 8 = - int k"
    using assms(2-4) by (auto simp: k_def)
  have "body_len m' = size_sub (size_sub src_len (unat h + 24)) 8"
    by (rule collect_body_len) fact+
  also have "\<dots> = nat (- int k mod 2 ^ 64)"
    by (simp only: size_sub_size_sub k(3) of_nat_numeral)
  also have "\<dots> = 2 ^ 64 - k"
  proof -
    have "- int k mod 2 ^ 64 = 2 ^ 64 - int k" using k by (subst wrap64_neg) simp_all
    then show ?thesis using k by (simp add: nat_diff_distrib)
  qed
  finally have len: "body_len m' = 2 ^ 64 - k" .
  have loads: "WHOLE_CLUSTER_HEADER_LOAD + WHOLE_SIMPLEBLOCK_HEADER_LOAD = 35" "WHOLE_MAIN_HEADER_LOAD = 420"
    by (simp_all add: WHOLE_CLUSTER_HEADER_LOAD_def WHOLE_SIMPLEBLOCK_HEADER_LOAD_def WHOLE_MAIN_HEADER_LOAD_def)
  have whole: "(35 + body_len m' + (if fst_frame then 420 else 0)) mod 2 ^ 64 \<le> mx"
  proof -
    have "35 + body_len m' + (if fst_frame then 420 else 0) = (35 - k + (if fst_frame then 420 else 0)) + 2 ^ 64"
      using k by (simp add: len)
    then have "(35 + body_len m' + (if fst_frame then 420 else 0)) mod 2 ^ 64 = (35 - k + (if fst_frame then 420 else 0)) mod 2 ^ 64"
      by (metis mod_add_self2)
    also have "\<dots> \<le> 35 - k + (if fst_frame then 420 else 0)" by (rule mod_less_eq_dividend)
    finally show ?thesis using assms(8) by (cases fst_frame) simp_all
  qed
  have none: "rd_slice src (int (body_p m')) (body_len m') = None"
    using assms(9) k by (simp add: rd_slice_def len)
  have ft: "\<not> (frame_type m' \<noteq> FT_VIDEO_I_FRAME \<and> frame_type m' \<noteq> FT_VIDEO_FRAME)" using assms(7) by blast
  have le: "\<not> (35 + body_len m' + (if fst_frame then 420 else 0)) mod 2 ^ 64 > mx" using whole by simp
  have "dt_convert_frame_to_mkv V m' src src_len dst mx fst_frame c = None"
    unfolding dt_convert_frame_to_mkv_def Let_def loads if_not_P [OF ft] if_not_P [OF le] none
    using assms(2,6) by (auto simp: bind_eq_None_conv)
  with whole show ?thesis ..
qed

lemma mkv_short_frame_overruns_witness:
  "\<exists>m'. dt_collect_dhav_frame_info sample_parms (replicate 4 0 @ [252] @ replicate 17 0 @ [0, 0]) 24 = Some (0, m') \<and>
     dt_convert_frame_to_mkv [0x31] m' (replicate 4 0 @ [252] @ replicate 17 0 @ [0, 0]) 24 (replicate 500 0) 500 False
       MCODEC_V_MPEG4_ISO_AVC = None"
proof -
  let ?src = "replicate 4 0 @ [252] @ replicate 17 0 @ [0, 0 :: byte]"
  obtain m' where m': "dt_collect_dhav_frame_info sample_parms ?src 24 = Some (0, m')" "has_v_parms m'" "frame_type m' = FT_VIDEO_FRAME"
    by (simp add: dt_collect_dhav_frame_info_def rd_def rd_slice_def collect_head_def sample_parms_def
        BASE_DHAV_HDR_LEN_def Let_def collect_clock_def nth_append)
  show ?thesis
    using mkv_short_frame_overruns [OF _ _ _ _ m'(1), of 0 500 False "[0x31]" "replicate 500 0" MCODEC_V_MPEG4_ISO_AVC] m'
    by (auto simp: rd_def nth_append)
qed

end
