(* ===== verification/H264_Framing.thy ===== *)
theory H264_Framing
  imports Framer
begin

text \<open>
  \<open>search_mpeg_NAL\<close> and \<open>dstf_process_raw_h264_stream_to_frames\<close> of \<open>src/mctools.c\<close>: cutting a raw
  H.264/MPEG stream at its start codes 00 00 01. Same interface as the DHAV deframer.
\<close>

section \<open>The code\<close>

text \<open>
  The search works on \<open>len\<close> bytes from \<open>base\<close> on; its counter is an \<open>int\<close>, compared as a \<open>size_t\<close>,
  and the three bytes are read one after the other, as far as they match.
\<close>

function search_NAL_from :: "byte list \<Rightarrow> nat \<Rightarrow> nat \<Rightarrow> nat \<Rightarrow> int option" where
  "search_NAL_from m base len i =
     (if i < size_sub len 2 then
        do {
          found \<leftarrow> do {
            b0 \<leftarrow> rd m (int (base + i));
            if b0 \<noteq> 0 then Some False
            else do {
              b1 \<leftarrow> rd m (int (base + i + 1));
              if b1 \<noteq> 0 then Some False
              else do { b2 \<leftarrow> rd m (int (base + i + 2)); Some (b2 = 1) }
            }
          };
          if found then Some (int i)
          else if i + 1 \<ge> 2 ^ 31 then None
          else search_NAL_from m base len (i + 1)
        }
      else Some (-1))"
  by pat_completeness auto
termination by (relation "measure (\<lambda>(m, base, len, i). size_sub len 2 - i)") auto

declare search_NAL_from.simps [simp del]

definition search_mpeg_NAL :: "byte list \<Rightarrow> nat \<Rightarrow> nat \<Rightarrow> int option" where
  "search_mpeg_NAL m base len = search_NAL_from m base len 0"

definition h264_frame :: "nat \<Rightarrow> dstf \<Rightarrow> (int \<times> byte list \<times> dstf) option" where
  "h264_frame max_dst_len q =
     (if sq_len q < 8 then Some (0, [], q)
      else do {
        next_NAL \<leftarrow> search_mpeg_NAL (sq q) (sq_offs q + 4) (size_sub (sq_len q) 4);
        if next_NAL < 0 then Some (0, [], q)
        else do {
          let frame_len = nat next_NAL + 4;
          if max_dst_len < frame_len then Some (-3, [], q)
          else do {
            frame \<leftarrow> rd_slice (sq q) (int (sq_offs q)) frame_len;
            Some (1, frame, dstf_advance frame_len q)
          }
        }
      })"

definition dstf_process_raw_h264_stream_to_frames ::
    "dstf \<Rightarrow> byte list \<Rightarrow> nat \<Rightarrow> nat \<Rightarrow> (int \<times> byte list \<times> dstf) option" where
  "dstf_process_raw_h264_stream_to_frames q src src_len max_dst_len =
     do {
       loaded \<leftarrow> dstf_load q src src_len;
       (case loaded of
          Inl code \<Rightarrow> Some (code, [], q)
        | Inr q1 \<Rightarrow>
            if sq_len q1 < 8 then Some (0, [], q1)
            else do {
              next_NAL \<leftarrow> search_mpeg_NAL (sq q1) (sq_offs q1) (sq_len q1);
              if next_NAL < 0
              then Some (0, [], q1\<lparr>sq_offs := sq_offs q1 + sq_len q1, sq_len := 0\<rparr>)
              else h264_frame max_dst_len
                     (if next_NAL \<noteq> 0 then dstf_advance (nat next_NAL) q1 else q1)
            })
     }"

section \<open>Specification\<close>

fun nal_pos :: "byte list \<Rightarrow> nat option" where
  "nal_pos (a # b # c # xs) =
     (if a = 0 \<and> b = 0 \<and> c = 1 then Some 0 else map_option Suc (nal_pos (b # c # xs)))"
| "nal_pos _ = None"

definition h264_cut :: "nat \<Rightarrow> byte list \<Rightarrow> int \<times> byte list \<times> byte list" where
  "h264_cut max_dst_len ys =
     (if length ys < 8 then (0, [], ys)
      else case nal_pos (drop 4 ys) of
             None \<Rightarrow> (0, [], ys)
           | Some j \<Rightarrow> if max_dst_len < j + 4 then (-3, [], ys) else (1, take (j + 4) ys, drop (j + 4) ys))"

definition h264_spec :: "nat \<Rightarrow> nat \<Rightarrow> byte list \<Rightarrow> (int \<times> byte list \<times> byte list) option" where
  "h264_spec maxlen max_dst_len xs =
     Some (if length xs < 8 then (0, [], xs)
           else case nal_pos xs of
                  None \<Rightarrow> (0, [], [])
                | Some i \<Rightarrow> h264_cut max_dst_len (drop i xs))"

lemma nal_pos_drop:
  "nal_pos (drop i xs) =
     (if i + 2 < length xs then
        if xs ! i = 0 \<and> xs ! (i + 1) = 0 \<and> xs ! (i + 2) = 1 then Some 0
        else map_option Suc (nal_pos (drop (i + 1) xs))
      else None)"
proof (cases "i + 2 < length xs")
  case True
  then have "drop i xs = xs ! i # xs ! (i + 1) # xs ! (i + 2) # drop (i + 3) xs"
    "drop (i + 1) xs = xs ! (i + 1) # xs ! (i + 2) # drop (i + 3) xs"
    by (simp_all add: Cons_nth_drop_Suc numeral_3_eq_3 numeral_2_eq_2)
  with True show ?thesis by simp
next
  case False
  then have "length (drop i xs) \<le> 2" by simp
  then show ?thesis using False by (cases "drop i xs" rule: nal_pos.cases) auto
qed

lemma nal_pos_bound: "nal_pos xs = Some i \<Longrightarrow> i + 3 \<le> length xs"
  by (induction xs arbitrary: i rule: nal_pos.induct) (auto split: if_splits)

text \<open>The search of the code finds the same place.\<close>

lemma search_NAL_from_pos:
  assumes "xs = take len (drop base m)" "base + len \<le> length m" "len < 2 ^ 31" "2 \<le> len"
  shows "search_NAL_from m base len i =
    Some (case nal_pos (drop i xs) of None \<Rightarrow> -1 | Some j \<Rightarrow> int (i + j))"
  using assms
proof (induction m base len i rule: search_NAL_from.induct)
  case (1 m base len i)
  have s: "size_sub len 2 = len - 2" "length xs = len" using "1.prems" by (simp_all add: size_sub_ge)
  show ?case
  proof (cases "i + 2 < len")
    case False
    then have "\<not> i < size_sub len 2" "nal_pos (drop i xs) = None" using s by (auto simp: nal_pos_drop)
    then show ?thesis by (subst search_NAL_from.simps) simp
  next
    case True
    let ?hit = "xs ! i = 0 \<and> xs ! (i + 1) = 0 \<and> xs ! (i + 2) = 1"
    have rdx: "rd m (int (base + i)) = Some (xs ! i)" "rd m (int (base + i + 1)) = Some (xs ! (i + 1))"
      "rd m (int (base + i + 2)) = Some (xs ! (i + 2))"
      using True "1.prems" by (simp_all only: rd_of_nat) (simp_all add: add.assoc)
    have found: "do {
        b0 \<leftarrow> rd m (int (base + i));
        if b0 \<noteq> 0 then Some False
        else do {
          b1 \<leftarrow> rd m (int (base + i + 1));
          if b1 \<noteq> 0 then Some False
          else do { b2 \<leftarrow> rd m (int (base + i + 2)); Some (b2 = 1) }
        }
      } = Some ?hit"
      unfolding rdx by simp
    have small: "i < size_sub len 2" "\<not> i + 1 \<ge> 2 ^ 31" using True s "1.prems" by simp_all
    show ?thesis
    proof (cases ?hit)
      case hit: True
      then have "nal_pos (drop i xs) = Some 0" using True s by (simp add: nal_pos_drop)
      then show ?thesis
        by (subst search_NAL_from.simps) (simp only: found small hit if_True Option.bind.bind_lunit, simp)
    next
      case miss: False
      from "1.IH" [OF small(1) found miss small(2) "1.prems"] have
        "search_NAL_from m base len (i + 1) =
         Some (case nal_pos (drop (i + 1) xs) of None \<Rightarrow> -1 | Some j \<Rightarrow> int (i + 1 + j))" .
      moreover have "nal_pos (drop i xs) = map_option Suc (nal_pos (drop (i + 1) xs))"
        by (subst nal_pos_drop) (use True s miss in auto)
      ultimately show ?thesis
        by (subst search_NAL_from.simps)
           (simp only: found small miss if_True if_False Option.bind.bind_lunit, simp split: option.split)
    qed
  qed
qed

lemma search_queue:
  assumes inv: "dstf_inv q" and i: "i + 2 \<le> sq_len q"
  shows "search_mpeg_NAL (sq q) (sq_offs q + i) (sq_len q - i) =
    Some (case nal_pos (drop i (dstf_queue q)) of None \<Rightarrow> -1 | Some j \<Rightarrow> int j)"
proof -
  note b = dstf_inv_bounds [OF inv]
  have "drop i (dstf_queue q) = take (sq_len q - i) (drop (sq_offs q + i) (sq q))"
    by (simp add: dstf_queue_def drop_take add.commute)
  moreover have "sq_offs q + i + (sq_len q - i) \<le> length (sq q)" "sq_len q - i < 2 ^ 31" "2 \<le> sq_len q - i"
    using b i by linarith+
  ultimately show ?thesis
    using search_NAL_from_pos [of _ _ _ _ 0] by (simp add: search_mpeg_NAL_def split: option.split)
qed

definition frames :: "dstf \<Rightarrow> int \<times> byte list \<times> byte list \<Rightarrow> (int \<times> byte list \<times> dstf) option \<Rightarrow> bool" where
  "frames q spec impl \<longleftrightarrow> (\<exists>q'. impl = Some (fst spec, fst (snd spec), q') \<and> dstf_inv q' \<and>
     dstf_queue q' = snd (snd spec) \<and> sq_maxlen q' = sq_maxlen q)"

lemma h264_frame_cut:
  assumes inv: "dstf_inv q"
  shows "frames q (h264_cut k (dstf_queue q)) (h264_frame k q)"
proof (cases "sq_len q < 8")
  case True
  then show ?thesis
    using inv length_dstf_queue [OF inv] by (simp add: frames_def h264_cut_def h264_frame_def)
next
  case False
  have "size_sub (sq_len q) 4 = sq_len q - 4"
    using False dstf_inv_bounds [OF inv] by (simp add: size_sub_ge)
  with search_queue [OF inv, of 4] False have search:
    "search_mpeg_NAL (sq q) (sq_offs q + 4) (size_sub (sq_len q) 4) =
       Some (case nal_pos (drop 4 (dstf_queue q)) of None \<Rightarrow> -1 | Some j \<Rightarrow> int j)" by simp
  show ?thesis
  proof (cases "nal_pos (drop 4 (dstf_queue q))")
    case None
    then show ?thesis
      using False inv length_dstf_queue [OF inv] search by (simp add: frames_def h264_cut_def h264_frame_def)
  next
    case (Some j)
    have j: "j + 4 \<le> sq_len q" using nal_pos_bound [OF Some] False length_dstf_queue [OF inv] by simp
    have "rd_slice (sq q) (int (sq_offs q)) (j + 4) = Some (take (j + 4) (dstf_queue q))"
      using dstf_read [OF inv, of 0 "j + 4"] j by simp
    then show ?thesis
      using False inv length_dstf_queue [OF inv] search Some dstf_advance_ok [OF inv j]
      by (simp add: frames_def h264_cut_def h264_frame_def Let_def)
  qed
qed

lemma h264_process_spec:
  assumes inv: "dstf_inv q" and room: "length src \<le> dstf_room q"
  shows "frames q (the (h264_spec maxlen k (dstf_queue q @ src)))
    (dstf_process_raw_h264_stream_to_frames q src (length src) k)"
proof -
  from dstf_load_ok [OF inv room] obtain q1 where q1:
    "dstf_load q src (length src) = Some (Inr q1)" "dstf_inv q1" "dstf_queue q1 = dstf_queue q @ src"
    "sq_maxlen q1 = sq_maxlen q" by blast
  note len = length_dstf_queue [OF q1(2)]
  show ?thesis
  proof (cases "sq_len q1 < 8")
    case True
    then show ?thesis using q1 len
      by (simp add: frames_def h264_spec_def dstf_process_raw_h264_stream_to_frames_def)
  next
    case False
    with search_queue [OF q1(2), of 0] have search: "search_mpeg_NAL (sq q1) (sq_offs q1) (sq_len q1) =
       Some (case nal_pos (dstf_queue q1) of None \<Rightarrow> -1 | Some j \<Rightarrow> int j)" by simp
    show ?thesis
    proof (cases "nal_pos (dstf_queue q1)")
      case None
      have "dstf_inv (q1\<lparr>sq_offs := sq_offs q1 + sq_len q1, sq_len := 0\<rparr>)"
        using q1(2) by (simp add: dstf_inv_def)
      then show ?thesis using q1 len False search None
        by (simp add: frames_def h264_spec_def dstf_process_raw_h264_stream_to_frames_def dstf_queue_def)
    next
      case (Some i)
      define q2 where "q2 = (if i \<noteq> 0 then dstf_advance i q1 else q1)"
      have i: "i \<le> sq_len q1" using nal_pos_bound [OF Some] len by simp
      have q: "dstf_inv q2" "dstf_queue q2 = drop i (dstf_queue q1)" "sq_maxlen q2 = sq_maxlen q"
        using dstf_advance_ok [OF q1(2) i] q1 by (auto simp: q2_def)
      have "dstf_process_raw_h264_stream_to_frames q src (length src) k = h264_frame k q2"
        using q1(1) False search Some by (simp add: dstf_process_raw_h264_stream_to_frames_def q2_def)
      moreover have "the (h264_spec maxlen k (dstf_queue q @ src)) = h264_cut k (dstf_queue q2)"
        using q1(3) len False Some q(2) by (simp add: h264_spec_def)
      ultimately show ?thesis
        using h264_frame_cut [OF q(1), of k] q(3) by (simp add: frames_def)
    qed
  qed
qed

section \<open>The deframer as a framer\<close>

lemma h264_cut_parts:
  "h264_cut k ys = (c, dst, rest) \<Longrightarrow> ys = dst @ rest \<and> (c > 0 \<longrightarrow> length rest < length ys)"
  by (auto simp: h264_cut_def split: if_splits option.splits)

lemma h264_spec_cut: "h264_spec maxlen k xs = Some (c, dst, rest) \<Longrightarrow> \<exists>g. xs = g @ dst @ rest"
proof -
  assume spec: "h264_spec maxlen k xs = Some (c, dst, rest)"
  show ?thesis
  proof (cases "length xs < 8 \<or> nal_pos xs = None")
    case True
    with spec show ?thesis by (auto simp: h264_spec_def split: if_splits)
  next
    case False
    then obtain i where "nal_pos xs = Some i" by auto
    with spec False have "h264_cut k (drop i xs) = (c, dst, rest)" by (simp add: h264_spec_def)
    then have "xs = take i xs @ dst @ rest" using h264_cut_parts by (metis append_take_drop_id)
    then show ?thesis by blast
  qed
qed

lemma h264_spec_progress:
  "h264_spec maxlen k xs = Some (c, dst, rest) \<Longrightarrow> c > 0 \<Longrightarrow> length rest < length xs"
proof -
  assume spec: "h264_spec maxlen k xs = Some (c, dst, rest)" and c: "c > 0"
  then obtain i where "h264_cut k (drop i xs) = (c, dst, rest)"
    by (auto simp: h264_spec_def split: if_splits option.splits)
  from h264_cut_parts [OF this] c show ?thesis by auto
qed

lemma h264_spec_fits: "h264_spec maxlen k xs = Some (c, dst, rest) \<Longrightarrow> length dst \<le> k"
proof -
  have "h264_cut k ys = (c, dst, rest) \<Longrightarrow> length dst \<le> k" for ys
    by (auto simp: h264_cut_def split: if_splits option.splits)
  then show "h264_spec maxlen k xs = Some (c, dst, rest) \<Longrightarrow> length dst \<le> k"
    by (auto simp: h264_spec_def split: if_splits option.splits)
qed

interpretation h264: framer dstf_process_raw_h264_stream_to_frames h264_spec
proof unfold_locales
  fix q src k c dst rest
  assume "dstf_inv q" "length src \<le> dstf_room q"
    "h264_spec (sq_maxlen q) k (dstf_queue q @ src) = Some (c, dst, rest)"
  then show "\<exists>q'. dstf_process_raw_h264_stream_to_frames q src (length src) k = Some (c, dst, q') \<and>
      dstf_inv q' \<and> dstf_queue q' = rest \<and> sq_maxlen q' = sq_maxlen q"
    using h264_process_spec [of q src "sq_maxlen q" k] by (simp add: frames_def)
qed (auto simp: dstf_process_raw_h264_stream_to_frames_def dstf_load_def Let_def
      intro: h264_spec_cut h264_spec_progress)

section \<open>Streams of units\<close>

text \<open>A unit: a start code and what follows it up to the next start code.\<close>

definition nal_unit :: "byte list \<Rightarrow> bool" where
  "nal_unit u \<longleftrightarrow> take 3 u = [0, 0, 1] \<and> 4 \<le> length u \<and> nal_pos (drop 4 u @ [0, 0, 1]) = Some (length u - 4)"

definition last_unit :: "byte list \<Rightarrow> bool" where
  "last_unit u \<longleftrightarrow> take 3 u = [0, 0, 1] \<and> 4 \<le> length u \<and> nal_pos (drop 4 u) = None"

lemma nal_pos_append: "nal_pos xs = Some i \<Longrightarrow> nal_pos (xs @ ys) = Some i"
  by (induction xs arbitrary: i rule: nal_pos.induct) (auto split: if_splits)

lemma nal_pos_head: "take 3 xs = [0, 0, 1] \<Longrightarrow> nal_pos xs = Some 0"
  by (cases xs rule: nal_pos.cases) (auto simp: numeral_3_eq_3)

lemma head_split: "take 3 xs = [0, 0, 1] \<Longrightarrow> \<exists>ys. xs = [0, 0, 1] @ ys"
  by (metis append_take_drop_id)

lemma h264_spec_unit:
  assumes "nal_unit u" "take 3 rest = [0, 0, 1]" "4 \<le> length rest" "length u \<le> k"
  shows "h264_spec maxlen k (u @ rest) = Some (1, u, rest)"
proof -
  obtain ys where ys: "rest = [0, 0, 1] @ ys" using head_split assms(2) by blast
  have u: "take 3 u = [0, 0, 1]" "4 \<le> length u" "nal_pos (drop 4 u @ [0, 0, 1]) = Some (length u - 4)"
    using assms(1) by (simp_all add: nal_unit_def)
  have "nal_pos (drop 4 (u @ rest)) = Some (length u - 4)"
    using nal_pos_append [OF u(3), of ys] u(2) ys by simp
  moreover have "nal_pos (u @ rest) = Some 0" by (rule nal_pos_head) (use u in simp)
  moreover have "8 \<le> length (u @ rest)" using u assms(3) by simp
  ultimately show ?thesis using assms(4) u(2) by (simp add: h264_spec_def h264_cut_def)
qed

lemma h264_spec_last: "last_unit t \<Longrightarrow> h264_spec maxlen k t = Some (0, [], t)"
  by (simp add: h264_spec_def h264_cut_def last_unit_def nal_pos_head)

lemma h264_units_drained:
  assumes "\<forall>u \<in> set us. nal_unit u \<and> length u \<le> k" "last_unit t"
  shows "drained h264_spec maxlen k (concat us @ t) 0 us t"
  using assms
proof (induction us)
  case Nil
  then show ?case
    using drained_last [of h264_spec, OF h264_spec_last] by (simp add: frames_of_def)
next
  case (Cons u us)
  have head: "take 3 (concat us @ t) = [0, 0, 1]"
    using Cons.prems by (cases us) (auto simp: nal_unit_def last_unit_def)
  have "4 \<le> length (concat us @ t)" using Cons.prems(2) by (simp add: last_unit_def)
  with head Cons.prems(1) have spec: "h264_spec maxlen k (u @ concat us @ t) = Some (1, u, concat us @ t)"
    by (intro h264_spec_unit) simp_all
  moreover have "u \<noteq> []" using Cons.prems(1) by (auto simp: nal_unit_def)
  ultimately show ?case
    using drained_more [of h264_spec, OF spec _ Cons.IH] Cons.prems by (simp add: frames_of_def)
qed

section \<open>Properties\<close>

text \<open>
  C21: Every call of the raw H.264 deframer on a well-formed queue with room returns, reads only the
  queue, and does what the list specification says: it skips to the first start code, hands out the
  bytes up to the next one if that is there, and keeps the rest.
\<close>
theorem h264_deframer_refines:
  "dstf_inv q \<Longrightarrow> length src \<le> dstf_room q \<Longrightarrow>
   \<exists>c dst rest q'. h264_spec (sq_maxlen q) max_dst_len (dstf_queue q @ src) = Some (c, dst, rest) \<and>
     dstf_process_raw_h264_stream_to_frames q src (length src) max_dst_len = Some (c, dst, q') \<and>
     dstf_inv q' \<and> dstf_queue q' = rest \<and> length dst \<le> max_dst_len"
proof -
  assume "dstf_inv q" "length src \<le> dstf_room q"
  from h264_process_spec [OF this, of "sq_maxlen q" max_dst_len]
  have f: "frames q (the (h264_spec (sq_maxlen q) max_dst_len (dstf_queue q @ src)))
    (dstf_process_raw_h264_stream_to_frames q src (length src) max_dst_len)" .
  obtain c dst rest where s: "h264_spec (sq_maxlen q) max_dst_len (dstf_queue q @ src) = Some (c, dst, rest)"
    by (cases "the (h264_spec (sq_maxlen q) max_dst_len (dstf_queue q @ src))") (auto simp: h264_spec_def)
  from s have "length dst \<le> max_dst_len" by (rule h264_spec_fits)
  with f s show ?thesis by (auto simp: frames_def)
qed

definition sample_h264_queue :: dstf where
  "sample_h264_queue = \<lparr>sq = replicate 50 0, sq_offs = 0, sq_len = 0, sq_maxlen = 50\<rparr>"

lemma sample_h264_queue_ok: "dstf_inv sample_h264_queue" "dstf_queue sample_h264_queue = []"
  "dstf_room sample_h264_queue = 50" "sq_maxlen sample_h264_queue = 50"
  by (simp_all add: sample_h264_queue_def dstf_inv_def dstf_queue_def dstf_room_def)

lemma h264_deframer_refines_witness:
  "\<exists>q'. dstf_process_raw_h264_stream_to_frames sample_h264_queue [9, 0, 0, 1, 5, 6, 0, 0, 1, 7]
      (length [9, 0, 0, 1, 5, 6, 0, 0, 1, 7 :: byte]) 20 = Some (1, [0, 0, 1, 5, 6], q') \<and>
    dstf_queue q' = [0, 0, 1, 7]"
  using h264_deframer_refines [OF sample_h264_queue_ok(1), of "[9, 0, 0, 1, 5, 6, 0, 0, 1, 7]" 20]
  by (auto simp: sample_h264_queue_ok h264_spec_def h264_cut_def)

text \<open>
  C22: A buffer of H.264 units that each start with a start code, of at least four bytes, comes out of
  the deframing loop as exactly these units, in order; the last one, whose end is not known yet,
  stays queued.
\<close>
theorem h264_units_delivered:
  assumes "dstf_inv q" "length src \<le> dstf_room q" "length (dstf_queue q @ src) \<le> fuel"
    and stream: "dstf_queue q @ src = concat us @ t" and units: "\<forall>u \<in> set us. nal_unit u \<and> length u \<le> max_dst_len"
    and tail: "last_unit t"
  shows "\<exists>q'. drain dstf_process_raw_h264_stream_to_frames max_dst_len (\<lambda>u out. Some (False, out @ [u])) fuel
      src (length src) (q, out) = Some (Some 0, q', out @ us) \<and> dstf_queue q' = t"
proof -
  have fold: "fold (\<lambda>u out. out @ [u]) us out = out @ us" by (induction us arbitrary: out) simp_all
  have "drained h264_spec (sq_maxlen q) max_dst_len (dstf_queue q @ src) 0 us t"
    unfolding stream by (rule h264_units_drained [OF units tail])
  from h264.drain_refines [OF this refl assms(1-3),
      where consume = "\<lambda>u out. Some (False, out @ [u])" and step = "\<lambda>u out. out @ [u]" and st = out, OF refl]
  show ?thesis by (auto simp: fold)
qed

lemma h264_units_delivered_witness:
  "\<exists>q'. drain dstf_process_raw_h264_stream_to_frames 20 (\<lambda>u out. Some (False, out @ [u])) 50
      ([0, 0, 1, 5, 6] @ [0, 0, 1, 7]) (length ([0, 0, 1, 5, 6] @ [0, 0, 1, 7 :: byte])) (sample_h264_queue, []) =
    Some (Some 0, q', [[0, 0, 1, 5, 6]]) \<and> dstf_queue q' = [0, 0, 1, 7]"
  using h264_units_delivered [OF sample_h264_queue_ok(1), of "[0, 0, 1, 5, 6] @ [0, 0, 1, 7]" 50
      "[[0, 0, 1, 5, 6]]" "[0, 0, 1, 7]" 20 "[]"]
  by (simp add: sample_h264_queue_ok nal_unit_def last_unit_def)

text \<open>
  C13: The deframing loop on raw H.264 always ends: for every queue and every input, hostile ones
  included, it returns within as many turns as there are bytes, and the units it has delivered lie in
  the data one after the other, without overlap, in front of what stays queued. (The loop on DHAV
  has no such theorem: a crafted frame makes it spin.)
\<close>
theorem h264_loop_terminates:
  assumes "dstf_inv q" "length src \<le> dstf_room q" "length (dstf_queue q @ src) \<le> fuel"
  shows "\<exists>c q' us g. drain dstf_process_raw_h264_stream_to_frames max_dst_len (\<lambda>u out. Some (False, out @ [u])) fuel
      src (length src) (q, out) = Some (Some c, q', out @ us) \<and> c \<le> 0 \<and> dstf_inv q' \<and>
    dstf_queue q @ src = g @ dstf_queue q' \<and> woven us g"
proof -
  have fold: "fold (\<lambda>u out. out @ [u]) us out = out @ us" for us by (induction us arbitrary: out) simp_all
  have total: "h264_spec (sq_maxlen q) max_dst_len zs \<noteq> None" for zs by (simp add: h264_spec_def)
  then obtain c us rest where d: "drained h264_spec (sq_maxlen q) max_dst_len (dstf_queue q @ src) c us rest"
    using h264.drained_exists [of "dstf_queue q @ src" "sq_maxlen q" max_dst_len] by blast
  obtain g where g: "dstf_queue q @ src = g @ rest" "woven us g" using h264.drained_woven [OF d] by blast
  have c: "c \<le> 0" using d by induction simp_all
  from h264.drain_refines [OF d refl assms,
      where consume = "\<lambda>u out. Some (False, out @ [u])" and step = "\<lambda>u out. out @ [u]" and st = out, OF refl]
  show ?thesis using g c by (auto simp: fold)
qed

lemma h264_loop_terminates_witness:
  "\<exists>c q' us. drain dstf_process_raw_h264_stream_to_frames 20 (\<lambda>u out. Some (False, out @ [u])) 50
      [9, 0, 0, 1, 1, 0, 0, 1, 2] (length [9, 0, 0, 1, 1, 0, 0, 1, 2 :: byte]) (sample_h264_queue, []) = Some (Some c, q', us) \<and> c \<le> 0"
  using h264_loop_terminates [OF sample_h264_queue_ok(1), of "[9, 0, 0, 1, 1, 0, 0, 1, 2]" 50 20 "[]"]
  by (auto simp: sample_h264_queue_ok)

text \<open>
  When at least eight queued bytes contain no start code, all of them are dropped, the first
  bytes of a start code cut by the read boundary included; the unit they begin is then not found.
\<close>
lemma h264_drops_split_start_code:
  "dstf_inv q \<Longrightarrow> length src \<le> dstf_room q \<Longrightarrow> 8 \<le> length (dstf_queue q @ src) \<Longrightarrow>
   nal_pos (dstf_queue q @ src) = None \<Longrightarrow>
   \<exists>q'. dstf_process_raw_h264_stream_to_frames q src (length src) max_dst_len = Some (0, [], q') \<and>
     dstf_queue q' = []"
  using h264_process_spec [of q src "sq_maxlen q" max_dst_len] by (auto simp: frames_def h264_spec_def)

lemma h264_drops_split_start_code_witness:
  "\<exists>q'. dstf_process_raw_h264_stream_to_frames sample_h264_queue [9, 9, 9, 9, 9, 9, 0, 0]
      (length [9, 9, 9, 9, 9, 9, 0, 0 :: byte]) 20 = Some (0, [], q') \<and> dstf_queue q' = []"
  by (rule h264_drops_split_start_code) (simp_all add: sample_h264_queue_ok)

end
