(* ===== verification/Dhav2mkv.thy ===== *)
theory Dhav2mkv
  imports Mkv_Output H264_Framing
begin

text \<open>
  The converter \<open>dhav2mkv\<close> (\<open>src/dhav2mkv.c\<close>, with the file layer of \<open>src/filetools.c\<close>): it identifies the
  container, reads the input in blocks of 10000 bytes, deframes them, collects the parameters of
  every frame, corrects its timestamp and writes the frame as Matroska. This is where the deframers,
  the header parser, the timestamp processor and the Matroska writer meet.
\<close>

section \<open>Files\<close>

text \<open>
  An input file is what can still be read from it; an output file is what has been written and how
  much the device still takes. \<open>fwrite\<close> and \<open>fflush\<close> fail when the device is full.
\<close>

definition infile_read :: "nat \<Rightarrow> byte list \<Rightarrow> byte list \<times> byte list" where
  "infile_read buf_len fd = (take buf_len fd, drop buf_len fd)"

record outfile =
  of_written :: "byte list"
  of_room :: nat

definition outfile_write :: "outfile \<Rightarrow> byte list \<Rightarrow> int \<times> outfile" where
  "outfile_write fd data_p =
     (let n = min (length data_p) (of_room fd);
          fd' = fd\<lparr>of_written := of_written fd @ take n data_p, of_room := of_room fd - n\<rparr>
      in (if n < length data_p then -1 else 0, fd'))"

section \<open>The state of the conversion\<close>

datatype tsproc_t = TSPROC_NONE | TSPROC_DO_CORRECT

record dvrcontrol =
  dc_ntsc_exact_60hz :: bool
  dc_tsproc :: tsproc_t

definition STREAM_IN_BUFFER_LEN :: nat where "STREAM_IN_BUFFER_LEN = 2000000"
definition STREAM_IN_FREAD_GRANULARITY :: nat where "STREAM_IN_FREAD_GRANULARITY = 10000"
definition STREAM_OUT_BUFFER_LEN :: nat where "STREAM_OUT_BUFFER_LEN = 3000000"

text \<open>The local variables of \<open>process_dhav_stream\<close> that the inner loop changes.\<close>

record conv =
  cv_parms :: t_mc_parms
  cv_tsc :: t_mc_tsproc
  cv_sbuf :: "byte list"
  cv_sbuf_2 :: "byte list"
  cv_outfile :: outfile
  cv_header_pending :: bool
  cv_dtconv_ret :: int
  cv_outfwrite_ret :: int

section \<open>One frame\<close>

text \<open>
  The body of the inner loop once the deframer gave a frame. The deframer has put it at the start
  of \<open>sbuf\<close>; what it did not overwrite is still there. The result says whether the loop is left
  (\<open>break\<close> on a failed write).
\<close>

definition collect_frame :: "t_mc_format \<Rightarrow> t_mc_parms \<Rightarrow> byte list \<Rightarrow> nat \<Rightarrow> (int \<times> t_mc_parms) option" where
  "collect_frame mc_format_in mcp sbuf sbuf_len =
     (if mc_format_in = MC_FORM_DHAV then dt_collect_dhav_frame_info mcp sbuf sbuf_len
      else dt_collect_raw_h264_frame_info mcp sbuf sbuf_len)"

definition correct_frame ::
    "dvrcontrol \<Rightarrow> t_mc_format \<Rightarrow> t_mc_parms \<Rightarrow> t_mc_tsproc \<Rightarrow> (t_mc_parms \<times> t_mc_tsproc) option" where
  "correct_frame dvrctl mc_format_in mcp tsc =
     (if dc_tsproc dvrctl \<noteq> TSPROC_NONE \<and> mc_format_in = MC_FORM_DHAV
      then do {
        (_, tsc') \<leftarrow> dt_tsproc_process mcp tsc;
        Some (mcp\<lparr>mp_timestamp := v_timestamp tsc'\<rparr>, tsc')
      }
      else Some (mcp, tsc))"

definition convert_into ::
    "byte list \<Rightarrow> dvrcontrol \<Rightarrow> t_mc_format \<Rightarrow> nat \<Rightarrow> byte list \<Rightarrow> conv \<Rightarrow> (byte list \<times> conv) option" where
  "convert_into VERSION dvrctl mc_format_in out_len frame st =
     do {
       let sbuf_len = length frame;
       sbuf \<leftarrow> wr_slice (cv_sbuf st) 0 frame;
       (_, mcp) \<leftarrow> collect_frame mc_format_in (cv_parms st) sbuf sbuf_len;
       (mcp', tsc') \<leftarrow> correct_frame dvrctl mc_format_in mcp (cv_tsc st);
       (dtconv_ret, sbuf_2, sbuf_len_2) \<leftarrow>
         dt_convert_frame_to_mkv VERSION mcp' sbuf sbuf_len (cv_sbuf_2 st) out_len (cv_header_pending st)
           (if mc_format_in = MC_FORM_DHAV then MCODEC_V_MPEG4_ISO_AVC else MCODEC_V_MPEG4_ISO_ASP);
       Some (take sbuf_len_2 sbuf_2,
         st\<lparr>cv_parms := mcp', cv_tsc := tsc', cv_sbuf := sbuf, cv_sbuf_2 := sbuf_2,
            cv_header_pending := (if dtconv_ret = 0 then False else cv_header_pending st), cv_dtconv_ret := dtconv_ret\<rparr>)
     }"

definition write_out :: "byte list \<Rightarrow> conv \<Rightarrow> conv" where
  "write_out outbuf st =
     (let (outfwrite_ret, fd) = outfile_write (cv_outfile st) outbuf
      in st\<lparr>cv_outfile := fd, cv_outfwrite_ret := outfwrite_ret\<rparr>)"

definition convert_frame ::
    "byte list \<Rightarrow> dvrcontrol \<Rightarrow> t_mc_format \<Rightarrow> byte list \<Rightarrow> conv \<Rightarrow> (bool \<times> conv) option" where
  "convert_frame VERSION dvrctl mc_format_in frame st =
     do {
       (outbuf, st1) \<leftarrow> convert_into VERSION dvrctl mc_format_in STREAM_OUT_BUFFER_LEN frame st;
       let st2 = write_out outbuf st1;
       Some (cv_outfwrite_ret st2 \<noteq> 0, st2)
     }"

section \<open>The container is identified\<close>

definition dstf_append :: "byte list \<Rightarrow> dstf \<Rightarrow> dstf option" where
  "dstf_append bs q =
     do {
       m \<leftarrow> wr_slice (sq q) (int (sq_offs q + sq_len q)) bs;
       Some (q\<lparr>sq := m, sq_len := sq_len q + length bs\<rparr>)
     }"

function identify_stream :: "byte list \<Rightarrow> dstf \<Rightarrow> (t_mc_format \<times> dstf \<times> byte list) option" where
  "identify_stream infile q =
     (if size_sub (sq_maxlen q) (sq_len q) \<ge> 2 * STREAM_IN_FREAD_GRANULARITY
      then case infile_read STREAM_IN_FREAD_GRANULARITY infile of
        (sbuf, infile') \<Rightarrow>
          if sbuf = [] then Some (MC_FORM_DVR_UNKNOWN, q, infile')
          else do {
            q' \<leftarrow> dstf_append sbuf q;
            window \<leftarrow> rd_slice (sq q') (int (sq_offs q')) (sq_len q');
            fmt \<leftarrow> identify_mc_format window (sq_len q');
            if fmt \<noteq> MC_FORM_DVR_UNKNOWN then Some (fmt, q', infile') else identify_stream infile' q'
          }
      else Some (MC_FORM_DVR_UNKNOWN, q, infile))"
  by pat_completeness auto
termination identify_stream
  by (relation "measure (\<lambda>(infile, q). length infile)")
     (auto simp: infile_read_def STREAM_IN_FREAD_GRANULARITY_def)

declare identify_stream.simps [simp del]

section \<open>The loop over the input\<close>

text \<open>Why the loop ended, in the order of the tests.\<close>

datatype loop_end = Deframing_Failed int | Conversion_Failed int | No_More_Data | Write_Failed int

text \<open>
  \<open>fuel\<close> bounds the turns of the inner loop (\<open>do ... while (dstf_ret > 0)\<close>); \<open>None\<close> in the result means
  that the inner loop is still running then.
\<close>

definition deframe_call :: "t_mc_format \<Rightarrow> deframer" where
  "deframe_call mc_format_in =
     (if mc_format_in = MC_FORM_DHAV then dstf_process_dhav_stream_to_frames else dstf_process_raw_h264_stream_to_frames)"

function convert_loop ::
    "byte list \<Rightarrow> dvrcontrol \<Rightarrow> t_mc_format \<Rightarrow> nat \<Rightarrow> byte list \<Rightarrow> dstf \<times> conv \<Rightarrow>
     (loop_end option \<times> dstf \<times> conv) option" where
  "convert_loop VERSION dvrctl mc_format_in fuel infile (q, st) =
     (case infile_read STREAM_IN_FREAD_GRANULARITY infile of
        (piece, infile') \<Rightarrow>
          do {
            sbuf \<leftarrow> wr_slice (cv_sbuf st) 0 piece;
            (ended, q', st') \<leftarrow>
              drain (deframe_call mc_format_in) STREAM_IN_BUFFER_LEN (convert_frame VERSION dvrctl mc_format_in) fuel
                piece (length piece) (q, st\<lparr>cv_sbuf := sbuf, cv_dtconv_ret := 0, cv_outfwrite_ret := 0\<rparr>);
            (case ended of
               None \<Rightarrow> Some (None, q', st')
             | Some dstf_ret \<Rightarrow>
                 if dstf_ret < 0 then Some (Some (Deframing_Failed dstf_ret), q', st')
                 else if cv_dtconv_ret st' < 0 then Some (Some (Conversion_Failed (cv_dtconv_ret st')), q', st')
                 else if piece = [] then Some (Some No_More_Data, q', st')
                 else if cv_outfwrite_ret st' \<noteq> 0 then Some (Some (Write_Failed (cv_outfwrite_ret st')), q', st')
                 else convert_loop VERSION dvrctl mc_format_in fuel infile' (q', st'))
          })"
  by pat_completeness auto
termination convert_loop
  by (relation "measure (\<lambda>(V, d, f, k, infile, s). length infile)")
     (auto simp: infile_read_def STREAM_IN_FREAD_GRANULARITY_def)

declare convert_loop.simps [simp del]

text \<open>
  The whole function. \<open>infile\<close> and \<open>outfile\<close> are \<open>None\<close> when the file cannot be opened, \<open>dstf_mem\<close> when
  there is no memory for the queue; \<open>parms0\<close>, \<open>tsc0\<close>, \<open>sbuf0\<close> and \<open>sbuf_20\<close> are what the other
  allocations and the stack hold. The result is the returned code (\<open>None\<close> while the inner loop
  spins), the reason the loop ended and the final state.
\<close>

definition process_dhav_stream ::
    "byte list \<Rightarrow> dvrcontrol \<Rightarrow> nat \<Rightarrow> byte list option \<Rightarrow> outfile option \<Rightarrow> byte list option \<Rightarrow>
     t_mc_parms \<Rightarrow> t_mc_tsproc \<Rightarrow> byte list \<Rightarrow> byte list \<Rightarrow>
     (int option \<times> loop_end option \<times> outfile option) option" where
  "process_dhav_stream VERSION dvrctl fuel infile outfile dstf_mem parms0 tsc0 sbuf0 sbuf_20 =
     (case infile of None \<Rightarrow> Some (Some 4, None, outfile)
      | Some input \<Rightarrow>
     (case outfile of None \<Rightarrow> Some (Some 4, None, None)
      | Some fd \<Rightarrow>
     (case dstf_init dstf_mem of None \<Rightarrow> Some (Some 7, None, outfile)
      | Some dstf \<Rightarrow>
          do {
            let mc_parms = mc_init parms0 MC_FORM_MKV (dc_ntsc_exact_60hz dvrctl);
            let tsc = (if dc_tsproc dvrctl \<noteq> TSPROC_NONE then dt_tsproc_init tsc0 else tsc0);
            (fmt, q, input') \<leftarrow> identify_stream input dstf;
            let mc_format_in = (if fmt = MC_FORM_DVR_UNKNOWN then MC_FORM_DHAV else fmt);
            (ended, _, st) \<leftarrow> convert_loop VERSION dvrctl mc_format_in fuel input'
              (q, \<lparr>cv_parms = mc_parms, cv_tsc = tsc, cv_sbuf = sbuf0, cv_sbuf_2 = sbuf_20, cv_outfile = fd,
                   cv_header_pending = True, cv_dtconv_ret = 0, cv_outfwrite_ret = 0\<rparr>);
            Some (map_option (\<lambda>_. 0) ended, ended, Some (cv_outfile st))
          })))"

section \<open>Identification only loads the queue\<close>

lemma dstf_append_ok:
  assumes "dstf_inv q" "sq_offs q + sq_len q + length bs \<le> sq_maxlen q"
  shows "\<exists>q'. dstf_append bs q = Some q' \<and> dstf_inv q' \<and> dstf_queue q' = dstf_queue q @ bs \<and>
    sq_maxlen q' = sq_maxlen q \<and> sq_offs q' = sq_offs q \<and> sq_len q' = sq_len q + length bs"
proof -
  have l: "length (sq q) = sq_maxlen q" using assms(1) by (simp add: dstf_inv_def)
  then have fits: "sq_offs q + sq_len q + length bs \<le> length (sq q)" using assms(2) by simp
  let ?m = "take (sq_offs q + sq_len q) (sq q) @ bs @ drop (sq_offs q + sq_len q + length bs) (sq q)"
  have "dstf_append bs q = Some (q\<lparr>sq := ?m, sq_len := sq_len q + length bs\<rparr>)"
    unfolding dstf_append_def wr_slice_of_nat [OF fits] by simp
  then show ?thesis
    using assms l take_drop_append_wr [OF refl fits]
    by (simp add: dstf_inv_def dstf_queue_def)
qed

lemma occurs_at_append: "occurs_at s xs i \<Longrightarrow> occurs_at s (xs @ ys) i"
  by (auto simp: occurs_at_def)

lemma occurs_at_set: "occurs_at s xs i \<Longrightarrow> set s \<subseteq> set xs"
  by (metis occurs_at_def set_take_subset set_drop_subset subset_trans)

lemma identify_stream_loads:
  assumes "dstf_inv q" "sq_offs q = 0" "\<nexists>i. occurs_at str_Dahua_ZH (dstf_queue q @ infile) i"
    and "STREAM_IN_FREAD_GRANULARITY \<le> dstf_room q"
  shows "\<exists>fmt q' infile' got. identify_stream infile q = Some (fmt, q', infile') \<and>
    fmt \<in> {MC_FORM_DHAV, MC_FORM_DVR_UNKNOWN} \<and> infile = got @ infile' \<and> dstf_inv q' \<and>
    dstf_queue q' = dstf_queue q @ got \<and> sq_maxlen q' = sq_maxlen q \<and> STREAM_IN_FREAD_GRANULARITY \<le> dstf_room q'"
  using assms
proof (induction infile q rule: identify_stream.induct)
  case (1 infile q)
  define piece where "piece = take STREAM_IN_FREAD_GRANULARITY infile"
  define rest where "rest = drop STREAM_IN_FREAD_GRANULARITY infile"
  have read: "infile_read STREAM_IN_FREAD_GRANULARITY infile = (piece, rest)" "infile = piece @ rest"
    by (simp_all add: infile_read_def piece_def rest_def)
  have room: "size_sub (sq_maxlen q) (sq_len q) = dstf_room q"
    using "1.prems"(1) by (auto simp: dstf_room_def dstf_inv_def intro: size_sub_ge)
  show ?case
  proof (cases "2 * STREAM_IN_FREAD_GRANULARITY \<le> dstf_room q \<and> piece \<noteq> []")
    case False
    then have "identify_stream infile q = Some (MC_FORM_DVR_UNKNOWN, q, infile)"
      using read by (subst identify_stream.simps) (auto simp: room)
    then show ?thesis using "1.prems" by auto
  next
    case True
    have "length piece \<le> STREAM_IN_FREAD_GRANULARITY" by (simp add: piece_def)
    then have fits: "sq_offs q + sq_len q + length piece \<le> sq_maxlen q"
      using True "1.prems"(2) dstf_inv_bounds [OF "1.prems"(1)]
      by (auto simp: dstf_room_def STREAM_IN_FREAD_GRANULARITY_def)
    obtain q' where q': "dstf_append piece q = Some q'" "dstf_inv q'" "dstf_queue q' = dstf_queue q @ piece"
      "sq_maxlen q' = sq_maxlen q" "sq_offs q' = 0" "sq_len q' = sq_len q + length piece"
      using dstf_append_ok [OF "1.prems"(1) fits] "1.prems"(2) by auto
    have window: "rd_slice (sq q') (int (sq_offs q')) (sq_len q') = Some (dstf_queue q')"
      using dstf_read [OF q'(2), of 0 "sq_len q'"] length_dstf_queue [OF q'(2)] by simp
    have len: "length (dstf_queue q') = sq_len q'" by (rule length_dstf_queue [OF q'(2)])
    have none: "\<nexists>i. occurs_at str_Dahua_ZH (dstf_queue q') i"
      using "1.prems"(3) occurs_at_append [of str_Dahua_ZH "dstf_queue q'" _ rest] q'(3) read(2) by auto
    have "length (dstf_queue q') < 2 ^ 64" using dstf_inv_bounds [OF q'(2)] len by simp
    from identify_decides [OF this] none
    have "\<exists>fmt. identify_mc_format (dstf_queue q') (sq_len q') = Some fmt \<and> fmt \<in> {MC_FORM_DHAV, MC_FORM_DVR_UNKNOWN}"
      unfolding len by auto
    then obtain fmt where
      fmt: "identify_mc_format (dstf_queue q') (sq_len q') = Some fmt" "fmt \<in> {MC_FORM_DHAV, MC_FORM_DVR_UNKNOWN}"
      by blast
    have room': "STREAM_IN_FREAD_GRANULARITY \<le> dstf_room q'"
      using True q' \<open>length piece \<le> STREAM_IN_FREAD_GRANULARITY\<close> by (auto simp: dstf_room_def)
    show ?thesis
    proof (cases "fmt = MC_FORM_DVR_UNKNOWN")
      case False
      then have "identify_stream infile q = Some (fmt, q', rest)"
        using True read q'(1) window fmt(1) by (subst identify_stream.simps) (simp add: room)
      then show ?thesis using fmt(2) q' room' read(2) by auto
    next
      case unknown: True
      have step: "identify_stream infile q = identify_stream rest q'"
        using True read q'(1) window fmt(1) unknown by (subst identify_stream.simps) (simp add: room)
      have "\<exists>fmt q'' infile' got. identify_stream rest q' = Some (fmt, q'', infile') \<and>
          fmt \<in> {MC_FORM_DHAV, MC_FORM_DVR_UNKNOWN} \<and> rest = got @ infile' \<and> dstf_inv q'' \<and>
          dstf_queue q'' = dstf_queue q' @ got \<and> sq_maxlen q'' = sq_maxlen q' \<and> STREAM_IN_FREAD_GRANULARITY \<le> dstf_room q''"
        by (rule "1.IH" [OF _ read(1) [symmetric] _ q'(1) window fmt(1)])
           (use True room unknown q' "1.prems"(3) read(2) room' in auto)
      then show ?thesis using step q'(3,4) read(2) by fastforce
    qed
  qed
qed


section \<open>Frames of a recording\<close>

text \<open>A video frame the way a recorder builds it; a key frame (I-frame) carries geometry and rate.\<close>

record media =
  md_key :: bool
  md_hdr :: "byte list"
  md_epoch :: u32
  md_ts :: u16
  md_byte :: byte
  md_sub :: "subfield list"
  md_payload :: "byte list"

definition media_bytes :: "media \<Rightarrow> byte list" where
  "media_bytes m =
     dhav_media ((if md_key m then 0xfd else 0xfc) # md_hdr m) (md_epoch m) (md_ts m) (md_byte m)
       (concat (map sf_bytes (md_sub m))) (md_payload m)"

definition media_geometry :: "media \<Rightarrow> bool" where
  "media_geometry m \<longleftrightarrow>
     (\<exists>a w h b c r. map_of (rev (md_sub m)) 0x80 = Some [a, w, h] \<and> h \<noteq> 0 \<and>
        map_of (rev (md_sub m)) 0x81 = Some [b, c, r] \<and> r \<noteq> 0)"

definition media_ok :: "media \<Rightarrow> bool" where
  "media_ok m \<longleftrightarrow> length (md_hdr m) = 7 \<and> (\<forall>f \<in> set (md_sub m). sf_ok f) \<and>
     length (concat (map sf_bytes (md_sub m))) < 256 \<and> length (md_payload m) \<le> 800000 \<and>
     (md_key m \<longrightarrow> media_geometry m)"

definition media_flag :: "media \<Rightarrow> byte" where
  "media_flag m = (if md_key m then 1 else 0)"

lemma media_bytes_frame:
  assumes "media_ok m"
  shows "dhav_frame (media_bytes m)" "length (media_bytes m) \<le> 900000" "media_bytes m \<noteq> []"
    "length (media_bytes m) = 32 + length (concat (map sf_bytes (md_sub m))) + length (md_payload m)"
proof -
  have a: "length ((if md_key m then 0xfd else 0xfc) # md_hdr m) = 8" "length (concat (map sf_bytes (md_sub m))) < 256"
      "length (md_payload m) < 2 ^ 30"
    using assms by (simp_all add: media_ok_def)
  note r = dhav_media_read [OF a refl, of "md_epoch m" "md_ts m" "md_byte m", folded media_bytes_def]
  show "dhav_frame (media_bytes m)"
    "length (media_bytes m) = 32 + length (concat (map sf_bytes (md_sub m))) + length (md_payload m)"
    using r(1,2) by simp_all
  then show "length (media_bytes m) \<le> 900000" "media_bytes m \<noteq> []"
    using assms by (auto simp: media_ok_def dhav_frame_def)
qed

lemma collect_media:
  assumes ok: "media_ok m" and parms: "md_key m \<or> has_v_parms mcp \<and> dhav_fps mcp \<noteq> 0"
  shows "\<exists>mcp'. dt_collect_dhav_frame_info mcp (media_bytes m @ junk) (length (media_bytes m)) = Some (0, mcp') \<and>
    frame_type mcp' = (if md_key m then FT_VIDEO_I_FRAME else FT_VIDEO_FRAME) \<and> has_v_parms mcp' \<and> dhav_fps mcp' \<noteq> 0 \<and>
    take (body_len mcp') (drop (body_p mcp') (media_bytes m)) = md_payload m \<and> body_len mcp' = length (md_payload m) \<and>
    body_p mcp' + body_len mcp' \<le> length (media_bytes m)"
proof (cases "md_key m")
  case True
  then obtain a w h b c r where geo: "map_of (rev (md_sub m)) 0x80 = Some [a, w, h]" "h \<noteq> 0"
      "map_of (rev (md_sub m)) 0x81 = Some [b, c, r]" "r \<noteq> 0"
    using ok unfolding media_ok_def media_geometry_def by blast
  have "media_bytes m = dhav_media (0xfd # md_hdr m) (md_epoch m) (md_ts m) (md_byte m)
      (concat (map sf_bytes (md_sub m))) (md_payload m)"
    using True by (simp add: media_bytes_def)
  from collect_i_media [OF _ _ _ geo _ this, of mcp junk] ok True geo(4) show ?thesis
    by (auto simp: media_ok_def)
next
  case False
  have "media_bytes m = dhav_media (0xfc # md_hdr m) (md_epoch m) (md_ts m) (md_byte m)
      (concat (map sf_bytes (md_sub m))) (md_payload m)"
    using False by (simp add: media_bytes_def)
  from collect_p_media [OF _ _ _ this, of mcp junk] ok False parms show ?thesis
    by (auto simp: media_ok_def)
qed

lemma correct_frame_ok:
  assumes "has_v_parms mcp" "frame_type mcp \<in> {FT_VIDEO_I_FRAME, FT_VIDEO_FRAME}" "dhav_fps mcp \<noteq> 0"
  shows "\<exists>t tsc'. correct_frame dvrctl fmt mcp tsc = Some (mcp\<lparr>mp_timestamp := t\<rparr>, tsc')"
proof (cases "dc_tsproc dvrctl \<noteq> TSPROC_NONE \<and> fmt = MC_FORM_DHAV")
  case True
  have "\<exists>r tsc'. dt_tsproc_process mcp tsc = Some (r, tsc')"
    using assms by (auto simp: dt_tsproc_process_def ref_period_def)
  then show ?thesis using True by (auto simp: correct_frame_def)
next
  case False
  have "mcp\<lparr>mp_timestamp := mp_timestamp mcp\<rparr> = mcp" by simp
  then show ?thesis unfolding correct_frame_def if_not_P [OF False] by metis
qed

lemma outfile_write_ok:
  "length bs \<le> of_room fd \<Longrightarrow>
   outfile_write fd bs = (0, fd\<lparr>of_written := of_written fd @ bs, of_room := of_room fd - length bs\<rparr>)"
  by (simp add: outfile_write_def Let_def)

section \<open>The conversion of one frame\<close>

text \<open>What the next frame needs: the buffers, and parameters unless it is a key frame.\<close>

definition conv_ready :: "nat \<times> nat \<Rightarrow> media list \<Rightarrow> conv \<Rightarrow> bool" where
  "conv_ready lens ms st \<longleftrightarrow> length (cv_sbuf st) = fst lens \<and> length (cv_sbuf_2 st) = snd lens \<and>
     (\<forall>m \<in> set ms. media_ok m) \<and>
     (has_v_parms (cv_parms st) \<and> dhav_fps (cv_parms st) \<noteq> 0 \<or> (ms \<noteq> [] \<longrightarrow> md_key (hd ms))) \<and>
     (if cv_header_pending st then 420 else 0) + sum_list (map (\<lambda>m. 35 + length (md_payload m)) ms) \<le> of_room (cv_outfile st)"

text \<open>What a piece of the conversion has added to the file: header, clusters, and what they say.\<close>

definition converted :: "media list \<Rightarrow> conv \<Rightarrow> conv \<Rightarrow> bool" where
  "converted ms st st' \<longleftrightarrow>
     (\<exists>head cl ts. of_written (cv_outfile st') = of_written (cv_outfile st) @ head @ cl \<and>
        length head = (if cv_header_pending st \<and> ms \<noteq> [] then 420 else 0) \<and>
        cv_header_pending st' = (cv_header_pending st \<and> ms = []) \<and>
        length cl = sum_list (map (\<lambda>m. 35 + length (md_payload m)) ms) \<and>
        of_room (cv_outfile st) = of_room (cv_outfile st') + length head + length cl \<and> length ts = length ms \<and>
        (\<forall>xs. read_clusters (length ms) (cl @ xs) =
           Some (map (\<lambda>(t, m). (t, media_flag m, md_payload m)) (zip ts ms), xs)))"

lemma convert_into_media:
  assumes "conv_ready (a, b) (m # ms) st" and lens: "900000 \<le> a" "800455 \<le> b" "b < 2 ^ 63"
  shows "\<exists>bs st1. convert_into V dvrctl MC_FORM_DHAV b (media_bytes m) st = Some (bs, st1) \<and>
    conv_ready (a, b) ms (write_out bs st1) \<and> converted [m] st (write_out bs st1) \<and>
    cv_dtconv_ret (write_out bs st1) = 0 \<and> cv_outfwrite_ret (write_out bs st1) = 0"
proof -
  let ?f = "media_bytes m"
  have ok: "media_ok m" "\<forall>m \<in> set ms. media_ok m" using assms by (simp_all add: conv_ready_def)
  note f = media_bytes_frame [OF ok(1)]
  define junk where "junk = drop (length ?f) (cv_sbuf st)"
  have buf: "wr_slice (cv_sbuf st) 0 ?f = Some (?f @ junk)" "length (?f @ junk) = a"
    using assms(1) lens f(2) by (simp_all add: wr_slice_def junk_def conv_ready_def)
  have "md_key m \<or> has_v_parms (cv_parms st) \<and> dhav_fps (cv_parms st) \<noteq> 0"
    using assms by (auto simp: conv_ready_def)
  from collect_media [OF ok(1) this, of junk] obtain mcp where
    mcp: "dt_collect_dhav_frame_info (cv_parms st) (?f @ junk) (length ?f) = Some (0, mcp)"
      "frame_type mcp = (if md_key m then FT_VIDEO_I_FRAME else FT_VIDEO_FRAME)" "has_v_parms mcp" "dhav_fps mcp \<noteq> 0"
      "take (body_len mcp) (drop (body_p mcp) ?f) = md_payload m" "body_len mcp = length (md_payload m)"
      "body_p mcp + body_len mcp \<le> length ?f" by blast
  have video: "frame_type mcp \<in> {FT_VIDEO_I_FRAME, FT_VIDEO_FRAME}" using mcp(2) by simp
  obtain t tsc where corr: "correct_frame dvrctl MC_FORM_DHAV mcp (cv_tsc st) = Some (mcp\<lparr>mp_timestamp := t\<rparr>, tsc)"
    using correct_frame_ok [OF mcp(3) video mcp(4)] by blast
  let ?p = "mcp\<lparr>mp_timestamp := t\<rparr>"
  let ?pend = "cv_header_pending st"
  have pay: "length (md_payload m) \<le> 800000" using ok(1) by (simp add: media_ok_def)
  obtain d n where conv: "dt_convert_frame_to_mkv V ?p (?f @ junk) (length ?f) (cv_sbuf_2 st) b ?pend
      MCODEC_V_MPEG4_ISO_AVC = Some (0, d, n)" "length d = b"
    using convert_fits [of "length ?f" ?p "?f @ junk" b "cv_sbuf_2 st" V ?pend MCODEC_V_MPEG4_ISO_AVC]
      assms(1) lens f(3) video mcp(3,6,7) pay by (auto simp: conv_ready_def)
  obtain d1 where w: "(if ?pend then store_all (mkv_head_stores V ?p MCODEC_V_MPEG4_ISO_AVC) (cv_sbuf_2 st) = Some d1 else d1 = cv_sbuf_2 st)"
      "n = (if ?pend then 420 else 0) + 35 + body_len ?p"
      "body_p ?p + body_len ?p \<le> length (?f @ junk)" "take n d = take (if ?pend then 420 else 0) d1 @ mkv_cluster ?p (?f @ junk)"
    using convert_writes [OF conv(1)] mcp(6) pay by auto
  define head where "head = take (if ?pend then 420 else 0) d1"
  define cl where "cl = mkv_cluster ?p (?f @ junk)"
  have d1: "length d1 = b"
    using w(1) assms store_all_length [of _ "cv_sbuf_2 st" d1] by (auto simp: conv_ready_def split: if_splits)
  then have head: "length head = (if ?pend then 420 else 0)" using lens(2) by (simp add: head_def)
  have body: "take (body_len mcp) (drop (body_p mcp) (?f @ junk)) = md_payload m"
    using mcp(5,7) by simp
  have cl: "length cl = 35 + length (md_payload m)"
    using body mcp(6) by (simp add: cl_def mkv_cluster_def)
  have rd: "read_clusters 1 (cl @ xs) = Some ([(unat t div 1000, media_flag m, md_payload m)], xs)" for xs
    using read_mkv_cluster [OF w(3), of xs] mcp(2,6) pay body by (simp add: cl_def media_flag_def)
  have out: "take n d = head @ cl" using w(4) by (simp add: head_def cl_def)
  have fits: "length (head @ cl) \<le> of_room (cv_outfile st)"
    using assms head cl by (auto simp: conv_ready_def)
  define st1 where "st1 = st\<lparr>cv_parms := ?p, cv_tsc := tsc, cv_sbuf := ?f @ junk, cv_sbuf_2 := d,
     cv_header_pending := False, cv_dtconv_ret := 0\<rparr>"
  define st' where "st' = st1\<lparr>cv_outfile := (cv_outfile st)\<lparr>of_written := of_written (cv_outfile st) @ head @ cl,
       of_room := of_room (cv_outfile st) - length (head @ cl)\<rparr>, cv_outfwrite_ret := 0\<rparr>"
  have step: "convert_into V dvrctl MC_FORM_DHAV b ?f st = Some (head @ cl, st1)"
    unfolding convert_into_def Let_def buf(1) collect_frame_def if_P [OF refl]
    by (simp add: mcp(1) corr conv(1) out st1_def)
  have st': "write_out (head @ cl) st1 = st'"
    using outfile_write_ok [OF fits] by (simp add: write_out_def st'_def st1_def)
  have "converted [m] st st'"
    unfolding converted_def
    by (intro exI [of _ head] exI [of _ cl] exI [of _ "[unat t div 1000]"])
       (use head cl rd fits in \<open>simp add: st'_def st1_def\<close>)
  moreover have "conv_ready (a, b) ms st'"
    using assms(1) buf(2) conv(2) mcp(3,4) ok(2) head cl by (auto simp: conv_ready_def st'_def st1_def)
  ultimately show ?thesis
    using step by (intro exI [of _ "head @ cl"] exI [of _ st1]) (simp add: st', simp add: st'_def st1_def)
qed

abbreviation d2m_lens :: "nat \<times> nat" where
  "d2m_lens \<equiv> (STREAM_IN_BUFFER_LEN, STREAM_OUT_BUFFER_LEN)"

lemma convert_media:
  assumes "conv_ready d2m_lens (m # ms) st"
  shows "\<exists>st'. convert_frame V dvrctl MC_FORM_DHAV (media_bytes m) st = Some (False, st') \<and> conv_ready d2m_lens ms st' \<and>
    converted [m] st st' \<and> cv_dtconv_ret st' = 0 \<and> cv_outfwrite_ret st' = 0"
  using convert_into_media [OF assms, of V dvrctl]
  by (fastforce simp: convert_frame_def STREAM_IN_BUFFER_LEN_def STREAM_OUT_BUFFER_LEN_def)


section \<open>Whole recordings\<close>

lemma read_clusters_append:
  "read_clusters m bs = Some (cs, r) \<Longrightarrow> read_clusters n r = Some (ds, r') \<Longrightarrow>
   read_clusters (m + n) bs = Some (cs @ ds, r')"
  by (induction m arbitrary: bs cs) (auto simp: bind_Some_iff)

lemma converted_nothing:
  "cv_outfile st' = cv_outfile st \<Longrightarrow> cv_header_pending st' = cv_header_pending st \<Longrightarrow> converted [] st st'"
  by (simp add: converted_def)

lemma converted_append:
  assumes "converted ms st st1" "converted ms' st1 st2" shows "converted (ms @ ms') st st2"
proof -
  obtain head cl ts where 1: "of_written (cv_outfile st1) = of_written (cv_outfile st) @ head @ cl"
      "length head = (if cv_header_pending st \<and> ms \<noteq> [] then 420 else 0)"
      "cv_header_pending st1 = (cv_header_pending st \<and> ms = [])"
      "length cl = sum_list (map (\<lambda>m. 35 + length (md_payload m)) ms)"
      "of_room (cv_outfile st) = of_room (cv_outfile st1) + length head + length cl" "length ts = length ms"
      "\<forall>xs. read_clusters (length ms) (cl @ xs) = Some (map (\<lambda>(t, m). (t, media_flag m, md_payload m)) (zip ts ms), xs)"
    using assms(1) unfolding converted_def by blast
  obtain head' cl' ts' where 2: "of_written (cv_outfile st2) = of_written (cv_outfile st1) @ head' @ cl'"
      "length head' = (if cv_header_pending st1 \<and> ms' \<noteq> [] then 420 else 0)"
      "cv_header_pending st2 = (cv_header_pending st1 \<and> ms' = [])"
      "length cl' = sum_list (map (\<lambda>m. 35 + length (md_payload m)) ms')"
      "of_room (cv_outfile st1) = of_room (cv_outfile st2) + length head' + length cl'" "length ts' = length ms'"
      "\<forall>xs. read_clusters (length ms') (cl' @ xs) = Some (map (\<lambda>(t, m). (t, media_flag m, md_payload m)) (zip ts' ms'), xs)"
    using assms(2) unfolding converted_def by blast
  have e: "cl @ head' = head' @ cl"
    using 1(3,4) 2(2) by (cases "ms = []") auto
  have rd: "read_clusters (length (ms @ ms')) ((cl @ cl') @ xs) =
      Some (map (\<lambda>(t, m). (t, media_flag m, md_payload m)) (zip (ts @ ts') (ms @ ms')), xs)" for xs
    using read_clusters_append [OF 1(7) [rule_format, of "cl' @ xs"] 2(7) [rule_format, of xs]] 1(6) by simp
  have written: "of_written (cv_outfile st2) = of_written (cv_outfile st) @ (head @ head') @ (cl @ cl')"
    using 1(1) 2(1) e by (metis append.assoc)
  have len: "length (head @ head') = (if cv_header_pending st \<and> ms @ ms' \<noteq> [] then 420 else 0)"
    using 1(2,3) 2(2) by (cases "ms = []") auto
  show ?thesis
    unfolding converted_def
    by (intro exI [of _ "head @ head'"] exI [of _ "cl @ cl'"] exI [of _ "ts @ ts'"] conjI written len allI rd)
       (use 1(3-6) 2(3-6) in auto)
qed

lemma consume_media:
  assumes "conv_ready d2m_lens (ms @ ms') st"
  shows "\<exists>st'. consume_all (convert_frame V dvrctl MC_FORM_DHAV) (map media_bytes ms) st = Some st' \<and> conv_ready d2m_lens ms' st' \<and>
    converted ms st st' \<and> (cv_dtconv_ret st = 0 \<and> cv_outfwrite_ret st = 0 \<longrightarrow> cv_dtconv_ret st' = 0 \<and> cv_outfwrite_ret st' = 0)"
  using assms
proof (induction ms arbitrary: st)
  case Nil
  then show ?case by (auto intro: converted_nothing)
next
  case (Cons m ms)
  obtain st1 where st1: "convert_frame V dvrctl MC_FORM_DHAV (media_bytes m) st = Some (False, st1)" "conv_ready d2m_lens (ms @ ms') st1"
      "converted [m] st st1" "cv_dtconv_ret st1 = 0 \<and> cv_outfwrite_ret st1 = 0"
    using convert_media [of m "ms @ ms'" st] Cons.prems by auto
  obtain st' where st': "consume_all (convert_frame V dvrctl MC_FORM_DHAV) (map media_bytes ms) st1 = Some st'" "conv_ready d2m_lens ms' st'"
      "converted ms st1 st'" "cv_dtconv_ret st' = 0 \<and> cv_outfwrite_ret st' = 0"
    using Cons.IH [OF st1(2)] st1(4) by auto
  then show ?case
    using st1(1) converted_append [OF st1(3) st'(3)] by (auto simp: consume_all_Cons)
qed

lemma convert_loop_ok:
  assumes "dstf_inv q" "sq_maxlen q = 1000000" "1000000 \<le> fuel"
    and "dhav_deframe 1000000 (dstf_queue q @ infile) = Some (map media_bytes ms, rest)"
    and "length (take STREAM_IN_FREAD_GRANULARITY infile) \<le> dstf_room q"
    and "\<forall>zs ys gs r. infile = zs @ ys \<longrightarrow> dhav_deframe 1000000 (dstf_queue q @ zs) = Some (gs, r) \<longrightarrow> length r \<le> 900000"
    and "conv_ready d2m_lens ms st"
  shows "\<exists>q' st'. convert_loop V dvrctl MC_FORM_DHAV fuel infile (q, st) = Some (Some No_More_Data, q', st') \<and> converted ms st st'"
  using assms(1,2,4-7)
proof (induction infile arbitrary: q st ms rule: measure_induct_rule [where f = length])
  case (less infile)
  define piece where "piece = take STREAM_IN_FREAD_GRANULARITY infile"
  define more where "more = drop STREAM_IN_FREAD_GRANULARITY infile"
  have read: "infile_read STREAM_IN_FREAD_GRANULARITY infile = (piece, more)" "infile = piece @ more"
    by (simp_all add: infile_read_def piece_def more_def)
  have p: "length piece \<le> 10000" by (simp add: piece_def STREAM_IN_FREAD_GRANULARITY_def)
  have "do { (gs, r) \<leftarrow> dhav_deframe 1000000 (dstf_queue q @ piece);
      map_option (\<lambda>(hs, r'). (gs @ hs, r')) (dhav_deframe 1000000 (r @ more)) } = Some (map media_bytes ms, rest)"
    using less.prems(3) dhav_deframe_append [of 1000000 "dstf_queue q @ piece" more] read(2) by simp
  then obtain gs r hs where first: "dhav_deframe 1000000 (dstf_queue q @ piece) = Some (gs, r)"
    and second: "dhav_deframe 1000000 (r @ more) = Some (hs, rest)" "map media_bytes ms = gs @ hs"
    by (auto simp: bind_Some_iff)
  obtain ms1 ms2 where ms: "ms = ms1 @ ms2" "gs = map media_bytes ms1" "hs = map media_bytes ms2"
    using second(2) by (auto simp: map_eq_append_conv)
  obtain sbuf where sbuf: "wr_slice (cv_sbuf st) 0 piece = Some sbuf" "length sbuf = STREAM_IN_BUFFER_LEN"
    using wr_slice_fits [of 0 piece "cv_sbuf st"] p less.prems(6) by (auto simp: conv_ready_def STREAM_IN_BUFFER_LEN_def)
  define st1 where "st1 = st\<lparr>cv_sbuf := sbuf, cv_dtconv_ret := 0, cv_outfwrite_ret := 0\<rparr>"
  have ready: "conv_ready d2m_lens (ms1 @ ms2) st1"
    using less.prems(6) sbuf(2) ms(1) by (auto simp: conv_ready_def st1_def)
  obtain st2 where st2: "consume_all (convert_frame V dvrctl MC_FORM_DHAV) gs st1 = Some st2" "conv_ready d2m_lens ms2 st2"
      "converted ms1 st1 st2" "cv_dtconv_ret st2 = 0" "cv_outfwrite_ret st2 = 0"
    using consume_media [OF ready] ms(2) by (auto simp: st1_def)
  have room: "length piece \<le> dstf_room q" using less.prems(4) by (simp add: piece_def)
  then have fuel: "length (dstf_queue q @ piece) \<le> fuel"
    using less.prems(1,2) assms(3) length_dstf_queue [of q] dstf_inv_bounds [of q] by (auto simp: dstf_room_def)
  have k: "(1000000 :: nat) \<le> STREAM_IN_BUFFER_LEN" by (simp add: STREAM_IN_BUFFER_LEN_def)
  from dhav.drain_delivers [OF dhav_deframe_drained [OF first k] less.prems(2,1) room fuel st2(1)]
  obtain q' where q': "drain dstf_process_dhav_stream_to_frames STREAM_IN_BUFFER_LEN (convert_frame V dvrctl MC_FORM_DHAV) fuel
      piece (length piece) (q, st1) = Some (Some 0, q', st2)" "dstf_inv q'" "dstf_queue q' = r" "sq_maxlen q' = 1000000"
    by blast
  have "converted [] st st1" by (rule converted_nothing) (simp_all add: st1_def)
  from converted_append [OF this st2(3)] have part: "converted ms1 st st2" by simp
  have settled: "dhav_deframe 1000000 r = Some ([], r)" by (rule dhav_deframe_settled [OF first])
  show ?case
  proof (cases "piece = []")
    case True
    then have "infile = []" using p by (auto simp: piece_def STREAM_IN_FREAD_GRANULARITY_def)
    then have "more = []" by (simp add: more_def)
    then have "ms2 = []" using second(1) settled ms(3) by simp
    moreover have "convert_loop V dvrctl MC_FORM_DHAV fuel infile (q, st) = Some (Some No_More_Data, q', st2)"
      using sbuf(1) q'(1) True st2(4,5) read(1)
      by (subst convert_loop.simps) (simp add: deframe_call_def st1_def)
    ultimately show ?thesis using part ms(1) by simp
  next
    case False
    have step: "convert_loop V dvrctl MC_FORM_DHAV fuel infile (q, st) = convert_loop V dvrctl MC_FORM_DHAV fuel more (q', st2)"
      using sbuf(1) q'(1) False st2(4,5) read(1)
      by (subst convert_loop.simps) (simp add: deframe_call_def st1_def)
    have small: "length r \<le> 900000" using less.prems(5) read(2) first by blast
    have later: "length r' \<le> 900000" if "more = zs @ ys" "dhav_deframe 1000000 (dstf_queue q' @ zs) = Some (gs', r')" for zs ys gs' r'
      using less.prems(5) [rule_format, of "piece @ zs" ys "gs @ gs'" r'] read(2) that first q'(3)
        dhav_deframe_append [of 1000000 "dstf_queue q @ piece" zs] by simp
    have "\<exists>q'' st'. convert_loop V dvrctl MC_FORM_DHAV fuel more (q', st2) = Some (Some No_More_Data, q'', st') \<and> converted ms2 st2 st'"
    proof (rule less.IH)
      show "length more < length infile" using False read(2) by (cases piece) auto
      show "length (take STREAM_IN_FREAD_GRANULARITY more) \<le> dstf_room q'"
        using small q' length_dstf_queue [OF q'(2)] by (auto simp: dstf_room_def STREAM_IN_FREAD_GRANULARITY_def)
    qed (use q' second(1) ms(3) later st2(2) in auto)
    then show ?thesis using step converted_append [OF part] ms(1) by fastforce
  qed
qed

text \<open>What the recordings of one or more sessions make of the deframer's queue.\<close>

lemma torn_media:
  assumes "torn L xs (map media_bytes ms) p" "L \<le> 1000000"
  shows "dhav_deframe 1000000 xs = Some (map media_bytes ms, p)" "m \<in> set ms \<Longrightarrow> length (media_bytes m) \<le> L"
    "xs = zs @ ys \<Longrightarrow> dhav_deframe 1000000 zs = Some (gs, r) \<Longrightarrow> length r \<le> L"
  using torn_deframed [OF assms] torn_frames [OF assms(1)] settlesD [of L 1000000 zs ys gs r] by auto

section \<open>Properties\<close>

lemma file_converted:
  assumes ms: "ms \<noteq> []" "md_key (hd ms)" "\<forall>m \<in> set ms. media_ok m"
    and input: "torn 900000 input (map media_bytes ms) p" "\<nexists>i. occurs_at str_Dahua_ZH input i"
    and mem: "length dstf_mem = 1000000" "length sbuf0 = 2000000" "length sbuf_20 = 3000000" "1000000 \<le> fuel"
    and room: "420 + sum_list (map (\<lambda>m. 35 + length (md_payload m)) ms) \<le> of_room fd"
  shows "\<exists>fd' head cl ts.
    process_dhav_stream V dvrctl fuel (Some input) (Some fd) (Some dstf_mem) parms0 tsc0 sbuf0 sbuf_20 =
      Some (Some 0, Some No_More_Data, Some fd') \<and>
    of_written fd' = of_written fd @ head @ cl \<and> length head = 420 \<and> length ts = length ms \<and>
    read_clusters (length ms) cl = Some (map (\<lambda>(t, m). (t, media_flag m, md_payload m)) (zip ts ms), [])"
proof -
  obtain q0 where q0: "dstf_init (Some dstf_mem) = Some q0" "dstf_inv q0" "dstf_queue q0 = []" "sq_offs q0 = 0"
      "sq_maxlen q0 = 1000000" "dstf_room q0 = 1000000"
    using mem(1) by (auto simp: dstf_init_def dstf_inv_def dstf_queue_def dstf_room_def T_MC_PARMS_DHAV_STF_def)
  obtain fmt q input' got where ident: "identify_stream input q0 = Some (fmt, q, input')"
      "fmt \<in> {MC_FORM_DHAV, MC_FORM_DVR_UNKNOWN}" "input = got @ input'" "dstf_inv q" "dstf_queue q = got"
      "sq_maxlen q = 1000000" "STREAM_IN_FREAD_GRANULARITY \<le> dstf_room q"
    using identify_stream_loads [OF q0(2,4), of input] input(2) q0
    by (auto simp: STREAM_IN_FREAD_GRANULARITY_def)
  have fmt: "(if fmt = MC_FORM_DVR_UNKNOWN then MC_FORM_DHAV else fmt) = MC_FORM_DHAV" using ident(2) by auto
  define st where "st = \<lparr>cv_parms = mc_init parms0 MC_FORM_MKV (dc_ntsc_exact_60hz dvrctl),
     cv_tsc = (if dc_tsproc dvrctl \<noteq> TSPROC_NONE then dt_tsproc_init tsc0 else tsc0), cv_sbuf = sbuf0, cv_sbuf_2 = sbuf_20,
     cv_outfile = fd, cv_header_pending = True, cv_dtconv_ret = 0, cv_outfwrite_ret = 0\<rparr>"
  have ready: "conv_ready d2m_lens ms st"
    using ms mem room by (simp add: conv_ready_def st_def STREAM_IN_BUFFER_LEN_def STREAM_OUT_BUFFER_LEN_def)
  have all: "dhav_deframe 1000000 (got @ input') = Some (map media_bytes ms, p)"
    using torn_media(1) [OF input(1)] ident(3) by simp
  have first: "length (take STREAM_IN_FREAD_GRANULARITY input') \<le> dstf_room q" using ident(7) by simp
  have parts: "\<forall>zs ys gs r. input' = zs @ ys \<longrightarrow> dhav_deframe 1000000 (dstf_queue q @ zs) = Some (gs, r) \<longrightarrow> length r \<le> 900000"
  proof (intro allI impI)
    fix zs ys gs r assume "input' = zs @ ys" and d: "dhav_deframe 1000000 (dstf_queue q @ zs) = Some (gs, r)"
    then have "input = (dstf_queue q @ zs) @ ys" using ident(3,5) by simp
    from torn_media(3) [OF input(1) _ this d] show "length r \<le> 900000" by simp
  qed
  obtain q' st' where loop: "convert_loop V dvrctl MC_FORM_DHAV fuel input' (q, st) = Some (Some No_More_Data, q', st')" "converted ms st st'"
    using convert_loop_ok [OF ident(4,6) mem(4) _ first parts ready] all ident(5) by blast
  have "process_dhav_stream V dvrctl fuel (Some input) (Some fd) (Some dstf_mem) parms0 tsc0 sbuf0 sbuf_20 =
      Some (Some 0, Some No_More_Data, Some (cv_outfile st'))"
    using loop(1) by (simp add: process_dhav_stream_def q0(1) ident(1) fmt Let_def st_def)
  moreover have "\<exists>head cl ts. of_written (cv_outfile st') = of_written fd @ head @ cl \<and> length head = 420 \<and> length ts = length ms \<and>
      read_clusters (length ms) cl = Some (map (\<lambda>(t, m). (t, media_flag m, md_payload m)) (zip ts ms), [])"
  proof -
    obtain head cl ts where c: "of_written (cv_outfile st') = of_written (cv_outfile st) @ head @ cl"
        "length head = (if cv_header_pending st \<and> ms \<noteq> [] then 420 else 0)" "length ts = length ms"
        "\<forall>xs. read_clusters (length ms) (cl @ xs) = Some (map (\<lambda>(t, m). (t, media_flag m, md_payload m)) (zip ts ms), xs)"
      using loop(2) unfolding converted_def by blast
    then show ?thesis using c(4) [rule_format, of "[]"] ms(1) by (auto simp: st_def)
  qed
  ultimately show ?thesis by blast
qed

text \<open>
  C2: The converter converts: an input file with the recording of a session, or of several of which all
  but the last break off inside a frame (well-formed DHAV video frames, the first one a key frame, no
  frame payload above 800000 bytes), is read to its end with exit code 0, and what is appended to the
  output is one main header of 420 bytes and clusters that parse back to the key-frame flag and the
  exact payload of every complete frame, in order, with or without timestamp correction.
\<close>
theorem dhav2mkv_converts:
  assumes ms: "ms \<noteq> []" "md_key (hd ms)" "\<forall>m \<in> set ms. media_ok m"
    and input: "torn 900000 input (map media_bytes ms) p" "\<nexists>i. occurs_at str_Dahua_ZH input i"
    and mem: "length dstf_mem = 1000000" "length sbuf0 = 2000000" "length sbuf_20 = 3000000" "1000000 \<le> fuel"
    and room: "420 + sum_list (map (\<lambda>m. 35 + length (md_payload m)) ms) \<le> of_room fd"
  shows "\<exists>fd' head cl ts.
    process_dhav_stream V dvrctl fuel (Some input) (Some fd) (Some dstf_mem) parms0 tsc0 sbuf0 sbuf_20 =
      Some (Some 0, Some No_More_Data, Some fd') \<and>
    of_written fd' = of_written fd @ head @ cl \<and> length head = 420 \<and> length ts = length ms \<and>
    read_clusters (length ms) cl = Some (map (\<lambda>(t, m). (t, media_flag m, md_payload m)) (zip ts ms), [])"
  by (rule file_converted [OF assms])

definition sample_media :: "media list" where
  "sample_media = [\<lparr>md_key = True, md_hdr = replicate 7 0, md_epoch = 1, md_ts = 2, md_byte = 0,
       md_sub = [(0x80, [1, 44, 30]), (0x81, [0, 0, 25])], md_payload = [0, 0, 1, 9]\<rparr>,
     \<lparr>md_key = False, md_hdr = replicate 7 0, md_epoch = 1, md_ts = 42, md_byte = 0, md_sub = [], md_payload = [7]\<rparr>]"

lemma sample_media_ok: "\<forall>m \<in> set sample_media. media_ok m"
  by (simp add: sample_media_def media_ok_def media_geometry_def sf_ok_def sf_len_def sf_bytes_def)

lemma sample_media_bytes: "0x5F \<notin> set (concat (map media_bytes sample_media))"
  by (simp add: sample_media_def media_bytes_def dhav_media_def dhav_wrap_def Let_def sf_bytes_def str_DHAV_def str_dhav_def
      BT_NV2LM_U32_def BT_NV2LM_U16_def)

lemma no_underscore_free: "0x5F \<notin> set xs \<Longrightarrow> \<nexists>i. occurs_at str_Dahua_ZH xs i"
  using occurs_at_set [of str_Dahua_ZH xs] by (auto simp: str_Dahua_ZH_def)

text \<open>Two sessions with these frames: the first breaks off in its second frame, the second five bytes into its second.\<close>

abbreviation first_media :: media where "first_media \<equiv> hd sample_media"
abbreviation second_media :: media where "second_media \<equiv> sample_media ! 1"

definition sample_broken_session :: "byte list" where
  "sample_broken_session = media_bytes first_media @ take 20 (media_bytes first_media)"

definition sample_last_session :: "byte list" where
  "sample_last_session = media_bytes second_media @ take 5 (media_bytes first_media)"

lemma sample_media_two: "sample_media = [first_media, second_media]" "length sample_media = 2" "sample_media \<noteq> []" "md_key first_media"
  by (simp_all add: sample_media_def)

lemma first_media_size: "media_ok first_media" "length (media_bytes first_media) = 44" "media_bytes first_media \<noteq> []"
  "length (md_payload first_media) = 4"
  using sample_media_ok sample_media_two media_bytes_frame(3,4) [of first_media]
  by (simp_all add: sample_media_def sf_bytes_def)

lemma second_media_size: "media_ok second_media" "length (media_bytes second_media) = 33"
  using sample_media_ok sample_media_two media_bytes_frame(4) [of second_media] by (simp_all add: sample_media_def)

lemmas media_bytes_defs = media_bytes_def dhav_media_def dhav_wrap_def Let_def sf_bytes_def str_DHAV_def str_dhav_def
  BT_NV2LM_U32_def BT_NV2LM_U16_def

lemma sample_session_broken: "44 \<le> L \<Longrightarrow> broken L (take 20 (media_bytes first_media)) sample_last_session"
proof -
  have "\<not> closes_at 44 (take 20 (media_bytes first_media) @ sample_last_session)"
    by (simp add: sample_last_session_def sample_media_def media_bytes_defs closes_at_def)
  moreover have "0x44 \<notin> set (tl (take 20 (media_bytes first_media)))"
    by (simp add: sample_media_def media_bytes_defs)
  moreover assume "44 \<le> L"
  ultimately show ?thesis unfolding broken_def
    using first_media_size second_media_size media_bytes_frame(1) [of first_media]
    by (intro conjI exI [of _ "media_bytes first_media"] no_other_header) (simp_all add: sample_last_session_def)
qed

lemma sample_sessions:
  assumes "44 \<le> L"
  shows "torn L (sample_broken_session @ sample_last_session) (map media_bytes sample_media) (take 5 (media_bytes first_media))"
    and "\<nexists>i. occurs_at str_Dahua_ZH (sample_broken_session @ sample_last_session) i"
proof -
  have frames: "dhav_frame (media_bytes first_media)" "dhav_frame (media_bytes second_media)"
    using first_media_size(1) second_media_size(1) media_bytes_frame(1) by simp_all
  have "started L (take 5 (media_bytes first_media))"
    using frames(1) first_media_size(2) assms unfolding started_def by (intro exI [of _ "media_bytes first_media"] exI [of _ 5]) simp
  then have "torn L (concat [media_bytes second_media] @ take 5 (media_bytes first_media)) [media_bytes second_media] (take 5 (media_bytes first_media))"
    using frames(2) second_media_size(2) assms by (intro torn_last) simp_all
  then have "torn L (concat [media_bytes first_media] @ take 20 (media_bytes first_media) @ sample_last_session)
      ([media_bytes first_media] @ [media_bytes second_media]) (take 5 (media_bytes first_media))"
    using frames(1) first_media_size(2) second_media_size(2) assms sample_session_broken [OF assms]
    by (intro torn_next) (simp_all add: sample_last_session_def)
  then show "torn L (sample_broken_session @ sample_last_session) (map media_bytes sample_media) (take 5 (media_bytes first_media))"
    by (subst sample_media_two(1)) (simp add: sample_broken_session_def)
  have "0x5F \<notin> set (media_bytes first_media)" "0x5F \<notin> set (media_bytes second_media)"
    using sample_media_bytes by (simp_all add: sample_media_def)
  then have "0x5F \<notin> set (sample_broken_session @ sample_last_session)"
    using in_set_takeD [of "0x5F"] by (auto simp: sample_broken_session_def sample_last_session_def)
  then show "\<nexists>i. occurs_at str_Dahua_ZH (sample_broken_session @ sample_last_session) i"
    by (rule no_underscore_free)
qed

lemma dhav2mkv_converts_witness:
  "\<exists>fd' head cl t1 t2.
    process_dhav_stream [0x31] \<lparr>dc_ntsc_exact_60hz = False, dc_tsproc = TSPROC_DO_CORRECT\<rparr> 1000000
      (Some (sample_broken_session @ sample_last_session)) (Some \<lparr>of_written = [], of_room = 1000\<rparr>) (Some (replicate 1000000 0))
      sample_parms sample_tsproc (replicate 2000000 0) (replicate 3000000 0) = Some (Some 0, Some No_More_Data, Some fd') \<and>
    of_written fd' = head @ cl \<and> length head = 420 \<and>
    read_clusters 2 cl = Some ([(t1, 1, [0, 0, 1, 9]), (t2, 0, [7])], [])"
proof -
  note ok = sample_media_ok
  have L: "44 \<le> (900000 :: nat)" by simp
  have pre: "sample_media \<noteq> []" "md_key (hd sample_media)"
      "420 + sum_list (map (\<lambda>m. 35 + length (md_payload m)) sample_media) \<le> of_room \<lparr>of_written = [], of_room = 1000\<rparr>"
    by (simp_all add: sample_media_def)
  obtain fd' head cl ts where
    r: "process_dhav_stream [0x31] \<lparr>dc_ntsc_exact_60hz = False, dc_tsproc = TSPROC_DO_CORRECT\<rparr> 1000000
      (Some (sample_broken_session @ sample_last_session)) (Some \<lparr>of_written = [], of_room = 1000\<rparr>) (Some (replicate 1000000 0))
      sample_parms sample_tsproc (replicate 2000000 0) (replicate 3000000 0) = Some (Some 0, Some No_More_Data, Some fd')"
    and w: "of_written fd' = [] @ head @ cl" "length head = 420" "length ts = length sample_media"
      "read_clusters (length sample_media) cl = Some (map (\<lambda>(t, m). (t, media_flag m, md_payload m)) (zip ts sample_media), [])"
    using dhav2mkv_converts [OF pre(1,2) ok sample_sessions [OF L] _ _ _ _ pre(3), of "replicate 1000000 0" "replicate 2000000 0"
        "replicate 3000000 0" 1000000 "[0x31]" "\<lparr>dc_ntsc_exact_60hz = False, dc_tsproc = TSPROC_DO_CORRECT\<rparr>"
        sample_parms sample_tsproc] by auto
  have two: "length sample_media = 2" by (simp add: sample_media_def)
  then have "length ts = Suc (Suc 0)" using w(3) by simp
  then obtain t1 t2 where "ts = [t1, t2]" by (auto simp: length_Suc_conv)
  then have "map (\<lambda>(t, m). (t, media_flag m, md_payload m)) (zip ts sample_media) = [(t1, 1, [0, 0, 1, 9]), (t2, 0, [7])]"
    by (simp add: sample_media_def media_flag_def)
  then show ?thesis using r w two by auto
qed

end
