(* ===== verification/Dvr_Session.thy ===== *)
theory Dvr_Session
  imports Hl_Replies Dhav2mkv Unix_IO
begin

text \<open>
  Sessions with the recorder (\<open>open_session\<close>, \<open>close_session\<close> and \<open>stream_media_dvr_to_pipe\<close> of
  \<open>src/dvrcontrol.c\<close>): the process that logs in, asks for the media of a channel and copies what the
  data connection brings into a pipe, keeping the control connection alive.
\<close>

section \<open>Sessions\<close>

text \<open>
  What the functions use of \<open>dvrcontrol_t\<close>, beside the fields the converter shares. Host and port are
  only passed to the network, whose answer (a connection, or none) is an argument.
\<close>

record dvrcontrol_t = dvrcontrol +
  dc_user :: "byte list"
  dc_passwd :: "byte list"
  dc_channel :: int
  dc_sub_channel :: int
  dc_keep_alive_us :: u32
  dc_timeout_us :: u32
  dc_net_protocol_dialect :: u32

text \<open>The requests of the second dialect; their codes are all ignored.\<close>

datatype chat =
    WORKALARM
  | SYSINFO byte byte
  | MEDIACAP byte
  | CONFPARM byte
  | EXTSTRING "byte list"
  | SETALARM byte

definition run_chat ::
    "chat \<Rightarrow> t_hlp_connection \<times> t_devinfo option \<Rightarrow> (t_hlp_connection \<times> t_devinfo option) option" where
  "run_chat ch s =
     (let (c, d) = s
      in case ch of
           WORKALARM \<Rightarrow> Some (snd (hlp_get_work_alarm_status c), d)
         | SYSINFO code bstr \<Rightarrow> (case hlp_get_system_information c d code bstr of None \<Rightarrow> None | Some (_, d', c') \<Rightarrow> Some (c', d'))
         | MEDIACAP code \<Rightarrow> Some (snd (hlp_get_media_capability c code), d)
         | CONFPARM code \<Rightarrow> Some (snd (hlp_get_config_parameter c code), d)
         | EXTSTRING str \<Rightarrow> Some (snd (hlp_send_extension_string c str), d)
         | SETALARM code \<Rightarrow> Some (snd (hlp_set_alarm c code), d))"

fun run_chats ::
    "chat list \<Rightarrow> t_hlp_connection \<times> t_devinfo option \<Rightarrow> (t_hlp_connection \<times> t_devinfo option) option" where
  "run_chats [] s = Some s"
| "run_chats (ch # chs) s = (case run_chat ch s of None \<Rightarrow> None | Some s' \<Rightarrow> run_chats chs s')"

text \<open>The three lines of the extension string and an empty one.\<close>

definition oem_extension :: "byte list" where
  "oem_extension = map (of_nat \<circ> of_char)
     (''TransactionID:1'' @ [CHR 0x0D, CHR 0x0A] @ ''Method:GetParameterNames'' @ [CHR 0x0D, CHR 0x0A] @
      ''ParameterName:Dahua.Device.VideoOut.General'' @ [CHR 0x0D, CHR 0x0A] @ [CHR 0x0D, CHR 0x0A])"

definition oem_chats :: "chat list" where
  "oem_chats =
     [WORKALARM, SYSINFO 1 0, SYSINFO 7 0, SYSINFO 2 0, MEDIACAP 0, MEDIACAP 1, CONFPARM 0x10,
      SYSINFO 0x20 0, SYSINFO 0x04 0xff, EXTSTRING oem_extension, SYSINFO 0x0a 0, SYSINFO 2 0] @
     map SETALARM [0x01, 0x02, 0x03, 0x04, 0x05, 0x06, 0x07, 0x08, 0x09, 0x0a, 0x0b, 0x0c, 0x0d, 0x0e, 0x0f, 0x10,
       0x12, 0x13, 0x14, 0x9c, 0xa1, 0xa2] @
     map (\<lambda>j. SYSINFO (of_nat j) 0) [0 ..< 40] @ [WORKALARM]"

text \<open>\<open>infotype0\<close> is what the uninitialised counter of the sweep holds.\<close>

definition open_session ::
    "byte \<Rightarrow> t_hlp_connection option \<Rightarrow> t_devinfo option \<Rightarrow> dvrcontrol_t \<Rightarrow>
     (int \<times> (t_hlp_connection \<times> t_devinfo option) option) option" where
  "open_session infotype0 conn devinfo dvrctl =
     (case conn of
        None \<Rightarrow> Some (1, None)
      | Some c \<Rightarrow>
          let (i, devinfo1, c1) = hlp_login c devinfo (dc_user dvrctl) (dc_passwd dvrctl)
          in if i \<noteq> 0 then Some (1, Some (c1, devinfo1))
             else if dc_net_protocol_dialect dvrctl = 0 then
               do {
                 (_, devinfo2, c2) \<leftarrow> hlp_get_system_information_multiple infotype0 c1 devinfo1 0 256;
                 Some (0, Some (c2, devinfo2))
               }
             else do { s \<leftarrow> run_chats oem_chats (c1, devinfo1); Some (0, Some s) })"

text \<open>\<open>hlp_logout\<close> always returns 0, so the session is always closed.\<close>

definition close_session :: "t_hlp_connection \<Rightarrow> int \<times> t_hlp_connection" where
  "close_session c = (let (i, c') = hlp_logout c in (if i \<noteq> 0 then 1 else 0, c'))"

section \<open>Live media into the pipe\<close>

definition STREAM_BUFFER_LEN :: nat where "STREAM_BUFFER_LEN = 1000000"

record pipe_state =
  ps_control :: t_hlp_connection
  ps_stream :: t_hlp_connection
  ps_pipe :: outfd

text \<open>
  One turn of the inner loop: the answer of \<open>hlp_check_incoming_data\<close> (a \<open>poll\<close> without waiting) and
  the time since the keep-alive timer was set. \<open>None\<close> goes on, a code leaves the loop.
\<close>

definition collect_step :: "u32 \<Rightarrow> int \<times> u32 \<Rightarrow> pipe_state \<Rightarrow> (int option \<times> pipe_state) option" where
  "collect_step keep_alive_us ev s =
     (let (pending, ka_spent) = ev
      in if \<not> pending > 0 then Some (Some 0, s)
         else
           let (i, sbuf, stream) = hlp_collect_media_data (ps_stream s) True STREAM_BUFFER_LEN;
               s1 = s\<lparr>ps_stream := stream\<rparr>
           in if i \<noteq> 0 then Some (Some 6, s1)
              else
                (case sys_write (case sbuf of None \<Rightarrow> [] | Some bs \<Rightarrow> bs) (ps_pipe s1) of
                   (Inl e, pipe) \<Rightarrow> Some (Some 105, s1\<lparr>ps_pipe := pipe\<rparr>)
                 | (Inr n, pipe) \<Rightarrow>
                     Some (if keep_alive_us \<noteq> 0 \<and> ka_spent > keep_alive_us then Some 0 else None, s1\<lparr>ps_pipe := pipe\<rparr>)))"

text \<open>
  What happens during one turn of the outer loop: the answer of the wait, those of the inner loop
  (when they are used up nothing is pending), the polls of \<open>hlp_discard_incoming_data\<close>, and the two
  timers. The timers are set by the code; their readings are part of the events.
\<close>

record stream_event =
  ev_wait :: int
  ev_checks :: "(int \<times> u32) list"
  ev_polls :: "int list"
  ev_ka_spent :: u32
  ev_to_spent :: u32

definition collect_pending :: "u32 \<Rightarrow> stream_event \<Rightarrow> pipe_state \<Rightarrow> (int \<times> pipe_state) option" where
  "collect_pending keep_alive_us ev s =
     (if ev_wait ev \<noteq> 0 then
        do {
          (r, s1) \<leftarrow> turns (collect_step keep_alive_us) (ev_checks ev) s;
          let loopret = (case r of None \<Rightarrow> 0 | Some code \<Rightarrow> code);
          if loopret \<noteq> 0 then Some (loopret, s1)
          else let (i, control) = hlp_discard_incoming_data (ev_polls ev) (ps_control s1)
               in Some (if i < 0 then 7 else 0, s1\<lparr>ps_control := control\<rparr>)
        }
      else Some (0, s))"

definition stream_turn :: "dvrcontrol_t \<Rightarrow> stream_event \<Rightarrow> pipe_state \<Rightarrow> (int option \<times> pipe_state) option" where
  "stream_turn dvrctl ev s =
     do {
       (loopret, s1) \<leftarrow> collect_pending (dc_keep_alive_us dvrctl) ev s;
       if loopret \<noteq> 0 then Some (Some loopret, s1)
       else
         let (i, control) =
               (if dc_keep_alive_us dvrctl \<noteq> 0 \<and> ev_ka_spent ev > dc_keep_alive_us dvrctl
                then hlp_keep_alive (ps_control s1) else (0, ps_control s1));
             s2 = s1\<lparr>ps_control := control\<rparr>
         in if i \<noteq> 0 then Some (Some 8, s2)
            else if dc_timeout_us dvrctl \<noteq> 0 \<and> ev_to_spent ev > dc_timeout_us dvrctl then Some (Some 9, s2)
            else Some (None, s2)
     }"

text \<open>
  The function. \<open>control\<close> and \<open>stream\<close> are the answers of the network to the two connections. The code
  is \<open>None\<close> while the loop runs; there is no state while one of the connections is missing, and then
  nothing has been written.
\<close>

definition stream_media_dvr_to_pipe ::
    "byte \<Rightarrow> t_hlp_connection option \<Rightarrow> t_hlp_connection option \<Rightarrow> t_devinfo \<Rightarrow> dvrcontrol_t \<Rightarrow>
     stream_event list \<Rightarrow> outfd \<Rightarrow> (int option \<times> pipe_state option) option" where
  "stream_media_dvr_to_pipe infotype0 control stream devinfo0 dvrctl evs pipe =
     do {
       (r, session) \<leftarrow> open_session infotype0 control (Some (di_init devinfo0)) dvrctl;
       (if r \<noteq> 0 then Some (Some 4, None)
        else
          case (session, stream) of
            (Some (conn_control, _), Some conn_stream0) \<Rightarrow>
              let (r, conn_stream) = hlp_connection_relationship conn_control conn_stream0 1 (of_int (dc_channel dvrctl));
                  s0 = \<lparr>ps_control = conn_control, ps_stream = conn_stream, ps_pipe = pipe\<rparr>
              in if r \<noteq> 0 then Some (Some 2, Some s0)
                 else
                   do {
                     (i, sbuf, conn_control, conn_stream) \<leftarrow>
                       hlp_media_data_request conn_control conn_stream (dc_channel dvrctl) (dc_sub_channel dvrctl) True STREAM_BUFFER_LEN;
                     let s1 = s0\<lparr>ps_control := conn_control, ps_stream := conn_stream\<rparr>;
                     if i \<noteq> 0 then Some (Some 3, Some s1)
                     else
                       (case sys_write (case sbuf of None \<Rightarrow> [] | Some bs \<Rightarrow> bs) pipe of
                          (Inl e, pipe) \<Rightarrow> Some (Some 105, Some (s1\<lparr>ps_pipe := pipe\<rparr>))
                        | (Inr n, pipe) \<Rightarrow>
                            do {
                              (loopret, s) \<leftarrow> turns (stream_turn dvrctl) evs (s1\<lparr>ps_pipe := pipe\<rparr>);
                              Some (loopret, Some s)
                            })
                   }
          | _ \<Rightarrow> Some (Some 1, None))
     }"

section \<open>Media messages\<close>

text \<open>A piece of media: the messages in front of it, which are skipped, and the message that carries it.\<close>

type_synonym chunk = "message list \<times> message"

definition chunk_ok :: "chunk \<Rightarrow> bool" where
  "chunk_ok ch \<longleftrightarrow> skipped 0xbc (fst ch) \<and> message_ok (snd ch) \<and> command (snd ch) = 0xbc \<and>
     fst (snd ch) ! 16 = 0 \<and> length (snd (snd ch)) \<le> STREAM_BUFFER_LEN"

definition chunk_bytes :: "chunk \<Rightarrow> byte list" where
  "chunk_bytes ch = concat (map message_bytes (fst ch)) @ message_bytes (snd ch)"

definition chunk_media :: "chunk \<Rightarrow> byte list" where
  "chunk_media ch = snd (snd ch)"

lemma chunk_collected:
  assumes "chunk_ok ch" "rx c = chunk_bytes ch @ rest"
  shows "media_reply codes c True STREAM_BUFFER_LEN = (0, Some (chunk_media ch), c\<lparr>rx := rest\<rparr>)"
proof -
  have "rx c = concat (map message_bytes (fst ch)) @ message_bytes (snd ch) @ rest"
    using assms(2) by (simp add: chunk_bytes_def)
  from media_reply_found [OF _ _ _ this, of codes STREAM_BUFFER_LEN] assms(1) show ?thesis
    by (simp add: chunk_ok_def chunk_media_def)
qed

lemma nothing_collected:
  assumes "rx c = []" shows "\<exists>i d c'. media_reply codes c True n = (i, d, c') \<and> i \<noteq> 0 \<and> rx c' = []"
  using get_header_missing [of "0xbc" "[]" c "[]"] assms by (cases codes) (auto simp: media_reply_def skipped_def LLP_HEADER_SIZE_def)

text \<open>What holds between the turns: the first \<open>k\<close> pieces are in the pipe, the others still to come.\<close>

definition forwarded :: "chunk list \<Rightarrow> byte list \<Rightarrow> nat \<Rightarrow> pipe_state \<Rightarrow> bool" where
  "forwarded cs out k s \<longleftrightarrow> (\<forall>ch \<in> set cs. chunk_ok ch) \<and> k \<le> length cs \<and> wr_plan (ps_pipe s) = [] \<and>
     rx (ps_stream s) = concat (map chunk_bytes (drop k cs)) \<and>
     written (ps_pipe s) = out @ concat (map chunk_media (take k cs))"

lemma collect_step_forwards:
  assumes "forwarded cs out k s"
  shows "\<exists>r s' k'. collect_step ka ev s = Some (r, s') \<and> forwarded cs out k' s' \<and> k \<le> k' \<and>
    (\<forall>c. r = Some c \<longrightarrow> c \<in> {0, 6} \<and> (c = 6 \<longrightarrow> k' = length cs))"
proof (cases "fst ev > 0")
  case False
  then have "collect_step ka ev s = Some (Some 0, s)" by (simp add: collect_step_def split_beta)
  then show ?thesis using assms by auto
next
  case pending: True
  show ?thesis
  proof (cases "k < length cs")
    case True
    then have "rx (ps_stream s) = chunk_bytes (cs ! k) @ concat (map chunk_bytes (drop (Suc k) cs))"
      using assms by (simp add: forwarded_def Cons_nth_drop_Suc [symmetric])
    from chunk_collected [OF _ this] assms True have
      "hlp_collect_media_data (ps_stream s) True STREAM_BUFFER_LEN =
       (0, Some (chunk_media (cs ! k)), (ps_stream s)\<lparr>rx := concat (map chunk_bytes (drop (Suc k) cs))\<rparr>)"
      by (simp add: hlp_collect_media_data_def forwarded_def)
    moreover define s' where "s' = s\<lparr>ps_stream := (ps_stream s)\<lparr>rx := concat (map chunk_bytes (drop (Suc k) cs))\<rparr>,
        ps_pipe := (ps_pipe s)\<lparr>written := written (ps_pipe s) @ chunk_media (cs ! k)\<rparr>\<rparr>"
    ultimately have "\<exists>r. collect_step ka ev s = Some (r, s') \<and> r \<in> {None, Some 0}"
      using pending assms by (simp add: collect_step_def split_beta forwarded_def sys_write_all)
    moreover have "forwarded cs out (Suc k) s'"
      using assms True by (simp add: forwarded_def s'_def take_Suc_conv_app_nth)
    ultimately show ?thesis by fastforce
  next
    case False
    then have k: "k = length cs" "rx (ps_stream s) = []" using assms by (simp_all add: forwarded_def)
    from nothing_collected [OF k(2), of "(12, 13, 11)" STREAM_BUFFER_LEN] obtain i d c' where
      "hlp_collect_media_data (ps_stream s) True STREAM_BUFFER_LEN = (i, d, c')" "i \<noteq> 0" "rx c' = []"
      by (auto simp: hlp_collect_media_data_def)
    then have "collect_step ka ev s = Some (Some 6, s\<lparr>ps_stream := c'\<rparr>)"
      using pending by (simp add: collect_step_def split_beta)
    moreover have "forwarded cs out k (s\<lparr>ps_stream := c'\<rparr>)"
      using assms k \<open>rx c' = []\<close> by (simp add: forwarded_def)
    ultimately show ?thesis using k(1) by auto
  qed
qed

interpretation collect_loop: advancing "collect_step ka" "forwarded cs out" "length cs" "{0, 6}" 6
  by unfold_locales (rule collect_step_forwards)

lemma forwarded_control: "forwarded cs out k s \<Longrightarrow> forwarded cs out k (s\<lparr>ps_control := c\<rparr>)"
  by (simp add: forwarded_def)

lemma collect_pending_forwards:
  assumes "forwarded cs out k s"
  shows "\<exists>r s' k'. collect_pending ka ev s = Some (r, s') \<and> forwarded cs out k' s' \<and> k \<le> k' \<and> r \<in> {0, 6, 7} \<and>
    (r = 6 \<longrightarrow> k' = length cs)"
proof (cases "ev_wait ev = 0")
  case True
  then show ?thesis using assms by (auto simp: collect_pending_def)
next
  case False
  from collect_loop.turns_advance [OF assms, of ka "ev_checks ev"] obtain r s1 j where
    t: "turns (collect_step ka) (ev_checks ev) s = Some (r, s1)" "forwarded cs out j s1" "k \<le> j"
      "\<forall>c. r = Some c \<longrightarrow> c \<in> {0, 6} \<and> (c = 6 \<longrightarrow> j = length cs)" by blast
  obtain i control where "hlp_discard_incoming_data (ev_polls ev) (ps_control s1) = (i, control)" by fastforce
  then show ?thesis
    using False t forwarded_control [OF t(2)] by (auto simp: collect_pending_def split: option.splits)
qed

lemma stream_turn_forwards:
  assumes "forwarded cs out k s"
  shows "\<exists>r s' k'. stream_turn dvrctl ev s = Some (r, s') \<and> forwarded cs out k' s' \<and> k \<le> k' \<and>
    (\<forall>c. r = Some c \<longrightarrow> c \<in> {6, 7, 8, 9} \<and> (c = 6 \<longrightarrow> k' = length cs))"
proof -
  obtain i s1 j where c: "collect_pending (dc_keep_alive_us dvrctl) ev s = Some (i, s1)" "forwarded cs out j s1" "k \<le> j"
      "i \<in> {0, 6, 7}" "i = 6 \<longrightarrow> j = length cs"
    using collect_pending_forwards [OF assms] by blast
  obtain i2 control where ka: "(if dc_keep_alive_us dvrctl \<noteq> 0 \<and> ev_ka_spent ev > dc_keep_alive_us dvrctl
      then hlp_keep_alive (ps_control s1) else (0, ps_control s1)) = (i2, control)" by fastforce
  have "stream_turn dvrctl ev s =
    (if i \<noteq> 0 then Some (Some i, s1)
     else if i2 \<noteq> 0 then Some (Some 8, s1\<lparr>ps_control := control\<rparr>)
     else if dc_timeout_us dvrctl \<noteq> 0 \<and> ev_to_spent ev > dc_timeout_us dvrctl then Some (Some 9, s1\<lparr>ps_control := control\<rparr>)
     else Some (None, s1\<lparr>ps_control := control\<rparr>))"
    using c(1) ka by (simp add: stream_turn_def)
  then show ?thesis using c(2-5) forwarded_control [OF c(2), of control] by auto
qed

interpretation stream_loop: advancing "stream_turn dvrctl" "forwarded cs out" "length cs" "{6, 7, 8, 9}" 6
  by unfold_locales (rule stream_turn_forwards)

section \<open>The request for the media of a channel\<close>

text \<open>How the recorder reads the request: a flag for each of 16 channels, or the text form.\<close>

fun read_dec :: "nat \<Rightarrow> byte list \<Rightarrow> nat \<times> byte list" where
  "read_dec acc [] = (acc, [])"
| "read_dec acc (c # cs) =
     (if 0x30 \<le> c \<and> c \<le> 0x39 then read_dec (10 * acc + (unat c - 48)) cs else (acc, c # cs))"

definition read_channel :: "message \<Rightarrow> int \<times> int" where
  "read_channel m =
     (if fst m ! 26 = 8
      then (case read_dec 0 (drop 12 (snd m)) of
              (ch, cs) \<Rightarrow> (int ch, int (fst (read_dec 0 (drop 9 cs)))))
      else case filter (\<lambda>i. fst m ! (8 + i) = 1) [0 ..< 16] of
             [ch] \<Rightarrow> (int ch, uint (snd m ! ch))
           | _ \<Rightarrow> (-1, -1))"

lemma read_dec_digits: "read_dec acc (dec_digits n @ cs) = read_dec (acc * 10 ^ length (dec_digits n) + n) cs"
proof (induction n arbitrary: acc cs rule: less_induct)
  case (less n)
  have digit: "0x30 \<le> (0x30 + of_nat d :: byte) \<and> (0x30 + of_nat d :: byte) \<le> 0x39 \<and> unat (0x30 + of_nat d :: byte) - 48 = d"
    if "d < 10" for d
  proof -
    have "d \<in> {0, 1, 2, 3, 4, 5, 6, 7, 8, 9}" using that by auto
    then show ?thesis by auto
  qed
  show ?case
  proof (cases "n < 10")
    case True
    then show ?thesis using digit [OF True] by (subst (1 2) dec_digits.simps) (simp add: mult.commute)
  next
    case False
    let ?d = "n mod 10" and ?q = "n div 10"
    have "read_dec acc (dec_digits n @ cs) = read_dec acc (dec_digits ?q @ (0x30 + of_nat ?d) # cs)"
      using False by (subst dec_digits.simps) simp
    also have "\<dots> = read_dec (acc * 10 ^ length (dec_digits ?q) + ?q) ((0x30 + of_nat ?d) # cs)"
      using less.IH [of ?q] False by simp
    also have "\<dots> = read_dec (10 * (acc * 10 ^ length (dec_digits ?q) + ?q) + ?d) cs"
      using digit [of ?d] by simp
    also have "10 * (acc * 10 ^ length (dec_digits ?q) + ?q) + ?d = acc * 10 ^ length (dec_digits n) + n"
      using False by (subst (2) dec_digits.simps) (simp add: algebra_simps)
    finally show ?thesis .
  qed
qed

lemma dec_small: "0 \<le> i \<Longrightarrow> i < 1000 \<Longrightarrow> length (dec i) \<le> 3"
  by (simp add: dec_def dec_digits.simps [of "nat i"] dec_digits.simps [of "nat i div 10"] dec_digits.simps [of "nat i div 100"]
      div_mult2_eq [symmetric])

lemma media_request_short:
  assumes "0 \<le> ch" "ch < 16"
  shows "\<exists>h. media_request ch sub = Some (h, (replicate 16 0)[nat ch := of_int sub]) \<and> extlen h = 16 \<and>
    raw h = (replicate 32 0)[0 := 0x11, 8 + nat ch := 1, 24 := 0]"
proof -
  have w: "wr_slice (replicate 64 0) ch [of_int sub] = Some ((replicate 64 0)[nat ch := of_int sub :: byte])"
    using assms wr_slice_byte(1) [of "replicate 64 0 :: byte list" "nat ch" "of_int sub"] by simp
  have r: "wr_slice (raw (set_raw 0 0x11 llp_init_header)) (8 + ch) [1] = Some ((replicate 32 0)[0 := 0x11, 8 + nat ch := 1])"
    using assms wr_slice_byte(1) [of "raw (set_raw 0 0x11 llp_init_header)" "8 + nat ch" 1]
    by (simp add: set_raw_def llp_init_header_def LLP_HEADER_SIZE_def)
  have t: "take 16 ((replicate 64 0)[nat ch := of_int sub :: byte]) = (replicate 16 0)[nat ch := of_int sub]"
    by (simp add: take_update_swap)
  show ?thesis
    using assms unfolding media_request_def Let_def if_P [OF assms(2)] r w t
    by (simp add: set_raw_def t)
qed

lemma extended_request_shape:
  "extended_request ch sub = [0x43, 0x68, 0x61, 0x6E, 0x6E, 0x65, 0x6C, 0x4E, 0x61, 0x6D, 0x65, 0x3A] @ dec ch @
     [0x0D, 0x0A, 0x53, 0x74, 0x72, 0x65, 0x61, 0x6D, 0x3A] @ dec sub @
     [0x0D, 0x0A, 0x4F, 0x70, 0x65, 0x72, 0x61, 0x74, 0x65, 0x3A, 0x31, 0x0D, 0x0A,
      0x50, 0x72, 0x6F, 0x74, 0x6F, 0x63, 0x6F, 0x6C, 0x3A, 0x74, 0x63, 0x70, 0x0D, 0x0A, 0x0D, 0x0A]"
  by (simp add: extended_request_def)

lemma media_request_long:
  assumes "16 \<le> ch" "ch < 1000" "0 \<le> sub" "sub < 1000"
  shows "\<exists>h. media_request ch sub = Some (h, extended_request ch sub) \<and> length (extended_request ch sub) \<le> 62 \<and>
    extlen h = of_nat (length (extended_request ch sub)) \<and> raw h = (replicate 32 0)[0 := 0x11, 24 := 0, 26 := 8]"
proof -
  have l: "length (extended_request ch sub) \<le> 62"
    using dec_small [of ch] dec_small [of sub] assms by (simp add: extended_request_shape)
  then show ?thesis
    using assms by (simp add: media_request_def Let_def set_raw_def llp_init_header_def LLP_HEADER_SIZE_def)
qed

lemma media_request_made:
  assumes "0 \<le> ch" "ch < 256" "0 \<le> sub" "sub < 256"
  shows "\<exists>h e. media_request ch sub = Some (h, e)"
proof (cases "ch < 16")
  case True
  from media_request_short [OF assms(1) this, of sub] show ?thesis by blast
next
  case False
  then show ?thesis using media_request_long [of ch sub] assms by auto
qed

lemma media_request_sends:
  assumes "0 \<le> ch" "ch < 256" "0 \<le> sub" "sub < 256" "media_request ch sub = Some (h, e)"
  shows "length (raw h) = 32 \<and> extlen h = of_nat (length e) \<and> length e \<le> 62"
proof (cases "ch < 16")
  case True
  then show ?thesis using media_request_short [of ch sub] assms by auto
next
  case False
  then show ?thesis using media_request_long [of ch sub] assms by auto
qed

lemma filter_only: "c < n \<Longrightarrow> filter (\<lambda>i. i = c) [0 ..< n] = [c]"
proof (induction n)
  case (Suc n)
  show ?case
  proof (cases "c = n")
    case True
    then have "filter (\<lambda>i. i = c) [0 ..< n] = []" by (auto simp: filter_empty_conv)
    then show ?thesis using True by simp
  qed (use Suc in simp)
qed simp

text \<open>
  C26: The request for media, whichever of its two forms the channel number selects, is a message from
  which the recorder reads back exactly the channel and the sub-channel, for every channel from 0 to
  255.
\<close>
theorem media_request_reads_back:
  assumes "0 \<le> ch" "ch < 256" "0 \<le> sub" "sub < 256"
  shows "\<exists>h e. media_request ch sub = Some (h, e) \<and> message_ok (sent h e) \<and> command (sent h e) = 0x11 \<and>
    read_channel (sent h e) = (ch, sub)"
proof (cases "ch < 16")
  case True
  then obtain h where h: "media_request ch sub = Some (h, (replicate 16 0)[nat ch := of_int sub])" "extlen h = 16"
      "raw h = (replicate 32 0)[0 := 0x11, 8 + nat ch := 1, 24 := 0]"
    using media_request_short [OF assms(1)] by blast
  let ?m = "sent h ((replicate 16 0)[nat ch := of_int sub])"
  have l: "length (raw h) = 32" using h(3) by simp
  have "message_ok ?m" unfolding sent_def by (rule sent_message [OF l]) (use h(2) in simp_all)
  moreover have "command ?m = 0x11" using sent_nth(2) [of h] l h(3) by simp
  moreover have "filter (\<lambda>i. fst ?m ! (8 + i) = 1) [0 ..< 16] = filter (\<lambda>i. i = nat ch) [0 ..< 16]"
  proof (rule filter_cong [OF refl])
    fix i assume "i \<in> set [0 ..< (16 :: nat)]"
    then have "i < 16" by simp
    then show "(fst ?m ! (8 + i) = 1) = (i = nat ch)"
      using sent_nth(1) [of "8 + i" h] l h(3) True assms(1) by (auto simp: nth_list_update)
  qed
  moreover have "fst ?m ! 26 \<noteq> 8"
    using sent_nth(1) [of 26 h] l h(3) True assms(1) by (auto simp: nth_list_update)
  moreover have "uint (of_int sub :: byte) = sub" using assms(3,4) by (simp add: uint_word_of_int)
  ultimately show ?thesis
    using h(1) True assms(1) filter_only [of "nat ch" 16] by (simp add: read_channel_def sent_def)
next
  case False
  then obtain h where h: "media_request ch sub = Some (h, extended_request ch sub)" "length (extended_request ch sub) \<le> 62"
      "extlen h = of_nat (length (extended_request ch sub))" "raw h = (replicate 32 0)[0 := 0x11, 24 := 0, 26 := 8]"
    using media_request_long [of ch sub] assms by auto
  let ?m = "sent h (extended_request ch sub)"
  have l: "length (raw h) = 32" using h(4) by simp
  have "message_ok ?m" unfolding sent_def by (rule sent_message [OF l]) (use h(2,3) in simp_all)
  moreover have "command ?m = 0x11" "fst ?m ! 26 = 8"
    using sent_nth(2) [of h] sent_nth(1) [of 26 h] l h(4) by simp_all
  moreover have "read_channel ?m = (ch, sub)"
    using False assms \<open>fst ?m ! 26 = 8\<close>
    by (simp add: read_channel_def sent_def extended_request_shape dec_def read_dec_digits)
  ultimately show ?thesis using h(1) by blast
qed

lemma media_request_reads_back_witness:
  "(\<exists>h e. media_request 3 1 = Some (h, e) \<and> read_channel (sent h e) = (3, 1)) \<and>
   (\<exists>h e. media_request 200 0 = Some (h, e) \<and> read_channel (sent h e) = (200, 0))"
  using media_request_reads_back [of 3 1] media_request_reads_back [of 200 0] by auto

section \<open>Opening a session\<close>

lemma login_request_shape:
  "login_request user passwd = (h, up) \<Longrightarrow> length user + length passwd \<le> MAX_USER_PASSWD_LEN \<Longrightarrow>
   length (raw h) = 32 \<and> extlen h = of_nat (length up) \<and> length up \<le> 252"
  by (auto simp: login_request_def Let_def MAX_USER_PASSWD_LEN_def split: if_splits)

lemma arrays_ok_login [simp]: "arrays_ok (login_devinfo h d) = arrays_ok d"
  by (simp add: arrays_ok_def login_devinfo_def)

lemma session_opened:
  assumes "dc_net_protocol_dialect dvrctl = 0" "length (dc_user dvrctl) + length (dc_passwd dvrctl) \<le> 250"
    and "skipped 0xb0 ls" "message_ok l" "command l = 0xb0" "fst l ! 8 = 0"
    and "\<forall>m \<in> set ms. message_ok m \<and> command m \<noteq> LLP_HD_NOP_REPLY \<and> length (snd m) \<le> 1024"
    and "message_ok r" "command r = LLP_HD_NOP_REPLY" "length (snd r) \<le> 1024"
    and "rx c = concat (map message_bytes ls) @ message_bytes l @ concat (map message_bytes ms) @ message_bytes r @ rest"
    and "284 + 32 * 257 \<le> tx_room c" "arrays_ok d"
  shows "\<exists>h up d' c'. login_request (dc_user dvrctl) (dc_passwd dvrctl) = (h, up) \<and>
    told ms (login_devinfo (header_of l) d) = Some d' \<and> arrays_ok d' \<and>
    open_session x (Some c) (Some d) dvrctl = Some (0, Some (c', Some d')) \<and> rx c' = rest \<and>
    tx c' = tx c @ message_bytes (sent h up) @ sweep_requests 0 256 \<and> tx_room c - (284 + 32 * 257) \<le> tx_room c' \<and>
    unique_login_symbol c' = BT_LM2NV_U32 (take 4 (drop 16 (fst l)))"
proof -
  obtain h up where hu: "login_request (dc_user dvrctl) (dc_passwd dvrctl) = (h, up)" by fastforce
  have len: "length (dc_user dvrctl) + length (dc_passwd dvrctl) \<le> MAX_USER_PASSWD_LEN"
    using assms(2) by (simp add: MAX_USER_PASSWD_LEN_def)
  have q: "length (raw h) = 32" "extlen h = of_nat (length up)" "length up \<le> 252"
    using login_request_shape [OF hu len] by simp_all
  define c1 where "c1 = c\<lparr>rx := concat (map message_bytes ms) @ message_bytes r @ rest, tx := tx c @ message_bytes (sent h up),
    tx_room := tx_room c - length (message_bytes (sent h up)), unique_login_symbol := BT_LM2NV_U32 (take 4 (drop 16 (fst l)))\<rparr>"
  have sl: "length (message_bytes (sent h up)) \<le> 284" using q(1,3) by (simp add: message_bytes_def sent_def)
  have login: "hlp_login c (Some d) (dc_user dvrctl) (dc_passwd dvrctl) = (0, Some (login_devinfo (header_of l) d), c1)"
    using login_answered [OF hu len q _ assms(3-5,11), of "Some d"] assms(6,12) by (simp add: c1_def)
  have "arrays_ok (login_devinfo (header_of l) d)" "rx c1 = concat (map message_bytes ms) @ message_bytes r @ rest"
    "32 * (256 + 1) \<le> tx_room c1"
    using assms(12,13) sl by (simp_all add: c1_def)
  from sysinfo_sweep_collects [OF assms(7-10) this, of x 0] obtain d' where
    sweep: "told ms (login_devinfo (header_of l) d) = Some d'" "arrays_ok d'"
      "hlp_get_system_information_multiple x c1 (Some (login_devinfo (header_of l) d)) 0 256 =
        Some (0, Some d', c1\<lparr>rx := rest, tx := tx c1 @ sweep_requests 0 256, tx_room := tx_room c1 - 32 * (256 + 1)\<rparr>)"
    by blast
  show ?thesis
    using hu sweep login assms(1) sl by (auto simp: open_session_def c1_def)
qed

text \<open>
  C12: Opening a session in the common dialect composes login and information sweep: on a control
  connection that brings the answer to the login, any sequence of replies and the answer to the \<open>nop\<close>,
  it succeeds, the device structure is the one told by all these replies and stays well formed, the
  requests went out in their order, a login that reads back as user and password first, and the
  connection is just behind the last answer.
\<close>
theorem session_opens:
  assumes "dc_net_protocol_dialect dvrctl = 0" "length (dc_user dvrctl) + length (dc_passwd dvrctl) \<le> 250"
    and chars: "0 \<notin> set (dc_user dvrctl)" "0 \<notin> set (dc_passwd dvrctl)" "0x26 \<notin> set (dc_user dvrctl)"
    and "skipped 0xb0 ls" "message_ok l" "command l = 0xb0" "fst l ! 8 = 0"
    and "\<forall>m \<in> set ms. message_ok m \<and> command m \<noteq> LLP_HD_NOP_REPLY \<and> length (snd m) \<le> 1024"
    and "message_ok r" "command r = LLP_HD_NOP_REPLY" "length (snd r) \<le> 1024"
    and "rx c = concat (map message_bytes ls) @ message_bytes l @ concat (map message_bytes ms) @ message_bytes r @ rest"
    and "284 + 32 * 257 \<le> tx_room c" "arrays_ok d"
  shows "\<exists>req d' c'. message_ok req \<and> login_read req = (dc_user dvrctl, dc_passwd dvrctl) \<and>
    told ms (login_devinfo (header_of l) d) = Some d' \<and> arrays_ok d' \<and>
    open_session x (Some c) (Some d) dvrctl = Some (0, Some (c', Some d')) \<and> rx c' = rest \<and>
    tx c' = tx c @ message_bytes req @ sweep_requests 0 256 \<and>
    unique_login_symbol c' = BT_LM2NV_U32 (take 4 (drop 16 (fst l)))"
proof -
  from session_opened [OF assms(1,2,6-16), of x] obtain h up d' c' where
    s: "login_request (dc_user dvrctl) (dc_passwd dvrctl) = (h, up)"
      "told ms (login_devinfo (header_of l) d) = Some d'" "arrays_ok d'"
      "open_session x (Some c) (Some d) dvrctl = Some (0, Some (c', Some d'))" "rx c' = rest"
      "tx c' = tx c @ message_bytes (sent h up) @ sweep_requests 0 256"
      "unique_login_symbol c' = BT_LM2NV_U32 (take 4 (drop 16 (fst l)))" by blast
  have len: "length (dc_user dvrctl) + length (dc_passwd dvrctl) \<le> MAX_USER_PASSWD_LEN"
    using assms(2) by (simp add: MAX_USER_PASSWD_LEN_def)
  have q: "length (raw h) = 32" "extlen h = of_nat (length up)" "length up \<le> 252"
    "login_read (sent h up) = (dc_user dvrctl, dc_passwd dvrctl)"
    using login_request_reads [OF s(1) len chars] by (auto simp: Let_def sent_def)
  have "message_ok (sent h up)" using sent_message [OF q(1,2)] q(3) by (simp add: sent_def)
  then show ?thesis using s q(4) by blast
qed

text \<open>A recorder in short: the answer to the login, one reply, the answer to the \<open>nop\<close>, some media.\<close>

definition sample_control :: t_hlp_connection where
  "sample_control = sample_connection (message_bytes (sample_message [(0, 0xb0), (10, 4)] []) @
     message_bytes (sample_message [(0, 0xb4), (8, 7)] [0x41]) @ message_bytes (sample_message [(0, 0xb1)] []))"

definition sample_dvrctl :: dvrcontrol_t where
  "sample_dvrctl = \<lparr>dc_ntsc_exact_60hz = False, dc_tsproc = TSPROC_DO_CORRECT, dc_user = [0x61], dc_passwd = [0x62],
     dc_channel = 2, dc_sub_channel = 0, dc_keep_alive_us = 100000, dc_timeout_us = 5000000, dc_net_protocol_dialect = 0\<rparr>"

lemma sample_recorder:
  "message_ok (sample_message [(0, 0xb0), (10, 4)] [])" "message_ok (sample_message [(0, 0xb4), (8, 7)] [0x41])"
  "message_ok (sample_message [(0, 0xb1)] [])"
  by (simp_all add: sample_message_ok beside_length_def)

lemma session_opens_witness:
  "\<exists>c d. open_session 0 (Some sample_control) (Some sample_devinfo) sample_dvrctl = Some (0, Some (c, Some d)) \<and> rx c = []"
proof -
  have "\<exists>req d' c'. message_ok req \<and> login_read req = (dc_user sample_dvrctl, dc_passwd sample_dvrctl) \<and>
    told [sample_message [(0, 0xb4), (8, 7)] [0x41]] (login_devinfo (header_of (sample_message [(0, 0xb0), (10, 4)] [])) sample_devinfo) = Some d' \<and>
    arrays_ok d' \<and> open_session 0 (Some sample_control) (Some sample_devinfo) sample_dvrctl = Some (0, Some (c', Some d')) \<and> rx c' = [] \<and>
    tx c' = tx sample_control @ message_bytes req @ sweep_requests 0 256 \<and>
    unique_login_symbol c' = BT_LM2NV_U32 (take 4 (drop 16 (fst (sample_message [(0, 0xb0), (10, 4)] []))))"
    by (rule session_opens [where ls = "[]" and r = "sample_message [(0, 0xb1)] []"])
       (use sample_recorder sample_devinfo_ok in \<open>auto simp: sample_dvrctl_def sample_control_def skipped_def request_bytes_def LLP_HD_NOP_REPLY_def\<close>)
  then show ?thesis by blast
qed

section \<open>The stream reaches the pipe\<close>

lemma media_forwarded:
  assumes session: "open_session x control (Some (di_init di0)) dvrctl = Some (0, Some (ctl, di))" "64 + 32 \<le> tx_room ctl"
    and channel: "0 \<le> dc_channel dvrctl" "dc_channel dvrctl < 256" "0 \<le> dc_sub_channel dvrctl" "dc_sub_channel dvrctl < 256"
    and media: "\<forall>ch \<in> set cs. chunk_ok ch" "cs \<noteq> []" "rx str = concat (map chunk_bytes cs)" "32 \<le> tx_room str"
    and pipe: "wr_plan pipe = []"
  shows "\<exists>r s k. stream_media_dvr_to_pipe x control (Some str) di0 dvrctl evs pipe = Some (r, Some s) \<and>
    1 \<le> k \<and> k \<le> length cs \<and> written (ps_pipe s) = written pipe @ concat (map chunk_media (take k cs)) \<and>
    rx (ps_stream s) = concat (map chunk_bytes (drop k cs)) \<and>
    (\<forall>c. r = Some c \<longrightarrow> c \<in> {6, 7, 8, 9} \<and> (c = 6 \<longrightarrow> k = length cs))"
proof -
  obtain h e where req: "media_request (dc_channel dvrctl) (dc_sub_channel dvrctl) = Some (h, e)"
    using media_request_made [OF channel] by blast
  note hl = media_request_sends [OF channel req]
  obtain ch cs' where cs: "cs = ch # cs'" using media(2) by (cases cs) auto
  obtain str1 where rel: "hlp_connection_relationship ctl str 1 (of_int (dc_channel dvrctl)) = (0, str1)" "rx str1 = rx str"
    using media(4) by (simp add: hlp_connection_relationship_def send_header_ok Let_def llp_init_header_def LLP_HEADER_SIZE_def)
  obtain ctl1 where s1: "llp_send_header ctl h = (0, store_raw 4 (BT_NV2LM_U32 (extlen h)) h, ctl1)" "tx_room ctl1 = tx_room ctl - 32"
    using send_header_ok [of h ctl] hl session(2) by simp
  have "length e \<le> tx_room ctl1" using hl s1(2) session(2) by linarith
  then obtain ctl2 where s2: "llp_send_extdata ctl1 e = (0, ctl2)"
    using send_extdata_ok [of e ctl1] by blast
  have "media_reply (3, 5, 4) str1 True STREAM_BUFFER_LEN = (0, Some (chunk_media ch), str1\<lparr>rx := concat (map chunk_bytes cs')\<rparr>)"
    by (rule chunk_collected) (use media(1,3) cs rel(2) in auto)
  then have first: "hlp_media_data_request ctl str1 (dc_channel dvrctl) (dc_sub_channel dvrctl) True STREAM_BUFFER_LEN =
      Some (0, Some (chunk_media ch), ctl2, str1\<lparr>rx := concat (map chunk_bytes cs')\<rparr>)"
    by (simp add: hlp_media_data_request_def req s1(1) s2)
  define s0 where "s0 = \<lparr>ps_control = ctl2, ps_stream = str1\<lparr>rx := concat (map chunk_bytes cs')\<rparr>,
      ps_pipe = pipe\<lparr>written := written pipe @ chunk_media ch\<rparr>\<rparr>"
  have start: "forwarded cs (written pipe) 1 s0"
    using media(1) pipe by (simp add: forwarded_def s0_def cs)
  have "stream_media_dvr_to_pipe x control (Some str) di0 dvrctl evs pipe =
      (case turns (stream_turn dvrctl) evs s0 of None \<Rightarrow> None | Some (r, s) \<Rightarrow> Some (r, Some s))"
    by (simp add: stream_media_dvr_to_pipe_def session(1) rel(1) first sys_write_all [OF pipe] s0_def Option.bind_def
        split: option.splits)
  moreover from stream_loop.turns_advance [OF start, of dvrctl evs] obtain r s k where
    "turns (stream_turn dvrctl) evs s0 = Some (r, s)" "forwarded cs (written pipe) k s" "1 \<le> k"
    "\<forall>c. r = Some c \<longrightarrow> c \<in> {6, 7, 8, 9} \<and> (c = 6 \<longrightarrow> k = length cs)" by blast
  ultimately show ?thesis unfolding forwarded_def by (intro exI [of _ r] exI [of _ s] exI [of _ k]) simp
qed

text \<open>
  C8: A live session hands on the media: once the control session is open, whatever the scheduling of
  the two connections, the keep-alives and the timers, the pipe holds the payloads of a beginning of
  the media messages, in order, complete and without anything else, and the data connection is at
  the message behind them; it ends with code 6 only when all have been handed on.
\<close>
theorem live_media_forwarded:
  assumes session: "open_session x control (Some (di_init di0)) dvrctl = Some (0, Some (ctl, di))" "64 + 32 \<le> tx_room ctl"
    and channel: "0 \<le> dc_channel dvrctl" "dc_channel dvrctl < 256" "0 \<le> dc_sub_channel dvrctl" "dc_sub_channel dvrctl < 256"
    and media: "\<forall>ch \<in> set cs. chunk_ok ch" "cs \<noteq> []" "rx str = concat (map chunk_bytes cs)" "32 \<le> tx_room str"
    and pipe: "wr_plan pipe = []"
  shows "\<exists>r s k. stream_media_dvr_to_pipe x control (Some str) di0 dvrctl evs pipe = Some (r, Some s) \<and>
    1 \<le> k \<and> k \<le> length cs \<and> written (ps_pipe s) = written pipe @ concat (map chunk_media (take k cs)) \<and>
    rx (ps_stream s) = concat (map chunk_bytes (drop k cs)) \<and>
    (\<forall>c. r = Some c \<longrightarrow> c \<in> {6, 7, 8, 9} \<and> (c = 6 \<longrightarrow> k = length cs))"
  by (rule media_forwarded [OF assms])

text \<open>
  A short write to the pipe loses media without a trace: the rest of the payload is dropped, the
  message is gone from the connection and the loop goes on.
\<close>
lemma short_write_loses_media:
  assumes "chunk_ok ch" "rx (ps_stream s) = chunk_bytes ch @ rest" "wr_plan (ps_pipe s) = WrUpTo n # plan" "0 < pending"
  shows "collect_step 0 (pending, spent) s =
    Some (None, s\<lparr>ps_stream := (ps_stream s)\<lparr>rx := rest\<rparr>,
      ps_pipe := (ps_pipe s)\<lparr>wr_plan := plan, written := written (ps_pipe s) @ take n (chunk_media ch)\<rparr>\<rparr>)"
  using chunk_collected [OF assms(1,2)] assms(3,4)
  by (simp add: collect_step_def hlp_collect_media_data_def sys_write.simps)

definition sample_chunk :: "byte list \<Rightarrow> chunk" where
  "sample_chunk bs = ([sample_message [(0, 0xf1)] []], sample_message [(0, 0xbc)] bs)"

lemma sample_chunk_ok: "length bs < 256 \<Longrightarrow> chunk_ok (sample_chunk bs)"
  by (simp add: chunk_ok_def sample_chunk_def skipped_def sample_message_ok beside_length_def STREAM_BUFFER_LEN_def request_bytes_def)

lemma arrays_ok_init: "arrays_ok d \<Longrightarrow> arrays_ok (di_init d)"
  by (simp add: arrays_ok_def di_init_def empty_str_def DI_STR_MAXLEN_def)

lemma sample_session_opened:
  "\<exists>h up d' c'. login_request (dc_user sample_dvrctl) (dc_passwd sample_dvrctl) = (h, up) \<and>
    told [sample_message [(0, 0xb4), (8, 7)] [0x41]] (login_devinfo (header_of (sample_message [(0, 0xb0), (10, 4)] []))
      (di_init sample_devinfo)) = Some d' \<and> arrays_ok d' \<and>
    open_session 0 (Some sample_control) (Some (di_init sample_devinfo)) sample_dvrctl = Some (0, Some (c', Some d')) \<and> rx c' = [] \<and>
    tx c' = tx sample_control @ message_bytes (sent h up) @ sweep_requests 0 256 \<and>
    tx_room sample_control - (284 + 32 * 257) \<le> tx_room c' \<and>
    unique_login_symbol c' = BT_LM2NV_U32 (take 4 (drop 16 (fst (sample_message [(0, 0xb0), (10, 4)] []))))"
  by (rule session_opened [where ls = "[]" and r = "sample_message [(0, 0xb1)] []"])
     (use sample_recorder arrays_ok_init [OF sample_devinfo_ok]
      in \<open>auto simp: sample_dvrctl_def sample_control_def skipped_def request_bytes_def LLP_HD_NOP_REPLY_def\<close>)

lemma live_media_forwarded_witness:
  "\<exists>r s. stream_media_dvr_to_pipe 0 (Some sample_control)
      (Some (sample_connection (concat (map chunk_bytes [sample_chunk [1, 2], sample_chunk [3]]))))
      sample_devinfo sample_dvrctl [] \<lparr>wr_plan = [], written = []\<rparr> = Some (r, Some s) \<and>
    written (ps_pipe s) \<in> {[1, 2], [1, 2, 3]}"
proof -
  obtain c d where s: "open_session 0 (Some sample_control) (Some (di_init sample_devinfo)) sample_dvrctl = Some (0, Some (c, Some d))"
      "96 \<le> tx_room c"
    using sample_session_opened by (auto simp: sample_control_def)
  have "\<exists>r s k. stream_media_dvr_to_pipe 0 (Some sample_control)
      (Some (sample_connection (concat (map chunk_bytes [sample_chunk [1, 2], sample_chunk [3]]))))
      sample_devinfo sample_dvrctl [] \<lparr>wr_plan = [], written = []\<rparr> = Some (r, Some s) \<and>
    1 \<le> k \<and> k \<le> length [sample_chunk [1, 2], sample_chunk [3]] \<and>
    written (ps_pipe s) = written \<lparr>wr_plan = [], written = []\<rparr> @ concat (map chunk_media (take k [sample_chunk [1, 2], sample_chunk [3]])) \<and>
    rx (ps_stream s) = concat (map chunk_bytes (drop k [sample_chunk [1, 2], sample_chunk [3]])) \<and>
    (\<forall>c. r = Some c \<longrightarrow> c \<in> {6, 7, 8, 9} \<and> (c = 6 \<longrightarrow> k = length [sample_chunk [1, 2], sample_chunk [3]]))"
    by (rule live_media_forwarded [OF s(1)]) (use s(2) sample_chunk_ok in \<open>auto simp: sample_dvrctl_def\<close>)
  then obtain r s k where w: "stream_media_dvr_to_pipe 0 (Some sample_control)
      (Some (sample_connection (concat (map chunk_bytes [sample_chunk [1, 2], sample_chunk [3]]))))
      sample_devinfo sample_dvrctl [] \<lparr>wr_plan = [], written = []\<rparr> = Some (r, Some s)" "1 \<le> k" "k \<le> 2"
      "written (ps_pipe s) = concat (map chunk_media (take k [sample_chunk [1, 2], sample_chunk [3]]))" by auto
  then have "k = 1 \<or> k = 2" by linarith
  then show ?thesis using w(1,4) by (auto simp: chunk_media_def sample_chunk_def)
qed

lemma short_write_loses_media_witness:
  "\<exists>s. collect_step 0 (1, 0) \<lparr>ps_control = sample_control, ps_stream = sample_connection (chunk_bytes (sample_chunk [1, 2, 3]) @ [9]),
      ps_pipe = \<lparr>wr_plan = [WrUpTo 1], written = []\<rparr>\<rparr> = Some (None, s) \<and> written (ps_pipe s) = [1] \<and> rx (ps_stream s) = [9]"
  using short_write_loses_media [OF sample_chunk_ok [of "[1, 2, 3]"],
      of "\<lparr>ps_control = sample_control, ps_stream = sample_connection (chunk_bytes (sample_chunk [1, 2, 3]) @ [9]),
        ps_pipe = \<lparr>wr_plan = [WrUpTo 1], written = []\<rparr>\<rparr>" "[9]" 1 "[]" 1 0]
  by (simp add: chunk_media_def sample_chunk_def)

section \<open>Any recorder\<close>

text \<open>
  With no assumption on what the recorder sends: an invariant of the device structure that the login
  and every reply about the system keep is kept by the whole session, and nothing goes wrong.
\<close>

lemma extdata_length:
  assumes "llp_get_extdata_sbuff c h (of_nat SYSINFO_ED_LEN) = (n, bs, c')" "0 \<le> n"
  shows "n = int (length bs)"
proof (cases "extlen h = 0")
  case True
  then show ?thesis using assms(1) by (simp add: llp_get_extdata_sbuff_def)
next
  case False
  have le: "\<not> of_nat SYSINFO_ED_LEN < extlen h"
    using assms False by (auto simp: llp_get_extdata_sbuff_def)
  then have "unat (extlen h) \<le> 1024" by (simp add: word_less_nat_alt SYSINFO_ED_LEN_def)
  moreover have u: "uint (extlen h) = int (unat (extlen h))" by simp
  ultimately have "uint (extlen h) < 2147483648" by linarith
  then have s: "sint (extlen h) = int (unat (extlen h))" by (simp add: sint32_eq)
  have "(n, bs) = (if length (take (unat (extlen h)) (rx c)) \<noteq> unat (extlen h) then -1 else sint (extlen h), take (unat (extlen h)) (rx c))"
    using assms(1) unfolding llp_get_extdata_sbuff_def if_not_P [OF False] if_not_P [OF le] by (auto simp: net_fread_def Let_def)
  then have "n = (if length bs \<noteq> unat (extlen h) then -1 else int (unat (extlen h)))" by (simp only: s prod.inject)
  then show ?thesis using assms(2) by (simp split: if_splits)
qed

locale session_invariant =
  fixes inv :: "t_devinfo \<Rightarrow> bool"
  assumes inv_login: "inv d \<Longrightarrow> inv (login_devinfo h d)"
    and inv_reply: "inv d \<Longrightarrow> \<exists>d'. switch_sysinfo d e (int (length e)) h = Some d' \<and> inv d'"
begin

definition well :: "t_devinfo option \<Rightarrow> bool" where
  "well d \<longleftrightarrow> (\<exists>i. d = Some i \<and> inv i)"

lemma update_well:
  assumes "well d" "n = int (length e)"
  shows "\<exists>d'. update_devinfo_from_system_information d e n h = Some d' \<and> well d'"
proof -
  obtain i where i: "d = Some i" "inv i" using assms(1) by (auto simp: well_def)
  from inv_reply [OF i(2), of e h] show ?thesis
    using i(1) assms(2) by (auto simp: update_devinfo_from_system_information_def well_def)
qed

lemma system_information_well:
  assumes "well d"
  shows "\<exists>i d' c'. hlp_get_system_information c d infotype bitstream = Some (i, d', c') \<and> well d'"
proof -
  obtain r h1 c1 where s: "llp_send_header c (set_raw 12 bitstream (set_raw 8 infotype (set_raw 0 0xa4 llp_init_header))) = (r, h1, c1)"
    by (metis prod_cases3)
  obtain r2 h2 c2 where g: "hlp_get_header c1 0xb4 = (r2, h2, c2)" by (metis prod_cases3)
  obtain n e c3 where x: "llp_get_extdata_sbuff c2 h2 (of_nat SYSINFO_ED_LEN) = (n, e, c3)" by (metis prod_cases3)
  show ?thesis
  proof (cases "r = 0 \<and> r2 = 0 \<and> 0 \<le> n")
    case True
    from update_well [OF assms extdata_length [OF x], of h2] True obtain d' where
      "update_devinfo_from_system_information d e n h2 = Some d'" "well d'" by blast
    then show ?thesis using s g x True by (simp add: hlp_get_system_information_def)
  next
    case False
    then show ?thesis using s g x assms by (auto simp: hlp_get_system_information_def)
  qed
qed

lemma collect_infos_well:
  "well d \<Longrightarrow> \<exists>i d' c'. collect_infos c d = Some (i, d', c') \<and> well d'"
proof (induction c d rule: collect_infos.induct)
  case (1 c d)
  obtain r h c1 where g: "llp_get_header c = (r, h, c1)" by (metis prod_cases3)
  obtain n e c2 where x: "llp_get_extdata_sbuff c1 h (of_nat SYSINFO_ED_LEN) = (n, e, c2)" by (metis prod_cases3)
  show ?case
  proof (cases "r = 0 \<and> 0 \<le> n \<and> llp_hd_cmd h \<noteq> LLP_HD_NOP_REPLY")
    case True
    from update_well [OF "1.prems" extdata_length [OF x], of h] True obtain d' where
      u: "update_devinfo_from_system_information d e n h = Some d'" "well d'" by blast
    have "collect_infos c d = collect_infos c2 d'"
      using True g x u(1) by (subst collect_infos.simps) simp
    moreover have "\<exists>i d'' c'. collect_infos c2 d' = Some (i, d'', c') \<and> well d''"
      by (rule "1.IH" [OF g [symmetric] refl _ x [symmetric] refl _ _ u(1) u(2)]) (use True in auto)
    ultimately show ?thesis by simp
  next
    case False
    then show ?thesis using g x "1.prems" by (subst collect_infos.simps) auto
  qed
qed

lemma run_chat_well: "well d \<Longrightarrow> \<exists>c' d'. run_chat ch (c, d) = Some (c', d') \<and> well d'"
proof (cases ch)
  case (SYSINFO code bstr)
  assume "well d"
  from system_information_well [OF this, of c code bstr] show ?thesis by (auto simp: run_chat_def SYSINFO)
qed (simp_all add: run_chat_def)

lemma run_chats_well: "well d \<Longrightarrow> \<exists>c' d'. run_chats chs (c, d) = Some (c', d') \<and> well d'"
proof (induction chs arbitrary: c d)
  case (Cons ch chs)
  from run_chat_well [OF Cons.prems, of ch c] obtain c1 d1 where "run_chat ch (c, d) = Some (c1, d1)" "well d1" by blast
  then show ?case using Cons.IH [of d1 c1] by simp
qed simp

lemma login_well: "well d \<Longrightarrow> hlp_login c d u p = (i, d', c') \<Longrightarrow> well d'"
  by (auto simp: hlp_login_def Let_def well_def inv_login split: prod.splits if_splits)

lemma open_session_well:
  assumes "inv d"
  shows "\<exists>i s. open_session x conn (Some d) dvrctl = Some (i, s) \<and> i \<in> {0, 1} \<and> (i = 0 \<longrightarrow> s \<noteq> None) \<and>
    (\<forall>c d'. s = Some (c, d') \<longrightarrow> (\<exists>e. d' = Some e \<and> inv e))"
proof (cases conn)
  case None
  then show ?thesis by (simp add: open_session_def)
next
  case (Some c)
  obtain i d1 c1 where l: "hlp_login c (Some d) (dc_user dvrctl) (dc_passwd dvrctl) = (i, d1, c1)" by (metis prod_cases3)
  have w: "well d1" using login_well [OF _ l] assms by (simp add: well_def)
  obtain r s2 where sent: "send_infotypes [0 ..< 256] (set_raw 12 0 (set_raw 8 x (set_raw 0 0xa4 llp_init_header))) c1 = (r, s2)"
    by fastforce
  obtain r2 c3 where nop: "llp_send_nop s2 = (r2, c3)" by fastforce
  from collect_infos_well [OF w, of c3] have
    sweep: "\<exists>k d' c'. hlp_get_system_information_multiple x c1 d1 0 256 = Some (k, d', c') \<and> well d'"
    using sent nop w by (auto simp: hlp_get_system_information_multiple_def)
  show ?thesis
    using Some l w sweep run_chats_well [OF w, of oem_chats c1]
    by (auto simp: open_session_def well_def)
qed

end

interpretation arrays_intact: session_invariant arrays_ok
proof
  show "arrays_ok d \<Longrightarrow> arrays_ok (login_devinfo h d)" for d h by simp
  show "arrays_ok d \<Longrightarrow> \<exists>d'. switch_sysinfo d e (int (length e)) h = Some d' \<and> arrays_ok d'" for d e h
    by (rule switch_sysinfo_ok)
qed

interpretation strings_terminated: session_invariant strings_ok
proof
  show "strings_ok d \<Longrightarrow> strings_ok (login_devinfo h d)" for d h
    by (simp add: strings_ok_def) (simp add: login_devinfo_def)
  show "strings_ok d \<Longrightarrow> \<exists>d'. switch_sysinfo d e (int (length e)) h = Some d' \<and> strings_ok d'" for d e h
    by (rule switch_sysinfo_strings)
qed



end
