(* ===== verification/Signals.thy ===== *)
theory Signals
  imports Prelude
begin

text \<open>
  The signals of the three processes (\<open>src/shtools.c\<close>): which handler each managed signal has, which
  signals are blocked, and the three flags the handler sets and the streaming loops read.
\<close>

section \<open>The state of a process\<close>

datatype signal = SIGCHLD | SIGPIPE | SIGTERM | SIGHUP | SIGXCPU | SIGILL | SIGFPE | SIGSEGV | SIGBUS

datatype handler = SIG_DFL | SIG_IGN | SHT_HANDLER

datatype sa_flag = SA_RESTART | SA_RESETHAND | SA_NODEFER

record action =
  sa_handler :: handler
  sa_mask :: "signal list"
  sa_flags :: "sa_flag list"

datatype sht_context_t = SHT_BASE_PROC | SHT_BUFFER_PROC | SHT_DVRCTL_PROC
datatype sht_sigmgr_op_t = SHT_OP_BLOCK | SHT_OP_UNBLOCK

record sht_flags =
  fl_sigchld :: bool
  fl_sigpipe :: bool
  fl_terminate_nicely :: bool

text \<open>
  The static variables, and what the system keeps for the process: the action of every signal and
  the set of blocked ones.
\<close>

record sht = sht_flags +
  sht_sa :: action
  sht_sa_fatal :: action
  sht_sa_ignored :: action
  sht_sa_tmp :: action
  sht_sa_fatal_tmp :: action
  sht_sa_ignored_tmp :: action
  sht_context :: sht_context_t
  sht_initialized_once :: bool
  actions :: "signal \<Rightarrow> action"
  blocked :: "signal list"

section \<open>The handler\<close>

text \<open>\<open>abort\<close> ends the process: \<open>None\<close>.\<close>

definition sht_handler :: "signal \<Rightarrow> 'a sht_flags_scheme \<Rightarrow> 'a sht_flags_scheme option" where
  "sht_handler sn s =
     (case sn of
        SIGCHLD \<Rightarrow> Some (s\<lparr>fl_sigchld := True\<rparr>)
      | SIGPIPE \<Rightarrow> Some (s\<lparr>fl_sigpipe := True\<rparr>)
      | SIGTERM \<Rightarrow> Some (s\<lparr>fl_terminate_nicely := True\<rparr>)
      | SIGHUP \<Rightarrow> Some (s\<lparr>fl_terminate_nicely := True\<rparr>)
      | SIGXCPU \<Rightarrow> Some (s\<lparr>fl_terminate_nicely := True\<rparr>)
      | SIGILL \<Rightarrow> None
      | SIGFPE \<Rightarrow> None
      | SIGSEGV \<Rightarrow> None
      | SIGBUS \<Rightarrow> None)"

section \<open>Blocking\<close>

definition sigstd :: "signal list" where "sigstd = [SIGCHLD, SIGTERM, SIGHUP, SIGXCPU, SIGPIPE]"
definition sigfatal :: "signal list" where "sigfatal = [SIGILL, SIGFPE, SIGSEGV, SIGBUS]"

text \<open>The two bits of \<open>sf\<close> are the two arguments.\<close>

definition sht_signalblock_mgr :: "sht_sigmgr_op_t \<Rightarrow> bool \<Rightarrow> bool \<Rightarrow> sht \<Rightarrow> sht" where
  "sht_signalblock_mgr op f_sigstd f_sigfatal s =
     (let bmask = (if f_sigstd then sigstd else []) @ (if f_sigfatal then sigfatal else [])
      in case op of
           SHT_OP_BLOCK \<Rightarrow> s\<lparr>blocked := bmask @ blocked s\<rparr>
         | SHT_OP_UNBLOCK \<Rightarrow> s\<lparr>blocked := filter (\<lambda>sn. sn \<notin> set bmask) (blocked s)\<rparr>)"

section \<open>Handlers\<close>

text \<open>
  \<open>sigaction (sn, new, old)\<close>; the first time \<open>old\<close> is \<open>NULL\<close> and the new actions are those of the plain
  variables, later the new ones are in the \<open>tmp\<close> variables and the old ones go to the plain variables.
\<close>

definition sigaction_first :: "signal \<Rightarrow> (sht \<Rightarrow> action) \<Rightarrow> sht \<Rightarrow> sht" where
  "sigaction_first sn new s = s\<lparr>actions := (actions s)(sn := new s)\<rparr>"

definition sigaction_later :: "signal \<Rightarrow> (sht \<Rightarrow> action) \<Rightarrow> (action \<Rightarrow> sht \<Rightarrow> sht) \<Rightarrow> sht \<Rightarrow> sht" where
  "sigaction_later sn new old s = (old (actions s sn) s)\<lparr>actions := (actions s)(sn := new s)\<rparr>"

definition set_all :: "(signal \<Rightarrow> sht \<Rightarrow> sht) \<Rightarrow> (signal \<Rightarrow> sht \<Rightarrow> sht) \<Rightarrow> (signal \<Rightarrow> sht \<Rightarrow> sht) \<Rightarrow> sht \<Rightarrow> sht" where
  "set_all std ign fatal s =
     fold fatal [SIGILL, SIGFPE, SIGSEGV, SIGBUS]
       (fold std [SIGHUP, SIGTERM, SIGXCPU] (ign SIGPIPE (std SIGCHLD s)))"

definition sht_set_sighandlers :: "sht \<Rightarrow> sht" where
  "sht_set_sighandlers s =
     (if \<not> sht_initialized_once s
      then set_all (\<lambda>sn. sigaction_first sn sht_sa) (\<lambda>sn. sigaction_first sn sht_sa_ignored)
             (\<lambda>sn. sigaction_first sn sht_sa_fatal) s
      else set_all (\<lambda>sn. sigaction_later sn sht_sa_tmp (\<lambda>a s. s\<lparr>sht_sa := a\<rparr>))
             (\<lambda>sn. sigaction_later sn sht_sa_ignored_tmp (\<lambda>a s. s\<lparr>sht_sa_ignored := a\<rparr>))
             (\<lambda>sn. sigaction_later sn sht_sa_fatal_tmp (\<lambda>a s. s\<lparr>sht_sa_fatal := a\<rparr>)) s)"

text \<open>What \<open>sht_init\<close> writes into the three actions; the mask of the ignored one is left as it is.\<close>

definition std_action :: "sht_context_t \<Rightarrow> action" where
  "std_action ctx =
     (case ctx of
        SHT_DVRCTL_PROC \<Rightarrow> \<lparr>sa_handler = SIG_DFL, sa_mask = [], sa_flags = [SA_RESTART]\<rparr>
      | _ \<Rightarrow> \<lparr>sa_handler = SHT_HANDLER, sa_mask = [], sa_flags = []\<rparr>)"

definition fatal_action :: action where
  "fatal_action = \<lparr>sa_handler = SHT_HANDLER, sa_mask = sigstd, sa_flags = [SA_RESETHAND, SA_NODEFER]\<rparr>"

definition ignored_action :: "action \<Rightarrow> action" where
  "ignored_action a = a\<lparr>sa_handler := SIG_IGN, sa_flags := []\<rparr>"

definition sht_init :: "sht_context_t \<Rightarrow> sht \<Rightarrow> sht" where
  "sht_init ctx s =
     (let s1 = sht_signalblock_mgr SHT_OP_BLOCK True True s;
          s2 = sht_signalblock_mgr SHT_OP_UNBLOCK False True (s1\<lparr>sht_context := ctx\<rparr>);
          s3 = s2\<lparr>fl_sigchld := False, fl_sigpipe := False, fl_terminate_nicely := False\<rparr>;
          s4 = (if \<not> sht_initialized_once s
                then s3\<lparr>sht_sa := std_action ctx, sht_sa_fatal := fatal_action,
                        sht_sa_ignored := ignored_action (sht_sa_ignored s3)\<rparr>
                else s3\<lparr>sht_sa_tmp := std_action ctx, sht_sa_fatal_tmp := fatal_action,
                        sht_sa_ignored_tmp := ignored_action (sht_sa_ignored_tmp s3)\<rparr>);
          s5 = (sht_set_sighandlers s4)\<lparr>sht_initialized_once := True\<rparr>
      in sht_signalblock_mgr SHT_OP_UNBLOCK True False s5)"

section \<open>Signals arrive\<close>

text \<open>
  The delivery of an unblocked signal by the system: the default action ends the process, except for
  \<open>SIGCHLD\<close>; \<open>SA_RESETHAND\<close> restores the default first. \<open>None\<close>: the process has ended.
\<close>

definition deliver :: "signal \<Rightarrow> sht \<Rightarrow> sht option" where
  "deliver sn s =
     (case sa_handler (actions s sn) of
        SIG_IGN \<Rightarrow> Some s
      | SIG_DFL \<Rightarrow> if sn = SIGCHLD then Some s else None
      | SHT_HANDLER \<Rightarrow>
          sht_handler sn
            (if SA_RESETHAND \<in> set (sa_flags (actions s sn))
             then s\<lparr>actions := (actions s)(sn := (actions s sn)\<lparr>sa_handler := SIG_DFL\<rparr>)\<rparr> else s))"

text \<open>What can happen to a process after its initialisation; the relay also clears \<open>sht_fl_sigchld\<close>.\<close>

inductive sht_step :: "sht \<Rightarrow> sht \<Rightarrow> bool" where
  step_deliver: "sn \<notin> set (blocked s) \<Longrightarrow> deliver sn s = Some s' \<Longrightarrow> sht_step s s'"
| step_mask: "sht_step s (sht_signalblock_mgr op f_sigstd f_sigfatal s)"
| step_clear: "sht_step s (s\<lparr>fl_sigchld := False\<rparr>)"
| step_init: "sht_step s (sht_init ctx s)"


inductive sht_reachable :: "sht_context_t \<Rightarrow> sht \<Rightarrow> bool" for ctx where
  reach_init: "sht_reachable ctx (sht_init ctx s)"
| reach_step: "sht_reachable ctx s \<Longrightarrow> sht_step s s' \<Longrightarrow> sht_reachable ctx s'"

lemma mgr_parts [simp]:
  "actions (sht_signalblock_mgr op a b s) = actions s" "fl_sigpipe (sht_signalblock_mgr op a b s) = fl_sigpipe s"
  "fl_sigchld (sht_signalblock_mgr op a b s) = fl_sigchld s"
  "fl_terminate_nicely (sht_signalblock_mgr op a b s) = fl_terminate_nicely s"
  "sht_initialized_once (sht_signalblock_mgr op a b s) = sht_initialized_once s"
  by (simp_all add: sht_signalblock_mgr_def split: sht_sigmgr_op_t.split)

lemma mgr_blocked:
  "set (blocked (sht_signalblock_mgr op a b s)) =
     (let m = (if a then set sigstd else {}) \<union> (if b then set sigfatal else {})
      in case op of SHT_OP_BLOCK \<Rightarrow> set (blocked s) \<union> m | SHT_OP_UNBLOCK \<Rightarrow> set (blocked s) - m)"
  by (auto simp: sht_signalblock_mgr_def Let_def split: sht_sigmgr_op_t.split)

definition managed :: "sht_context_t \<Rightarrow> signal \<Rightarrow> action \<Rightarrow> bool" where
  "managed ctx sn a \<longleftrightarrow>
     (if sn = SIGPIPE then sa_handler a = SIG_IGN else if sn \<in> set sigfatal then a = fatal_action else a = std_action ctx)"

lemma signal_cases: "sn \<in> set sigstd \<or> sn \<in> set sigfatal"
  by (cases sn) (simp_all add: sigstd_def sigfatal_def)

lemma set_sighandlers_parts [simp]:
  "blocked (sht_set_sighandlers s) = blocked s" "fl_sigchld (sht_set_sighandlers s) = fl_sigchld s"
  "fl_sigpipe (sht_set_sighandlers s) = fl_sigpipe s" "fl_terminate_nicely (sht_set_sighandlers s) = fl_terminate_nicely s"
  "sht_context (sht_set_sighandlers s) = sht_context s"
  by (simp_all add: sht_set_sighandlers_def set_all_def sigaction_first_def sigaction_later_def)

lemma init_actions: "managed ctx sn (actions (sht_init ctx s) sn)"
  by (cases sn) (simp_all add: managed_def sht_init_def sht_set_sighandlers_def set_all_def sigaction_first_def sigaction_later_def
      Let_def sigfatal_def ignored_action_def)

lemma init_blocked: "blocked (sht_init ctx s) = []"
proof -
  have "sn \<notin> set (blocked (sht_init ctx s))" for sn
    using signal_cases [of sn] by (auto simp: sht_init_def Let_def mgr_blocked)
  then show ?thesis by (metis last_in_set)
qed

lemma init_flags:
  "\<not> fl_sigchld (sht_init ctx s)" "\<not> fl_sigpipe (sht_init ctx s)" "\<not> fl_terminate_nicely (sht_init ctx s)"
  "sht_context (sht_init ctx s) = ctx" "sht_initialized_once (sht_init ctx s)"
  by (simp_all add: sht_init_def Let_def sht_signalblock_mgr_def)


lemma sigpipe_ignored_step:
  assumes "sht_step s s'" "sa_handler (actions s SIGPIPE) = SIG_IGN \<and> \<not> fl_sigpipe s"
  shows "sa_handler (actions s' SIGPIPE) = SIG_IGN \<and> \<not> fl_sigpipe s'"
  using assms(1)
proof (cases rule: sht_step.cases)
  case (step_deliver sn)
  then show ?thesis
    using assms(2) by (cases sn) (auto simp: deliver_def sht_handler_def split: handler.splits if_splits)
next
  case (step_init ctx)
  then show ?thesis using init_actions [of ctx SIGPIPE s] init_flags(2) by (simp add: managed_def)
qed (use assms(2) in auto)

text \<open>
  C38: The flag for broken pipes is dead: once a process has initialised its signals, no sequence of
  deliveries, blockings, resets and later initialisations ever raises \<open>sht_fl_sigpipe\<close>, because the
  signal is ignored; the loops that test it never see it.
\<close>
theorem sigpipe_flag_dead:
  assumes "sht_reachable ctx s"
  shows "\<not> fl_sigpipe s \<and> sa_handler (actions s SIGPIPE) = SIG_IGN"
  using assms
proof induction
  case (reach_init s)
  then show ?case using init_actions [of ctx SIGPIPE s] init_flags(2) by (simp add: managed_def)
next
  case (reach_step s s')
  then show ?case using sigpipe_ignored_step by blast
qed

definition sample_sht :: sht where
  "sample_sht = (let a = \<lparr>sa_handler = SIG_DFL, sa_mask = [], sa_flags = []\<rparr>
     in \<lparr>fl_sigchld = False, fl_sigpipe = True, fl_terminate_nicely = False, sht_sa = a, sht_sa_fatal = a, sht_sa_ignored = a,
         sht_sa_tmp = a, sht_sa_fatal_tmp = a, sht_sa_ignored_tmp = a, sht_context = SHT_BASE_PROC, sht_initialized_once = False,
         actions = (\<lambda>_. a), blocked = []\<rparr>)"

lemma sigpipe_flag_dead_witness:
  "\<exists>s. deliver SIGTERM (sht_init SHT_BASE_PROC sample_sht) = Some s \<and> fl_terminate_nicely s \<and> \<not> fl_sigpipe s"
proof -
  let ?i = "sht_init SHT_BASE_PROC sample_sht"
  have "managed SHT_BASE_PROC SIGTERM (actions ?i SIGTERM)" by (rule init_actions)
  then obtain s where s: "deliver SIGTERM ?i = Some s" "fl_terminate_nicely s"
    by (auto simp: managed_def sigfatal_def deliver_def std_action_def sht_handler_def)
  have "sht_step ?i s" by (rule step_deliver [OF _ s(1)]) (simp add: init_blocked)
  from sigpipe_flag_dead [OF reach_step [OF reach_init this]] s show ?thesis by blast
qed

end
