(* ===== verification/Dvr_Recording.thy ===== *)
theory Dvr_Recording
  imports Dvr_Session Tunnel Signals
begin

text \<open>
  The recording process (\<open>stream_media_dvr_to_file\<close> of \<open>src/dvrcontrol.c\<close>): it reads the media from the
  pipe of the intermediate process, identifies the container, deframes, converts as the converter
  does or keeps the native frames, and writes the file, until the pipe ends or a signal asks to stop.
\<close>

section \<open>The pipe\<close>

definition STREAM_BUFFER_MAXPIPEREAD :: nat where "STREAM_BUFFER_MAXPIPEREAD = 250000"

text \<open>\<open>poll\<close> on the pipe: a failure, or the conditions that hold when it returns (none: the time is up).\<close>

definition poll_pipe_read :: "errno + pollflag list \<Rightarrow> int" where
  "poll_pipe_read answer =
     (case answer of
        Inl e \<Rightarrow> if e = EINTR then 0 else -1
      | Inr actual \<Rightarrow>
          let revents = poll_reports [POLLIN, POLLPRI] actual
          in if revents = [] then 0 else if hits [POLLIN, POLLPRI] revents then 1 else -2)"

section \<open>The state\<close>

text \<open>
  \<open>rc_signals\<close> are the signals that have arrived at each of the places where the program looks at the
  flags; flags are only raised here.
\<close>

record recording =
  rc_pipe :: "rd_event list"
  rc_flags :: sht_flags
  rc_signals :: "signal list list"
  rc_conv :: conv

definition look :: "recording \<Rightarrow> recording" where
  "look st =
     (case rc_signals st of
        [] \<Rightarrow> st
      | sns # later \<Rightarrow>
          st\<lparr>rc_signals := later,
             rc_flags := fold (\<lambda>sn f. case sht_handler sn f of None \<Rightarrow> f | Some f' \<Rightarrow> f') (filter (\<lambda>sn. sn \<in> set sigstd) sns) (rc_flags st)\<rparr>)"

text \<open>\<open>switch (media_container_out)\<close>: other values leave the format uninitialised.\<close>

definition container_format :: "int \<Rightarrow> t_mc_format option" where
  "container_format media_container_out =
     (if media_container_out = 0 then Some MC_FORM_DVR_NATIVE
      else if media_container_out = 1 then Some MC_FORM_MKV else None)"

section \<open>One frame\<close>

definition frame_output ::
    "byte list \<Rightarrow> dvrcontrol_t \<Rightarrow> t_mc_format \<Rightarrow> t_mc_format \<Rightarrow> byte list \<Rightarrow> conv \<Rightarrow> (byte list \<times> conv) option" where
  "frame_output VERSION dvrctl mc_format_out mc_format_in frame cv =
     (if mc_format_out = MC_FORM_MKV
      then convert_into VERSION (dvrcontrol.truncate dvrctl) mc_format_in STREAM_BUFFER_LEN frame cv
      else do { sbuf \<leftarrow> wr_slice (cv_sbuf cv) 0 frame; Some (frame, cv\<lparr>cv_sbuf := sbuf\<rparr>) })"

definition record_frame ::
    "byte list \<Rightarrow> dvrcontrol_t \<Rightarrow> t_mc_format \<Rightarrow> t_mc_format \<Rightarrow> byte list \<Rightarrow> recording \<Rightarrow> (bool \<times> recording) option" where
  "record_frame VERSION dvrctl mc_format_out mc_format_in frame st =
     do {
       (outbuf, conv1) \<leftarrow> frame_output VERSION dvrctl mc_format_out mc_format_in frame (rc_conv st);
       let st1 = st\<lparr>rc_conv := write_out outbuf conv1\<rparr>;
       if cv_outfwrite_ret (rc_conv st1) \<noteq> 0 then Some (True, st1)
       else
         let st2 = look st1
         in Some (fl_terminate_nicely (rc_flags st2) \<or> fl_sigpipe (rc_flags st2) \<or> fl_sigchld (rc_flags st2), st2)
     }"

section \<open>The container is identified\<close>

datatype identified = Identified t_mc_format | Not_Readable | Not_Polled | Still_Waiting

fun record_identify ::
    "(errno + pollflag list) list \<Rightarrow> dstf \<Rightarrow> recording \<Rightarrow>
     (identified \<times> (errno + pollflag list) list \<times> dstf \<times> recording) option" where
  "record_identify [] q st =
     (if size_sub (sq_maxlen q) (sq_len q) \<ge> 2 * STREAM_BUFFER_MAXPIPEREAD then Some (Still_Waiting, [], q, st)
      else Some (Identified MC_FORM_DVR_UNKNOWN, [], q, st))"
| "record_identify (p # ps) q st =
     (if size_sub (sq_maxlen q) (sq_len q) \<ge> 2 * STREAM_BUFFER_MAXPIPEREAD then
        (if poll_pipe_read p \<ge> 0 then
           (case sys_read STREAM_BUFFER_MAXPIPEREAD (rc_pipe st) of
              (Inl e, es) \<Rightarrow> Some (Not_Readable, ps, q, st\<lparr>rc_pipe := es\<rparr>)
            | (Inr piece, es) \<Rightarrow>
                do {
                  sbuf \<leftarrow> wr_slice (cv_sbuf (rc_conv st)) 0 piece;
                  let st1 = st\<lparr>rc_pipe := es, rc_conv := (rc_conv st)\<lparr>cv_sbuf := sbuf\<rparr>\<rparr>;
                  if piece = [] then record_identify ps q st1
                  else do {
                    q' \<leftarrow> dstf_append piece q;
                    window \<leftarrow> rd_slice (sq q') (int (sq_offs q')) (sq_len q');
                    fmt \<leftarrow> identify_mc_format window (sq_len q');
                    if fmt \<noteq> MC_FORM_DVR_UNKNOWN then Some (Identified fmt, ps, q', st1)
                    else record_identify ps q' st1
                  }
                })
         else Some (Not_Polled, ps, q, st))
      else Some (Identified MC_FORM_DVR_UNKNOWN, p # ps, q, st))"

declare record_identify.simps [simp del]

section \<open>The loop\<close>

text \<open>Why the loop ended; the last case is an inner loop that goes on without end.\<close>

datatype record_end =
  Unreadable | Unpolled | Terminated | Child_Died | Deframing_Broke int | Conversion_Broke int | Writing_Broke int | Spinning

definition burst_end :: "int \<Rightarrow> recording \<Rightarrow> record_end option" where
  "burst_end dstf_ret st =
     (if fl_terminate_nicely (rc_flags st) then Some Terminated
      else if fl_sigchld (rc_flags st) then Some Child_Died
      else if dstf_ret < 0 then Some (Deframing_Broke dstf_ret)
      else if cv_dtconv_ret (rc_conv st) < 0 then Some (Conversion_Broke (cv_dtconv_ret (rc_conv st)))
      else if cv_outfwrite_ret (rc_conv st) \<noteq> 0 then Some (Writing_Broke (cv_outfwrite_ret (rc_conv st)))
      else None)"

text \<open>One turn; \<open>fuel\<close> bounds the turns of the inner loop.\<close>

definition record_turn ::
    "byte list \<Rightarrow> dvrcontrol_t \<Rightarrow> t_mc_format \<Rightarrow> t_mc_format \<Rightarrow> nat \<Rightarrow> errno + pollflag list \<Rightarrow> dstf \<times> recording \<Rightarrow>
     (record_end option \<times> dstf \<times> recording) option" where
  "record_turn VERSION dvrctl mc_format_out mc_format_in fuel p s =
     (let (q, st) = s
      in if poll_pipe_read p \<ge> 0 then
           (case sys_read STREAM_BUFFER_MAXPIPEREAD (rc_pipe st) of
              (Inl e, es) \<Rightarrow> Some (Some Unreadable, q, st\<lparr>rc_pipe := es\<rparr>)
            | (Inr piece, es) \<Rightarrow>
                do {
                  sbuf \<leftarrow> wr_slice (cv_sbuf (rc_conv st)) 0 piece;
                  (ended, q', st') \<leftarrow>
                    drain (deframe_call mc_format_in) STREAM_BUFFER_LEN (record_frame VERSION dvrctl mc_format_out mc_format_in) fuel
                      piece (length piece)
                      (q, st\<lparr>rc_pipe := es, rc_conv := (rc_conv st)\<lparr>cv_sbuf := sbuf, cv_dtconv_ret := 0, cv_outfwrite_ret := 0\<rparr>\<rparr>);
                  (case ended of
                     None \<Rightarrow> Some (Some Spinning, q', st')
                   | Some dstf_ret \<Rightarrow> let st2 = look st' in Some (burst_end dstf_ret st2, q', st2))
                })
         else Some (Some Unpolled, q, st))"

definition start_conv :: "dvrcontrol_t \<Rightarrow> t_mc_format \<Rightarrow> t_mc_parms \<Rightarrow> t_mc_tsproc \<Rightarrow> byte list \<Rightarrow> byte list \<Rightarrow> outfile \<Rightarrow> conv" where
  "start_conv dvrctl mc_format_out parms0 tsc0 sbuf0 sbuf_20 fd =
     \<lparr>cv_parms = mc_init parms0 mc_format_out (dc_ntsc_exact_60hz dvrctl),
      cv_tsc = (if dc_tsproc dvrctl \<noteq> TSPROC_NONE then dt_tsproc_init tsc0 else tsc0), cv_sbuf = sbuf0, cv_sbuf_2 = sbuf_20,
      cv_outfile = fd, cv_header_pending = True, cv_dtconv_ret = 0, cv_outfwrite_ret = 0\<rparr>"

text \<open>
  The whole function, in the parent. \<open>forked\<close>: whether the intermediate process could be started;
  \<open>outfile\<close> and \<open>dstf_mem\<close> are \<open>None\<close> when the file cannot be opened and when there is no memory;
  \<open>parms0\<close>, \<open>tsc0\<close>, \<open>sbuf0\<close> and \<open>sbuf_20\<close> are what the allocations and the stack hold. The result is
  the code (\<open>None\<close> while it runs), why the loop ended, and the state.
\<close>

definition stream_media_dvr_to_file ::
    "byte list \<Rightarrow> dvrcontrol_t \<Rightarrow> int \<Rightarrow> nat \<Rightarrow> bool \<Rightarrow> outfile option \<Rightarrow> byte list option \<Rightarrow>
     t_mc_parms \<Rightarrow> t_mc_tsproc \<Rightarrow> byte list \<Rightarrow> byte list \<Rightarrow> sht_flags \<Rightarrow> signal list list \<Rightarrow>
     (errno + pollflag list) list \<Rightarrow> rd_event list \<Rightarrow>
     (int option \<times> record_end option \<times> recording option) option" where
  "stream_media_dvr_to_file VERSION dvrctl media_container_out fuel forked outfile dstf_mem parms0 tsc0 sbuf0 sbuf_20
       flags0 signals0 polls fd_read =
     (if \<not> forked then Some (Some 6, None, None)
      else
     (case outfile of None \<Rightarrow> Some (Some 4, None, None)
      | Some fd \<Rightarrow>
     (case dstf_init dstf_mem of None \<Rightarrow> Some (Some 7, None, None)
      | Some dstf \<Rightarrow>
          do {
            mc_format_out \<leftarrow> container_format media_container_out;
            let st0 = \<lparr>rc_pipe = fd_read, rc_flags = flags0, rc_signals = signals0,
              rc_conv = start_conv dvrctl mc_format_out parms0 tsc0 sbuf0 sbuf_20 fd\<rparr>;
            (found, polls1, q, st1) \<leftarrow> record_identify polls dstf st0;
            (case found of
               Not_Readable \<Rightarrow> Some (Some 0, Some Unreadable, Some st1)
             | Not_Polled \<Rightarrow> Some (Some 0, Some Unpolled, Some st1)
             | Still_Waiting \<Rightarrow> Some (None, None, Some st1)
             | Identified fmt \<Rightarrow>
                 do {
                   let mc_format_in = (if fmt = MC_FORM_DVR_UNKNOWN then MC_FORM_DHAV else fmt);
                   (ended, _, st) \<leftarrow> turns (record_turn VERSION dvrctl mc_format_out mc_format_in fuel) polls1 (q, st1);
                   Some (case ended of None \<Rightarrow> None | Some Spinning \<Rightarrow> None | _ \<Rightarrow> Some 0, ended, Some st)
                 })
          })))"

section \<open>Undisturbed recordings\<close>

definition quiet :: "recording \<Rightarrow> bool" where
  "quiet st \<longleftrightarrow> \<not> fl_terminate_nicely (rc_flags st) \<and> \<not> fl_sigpipe (rc_flags st) \<and> \<not> fl_sigchld (rc_flags st) \<and>
     (\<forall>sns \<in> set (rc_signals st). sns = [])"

lemma look_quiet:
  "quiet st \<Longrightarrow> quiet (look st) \<and> rc_conv (look st) = rc_conv st \<and> rc_pipe (look st) = rc_pipe st \<and> rc_flags (look st) = rc_flags st"
  by (auto simp: quiet_def look_def split: list.splits)

text \<open>
  The contract of a mode of recording, whichever container is written: while it is \<open>ready\<close> for the
  frames \<open>ms\<close> the next one is written without complaint, and \<open>made\<close> says what has been added to the
  file. The buffer may be overwritten in between.
\<close>

locale recording_mode =
  fixes VERSION :: "byte list" and dvrctl :: dvrcontrol_t and mc_format_out :: t_mc_format
    and ready :: "media list \<Rightarrow> conv \<Rightarrow> bool"
    and made :: "media list \<Rightarrow> conv \<Rightarrow> conv \<Rightarrow> bool"
  assumes output_ready: "ready (m # ms) cv \<Longrightarrow> cv_dtconv_ret cv = 0 \<Longrightarrow>
      \<exists>bs cv1. frame_output VERSION dvrctl mc_format_out MC_FORM_DHAV (media_bytes m) cv = Some (bs, cv1) \<and>
        ready ms (write_out bs cv1) \<and> made [m] cv (write_out bs cv1) \<and>
        cv_dtconv_ret (write_out bs cv1) = 0 \<and> cv_outfwrite_ret (write_out bs cv1) = 0"
    and ready_buffer: "ready ms cv \<Longrightarrow> length (cv_sbuf cv) = STREAM_BUFFER_LEN"
    and ready_load: "ready ms cv \<Longrightarrow> length sbuf = STREAM_BUFFER_LEN \<Longrightarrow>
      ready ms (cv\<lparr>cv_sbuf := sbuf, cv_dtconv_ret := i, cv_outfwrite_ret := j\<rparr>)"
    and made_nothing: "made [] cv (cv\<lparr>cv_sbuf := sbuf, cv_dtconv_ret := i, cv_outfwrite_ret := j\<rparr>)"
    and made_append: "made ms cv cv1 \<Longrightarrow> made ms' cv1 cv2 \<Longrightarrow> made (ms @ ms') cv cv2"
begin

lemma frames_recorded:
  assumes "ready (ms @ ms') (rc_conv st)" "quiet st" "cv_dtconv_ret (rc_conv st) = 0" "cv_outfwrite_ret (rc_conv st) = 0"
  shows "\<exists>st'. consume_all (record_frame VERSION dvrctl mc_format_out MC_FORM_DHAV) (map media_bytes ms) st = Some st' \<and>
    ready ms' (rc_conv st') \<and> made ms (rc_conv st) (rc_conv st') \<and> quiet st' \<and> rc_pipe st' = rc_pipe st \<and>
    cv_dtconv_ret (rc_conv st') = 0 \<and> cv_outfwrite_ret (rc_conv st') = 0"
  using assms
proof (induction ms arbitrary: st)
  case Nil
  have "(rc_conv st)\<lparr>cv_sbuf := cv_sbuf (rc_conv st), cv_dtconv_ret := cv_dtconv_ret (rc_conv st),
      cv_outfwrite_ret := cv_outfwrite_ret (rc_conv st)\<rparr> = rc_conv st" by simp
  then have "made [] (rc_conv st) (rc_conv st)"
    using made_nothing [where cv = "rc_conv st" and sbuf = "cv_sbuf (rc_conv st)" and i = "cv_dtconv_ret (rc_conv st)"
        and j = "cv_outfwrite_ret (rc_conv st)"] by metis
  then show ?case using Nil by simp
next
  case (Cons m ms)
  obtain bs cv1 where o: "frame_output VERSION dvrctl mc_format_out MC_FORM_DHAV (media_bytes m) (rc_conv st) = Some (bs, cv1)"
      "ready (ms @ ms') (write_out bs cv1)" "made [m] (rc_conv st) (write_out bs cv1)"
      "cv_dtconv_ret (write_out bs cv1) = 0" "cv_outfwrite_ret (write_out bs cv1) = 0"
    using output_ready [of m "ms @ ms'" "rc_conv st"] Cons.prems(1,3) by auto
  define st1 where "st1 = look (st\<lparr>rc_conv := write_out bs cv1\<rparr>)"
  have "quiet (st\<lparr>rc_conv := write_out bs cv1\<rparr>)" using Cons.prems(2) by (simp add: quiet_def)
  from look_quiet [OF this] have
    l: "quiet st1" "rc_conv st1 = write_out bs cv1" "rc_pipe st1 = rc_pipe st" by (simp_all add: st1_def)
  have "record_frame VERSION dvrctl mc_format_out MC_FORM_DHAV (media_bytes m) st = Some (False, st1)"
    using l(1) by (simp add: record_frame_def o(1,5) st1_def [symmetric] quiet_def)
  moreover obtain st' where "consume_all (record_frame VERSION dvrctl mc_format_out MC_FORM_DHAV) (map media_bytes ms) st1 = Some st'"
      "ready ms' (rc_conv st')" "made ms (rc_conv st1) (rc_conv st')" "quiet st'" "rc_pipe st' = rc_pipe st1"
      "cv_dtconv_ret (rc_conv st') = 0" "cv_outfwrite_ret (rc_conv st') = 0"
    using Cons.IH [of st1] l o(2,4,5) by auto
  ultimately show ?case
    using l(2,3) made_append [OF o(3), of ms "rc_conv st'"] by (auto simp: consume_all_Cons)
qed

lemma burst_recorded:
  assumes q: "dstf_inv q" "sq_maxlen q = 1000000" "length piece \<le> dstf_room q" "length piece \<le> STREAM_BUFFER_MAXPIPEREAD"
    and fuel: "1000000 \<le> fuel" and good: "poll_pipe_read p \<ge> 0"
    and read: "sys_read STREAM_BUFFER_MAXPIPEREAD (rc_pipe st) = (Inr piece, es)"
    and frames: "dhav_deframe 1000000 (dstf_queue q @ piece) = Some (map media_bytes ms, r)"
    and st: "ready (ms @ ms') (rc_conv st)" "quiet st"
  shows "\<exists>q' st'. record_turn VERSION dvrctl mc_format_out MC_FORM_DHAV fuel p (q, st) = Some (None, q', st') \<and>
    dstf_inv q' \<and> dstf_queue q' = r \<and> sq_maxlen q' = 1000000 \<and> ready ms' (rc_conv st') \<and>
    made ms (rc_conv st) (rc_conv st') \<and> quiet st' \<and> rc_pipe st' = es"
proof -
  have "0 + length piece \<le> length (cv_sbuf (rc_conv st))"
    using q(4) ready_buffer [OF st(1)] by (simp add: STREAM_BUFFER_MAXPIPEREAD_def STREAM_BUFFER_LEN_def)
  from wr_slice_of_nat [OF this] obtain sbuf where sb: "wr_slice (cv_sbuf (rc_conv st)) 0 piece = Some sbuf" by auto
  from wr_slice_length [OF sb] ready_buffer [OF st(1)] sb have
    sbuf: "wr_slice (cv_sbuf (rc_conv st)) 0 piece = Some sbuf" "length sbuf = STREAM_BUFFER_LEN" by simp_all
  define st1 where "st1 = st\<lparr>rc_pipe := es, rc_conv := (rc_conv st)\<lparr>cv_sbuf := sbuf, cv_dtconv_ret := 0, cv_outfwrite_ret := 0\<rparr>\<rparr>"
  have r1: "ready (ms @ ms') (rc_conv st1)" "made [] (rc_conv st) (rc_conv st1)" "quiet st1"
    using ready_load [OF st(1) sbuf(2), where i = 0 and j = 0] made_nothing [where cv = "rc_conv st" and sbuf = sbuf and i = 0 and j = 0] st(2) by (simp_all add: st1_def quiet_def)
  obtain st2 where st2: "consume_all (record_frame VERSION dvrctl mc_format_out MC_FORM_DHAV) (map media_bytes ms) st1 = Some st2"
      "ready ms' (rc_conv st2)" "made ms (rc_conv st1) (rc_conv st2)" "quiet st2" "rc_pipe st2 = es"
      "cv_dtconv_ret (rc_conv st2) = 0" "cv_outfwrite_ret (rc_conv st2) = 0"
    using frames_recorded [OF r1(1,3)] by (auto simp: st1_def)
  have k: "(1000000 :: nat) \<le> STREAM_BUFFER_LEN" by (simp add: STREAM_BUFFER_LEN_def)
  have enough: "length (dstf_queue q @ piece) \<le> fuel"
    using q(1-3) fuel length_dstf_queue [of q] dstf_inv_bounds [of q] by (auto simp: dstf_room_def)
  from dhav.drain_delivers [OF dhav_deframe_drained [OF frames k] q(2,1,3) enough st2(1)] obtain q' where
    d: "drain dstf_process_dhav_stream_to_frames STREAM_BUFFER_LEN (record_frame VERSION dvrctl mc_format_out MC_FORM_DHAV) fuel
      piece (length piece) (q, st1) = Some (Some 0, q', st2)" "dstf_inv q'" "dstf_queue q' = r" "sq_maxlen q' = 1000000"
    by blast
  have l: "quiet (look st2)" "rc_conv (look st2) = rc_conv st2" "rc_pipe (look st2) = es" "rc_flags (look st2) = rc_flags st2"
    using look_quiet [OF st2(4)] st2(5) by simp_all
  have "burst_end 0 (look st2) = None" using l(2,4) st2(4,6,7) by (simp add: burst_end_def quiet_def)
  then have "record_turn VERSION dvrctl mc_format_out MC_FORM_DHAV fuel p (q, st) = Some (None, q', look st2)"
    using d(1) good read sbuf(1) by (simp add: record_turn_def deframe_call_def st1_def)
  then show ?thesis
    using d(2-4) l st2(2) made_append [OF r1(2) st2(3)] by (intro exI [of _ q'] exI [of _ "look st2"]) simp
qed

lemma turns_recorded:
  assumes "dstf_inv q" "sq_maxlen q = 1000000" "1000000 \<le> fuel"
    and "\<forall>p \<in> set ps. poll_pipe_read p \<ge> 0" "poll_pipe_read hup < 0"
    and "rc_pipe st = map RdBytes pieces" "\<forall>b \<in> set pieces. length b \<le> STREAM_BUFFER_MAXPIPEREAD"
    and "length pieces < length ps \<or> pieces = [] \<and> ms = []"
    and "dhav_deframe 1000000 (dstf_queue q @ concat pieces) = Some (map media_bytes ms, left)"
    and "\<forall>zs ys gs r. concat pieces = zs @ ys \<longrightarrow> dhav_deframe 1000000 (dstf_queue q @ zs) = Some (gs, r) \<longrightarrow> length r \<le> 750000"
    and "STREAM_BUFFER_MAXPIPEREAD \<le> dstf_room q" "ready ms (rc_conv st)" "quiet st"
  shows "\<exists>q' st'. turns (record_turn VERSION dvrctl mc_format_out MC_FORM_DHAV fuel) (ps @ [hup]) (q, st) = Some (Some Unpolled, q', st') \<and>
    (made ms (rc_conv st) (rc_conv st') \<or> ms = [] \<and> st' = st)"
  using assms(1,2,4,6-13)
proof (induction ps arbitrary: q st pieces ms)
  case Nil
  then have "ms = []" by simp
  moreover have "record_turn VERSION dvrctl mc_format_out MC_FORM_DHAV fuel hup (q, st) = Some (Some Unpolled, q, st)"
    using assms(5) by (simp add: record_turn_def)
  ultimately show ?case by simp
next
  case (Cons p ps)
  define piece where "piece = concat (take 1 pieces)"
  define later where "later = drop 1 pieces"
  have cut: "concat pieces = piece @ concat later"
    by (cases pieces) (simp_all add: piece_def later_def)
  have small: "length piece \<le> STREAM_BUFFER_MAXPIPEREAD"
    using Cons.prems(5) by (cases pieces) (simp_all add: piece_def)
  have read: "sys_read STREAM_BUFFER_MAXPIPEREAD (rc_pipe st) = (Inr piece, map RdBytes later)"
    using Cons.prems(4,5) by (cases pieces) (simp_all add: piece_def later_def)
  have "do { (gs, r) \<leftarrow> dhav_deframe 1000000 (dstf_queue q @ piece);
      map_option (\<lambda>(hs, r'). (gs @ hs, r')) (dhav_deframe 1000000 (r @ concat later)) } = Some (map media_bytes ms, left)"
    using Cons.prems(7) dhav_deframe_append [of 1000000 "dstf_queue q @ piece" "concat later"] cut by simp
  then obtain gs r hs where first: "dhav_deframe 1000000 (dstf_queue q @ piece) = Some (gs, r)"
    and second: "dhav_deframe 1000000 (r @ concat later) = Some (hs, left)" "map media_bytes ms = gs @ hs"
    by (auto simp: bind_Some_iff)
  obtain ms1 ms2 where ms: "ms = ms1 @ ms2" "gs = map media_bytes ms1" "hs = map media_bytes ms2"
    using second(2) by (auto simp: map_eq_append_conv)
  have room: "length piece \<le> dstf_room q" using small Cons.prems(9) by simp
  have good: "poll_pipe_read p \<ge> 0" using Cons.prems(3) by simp
  obtain q1 st1 where t: "record_turn VERSION dvrctl mc_format_out MC_FORM_DHAV fuel p (q, st) = Some (None, q1, st1)"
      "dstf_inv q1" "dstf_queue q1 = r" "sq_maxlen q1 = 1000000" "ready ms2 (rc_conv st1)"
      "made ms1 (rc_conv st) (rc_conv st1)" "quiet st1" "rc_pipe st1 = map RdBytes later"
    using burst_recorded [OF Cons.prems(1,2) room small assms(3) good read first [unfolded ms(2)]]
      Cons.prems(10,11) ms(1) by blast
  have settled: "dhav_deframe 1000000 r = Some ([], r)" by (rule dhav_deframe_settled [OF first])
  have rest: "length later < length ps \<or> later = [] \<and> ms2 = []"
  proof (cases pieces)
    case Nil
    then show ?thesis using second(1) settled ms(3) by (simp add: later_def)
  next
    case (Cons b bs)
    then show ?thesis using Cons.prems(6) by (auto simp: later_def)
  qed
  have short: "length r \<le> 750000" using Cons.prems(8) cut first by blast
  have bound: "length r' \<le> 750000" if "concat later = zs @ ys" "dhav_deframe 1000000 (dstf_queue q1 @ zs) = Some (gs', r')" for zs ys gs' r'
    using Cons.prems(8) [rule_format, of "piece @ zs" ys "gs @ gs'" r'] cut that first t(3)
      dhav_deframe_append [of 1000000 "dstf_queue q @ piece" zs] by simp
  have "\<exists>q' st'. turns (record_turn VERSION dvrctl mc_format_out MC_FORM_DHAV fuel) (ps @ [hup]) (q1, st1) = Some (Some Unpolled, q', st') \<and>
      (made ms2 (rc_conv st1) (rc_conv st') \<or> ms2 = [] \<and> st' = st1)"
  proof (rule Cons.IH [OF t(2,4) _ t(8) _ rest])
    show "STREAM_BUFFER_MAXPIPEREAD \<le> dstf_room q1"
      using short t(2-4) length_dstf_queue [OF t(2)] by (auto simp: dstf_room_def STREAM_BUFFER_MAXPIPEREAD_def)
    show "\<forall>b \<in> set later. length b \<le> STREAM_BUFFER_MAXPIPEREAD"
      using Cons.prems(5) by (auto simp: later_def dest: in_set_dropD)
  qed (use Cons.prems(3) second(1) ms(3) t bound in auto)
  then show ?case using t(1,6) made_append [OF t(6)] ms(1) by auto
qed

end

section \<open>The container of an undisturbed recording\<close>

lemma exI6: "P u v w x y z \<Longrightarrow> \<exists>u v w x y z. P u v w x y z"
  by blast

lemma record_identify_loads:
  assumes "dstf_inv q" "sq_offs q = 0" "sq_maxlen q = 1000000" "STREAM_BUFFER_MAXPIPEREAD \<le> dstf_room q"
    and "\<nexists>i. occurs_at str_Dahua_ZH (dstf_queue q @ concat pieces) i"
    and "\<exists>i. occurs_at str_DHAV (dstf_queue q @ concat pieces) i" "\<exists>i. occurs_at str_dhav (dstf_queue q @ concat pieces) i"
    and "\<forall>p \<in> set ps. poll_pipe_read p \<ge> 0" "pieces \<noteq> []" "length pieces < length ps"
    and "rc_pipe st = map RdBytes pieces" "\<forall>b \<in> set pieces. b \<noteq> [] \<and> length b \<le> STREAM_BUFFER_MAXPIPEREAD"
    and "length (cv_sbuf (rc_conv st)) = STREAM_BUFFER_LEN"
  shows "\<exists>fmt ps' q' sbuf got pieces'. record_identify (ps @ qs) q st =
      Some (Identified fmt, ps' @ qs, q', st\<lparr>rc_pipe := map RdBytes pieces', rc_conv := (rc_conv st)\<lparr>cv_sbuf := sbuf\<rparr>\<rparr>) \<and>
    fmt \<in> {MC_FORM_DHAV, MC_FORM_DVR_UNKNOWN} \<and> pieces = got @ pieces' \<and> dstf_inv q' \<and> dstf_queue q' = dstf_queue q @ concat got \<and>
    sq_maxlen q' = 1000000 \<and> STREAM_BUFFER_MAXPIPEREAD \<le> dstf_room q' \<and> length pieces' < length ps' \<and> set ps' \<subseteq> set ps \<and>
    length sbuf = STREAM_BUFFER_LEN"
  using assms
proof (induction pieces arbitrary: ps q st)
  case (Cons piece pieces)
  obtain p ps1 where ps: "ps = p # ps1" using Cons.prems(10) by (cases ps) auto
  have room: "size_sub (sq_maxlen q) (sq_len q) = dstf_room q"
    using Cons.prems(1) by (auto simp: dstf_room_def dstf_inv_def intro: size_sub_ge)
  show ?case
  proof (cases "2 * STREAM_BUFFER_MAXPIPEREAD \<le> dstf_room q")
    case False
    have "st\<lparr>rc_pipe := map RdBytes (piece # pieces), rc_conv := (rc_conv st)\<lparr>cv_sbuf := cv_sbuf (rc_conv st)\<rparr>\<rparr> = st"
      unfolding Cons.prems(11) [symmetric] by simp
    then have "record_identify (ps @ qs) q st = Some (Identified MC_FORM_DVR_UNKNOWN, ps @ qs, q,
        st\<lparr>rc_pipe := map RdBytes (piece # pieces), rc_conv := (rc_conv st)\<lparr>cv_sbuf := cv_sbuf (rc_conv st)\<rparr>\<rparr>)"
      using False by (simp only:) (simp add: ps room record_identify.simps)
    then show ?thesis using Cons.prems
      by (intro exI6 [of _ MC_FORM_DVR_UNKNOWN ps q "cv_sbuf (rc_conv st)" "[]" "piece # pieces"]) simp
  next
    case True
    have piece: "piece \<noteq> []" "length piece \<le> STREAM_BUFFER_MAXPIPEREAD" using Cons.prems(12) by simp_all
    have read: "sys_read STREAM_BUFFER_MAXPIPEREAD (rc_pipe st) = (Inr piece, map RdBytes pieces)"
      using Cons.prems(11) piece(2) by simp
    have "0 + length piece \<le> length (cv_sbuf (rc_conv st))"
      using piece(2) Cons.prems(13) by (simp add: STREAM_BUFFER_MAXPIPEREAD_def STREAM_BUFFER_LEN_def)
    from wr_slice_of_nat [OF this] obtain sbuf where sb: "wr_slice (cv_sbuf (rc_conv st)) 0 piece = Some sbuf" by auto
    have sbuf: "length sbuf = STREAM_BUFFER_LEN" using wr_slice_length [OF sb] Cons.prems(13) by simp
    define st1 where "st1 = st\<lparr>rc_pipe := map RdBytes pieces, rc_conv := (rc_conv st)\<lparr>cv_sbuf := sbuf\<rparr>\<rparr>"
    have fits: "sq_offs q + sq_len q + length piece \<le> sq_maxlen q"
      using True piece(2) Cons.prems(2,3) dstf_inv_bounds [OF Cons.prems(1)]
      by (auto simp: dstf_room_def STREAM_BUFFER_MAXPIPEREAD_def)
    obtain q' where q': "dstf_append piece q = Some q'" "dstf_inv q'" "dstf_queue q' = dstf_queue q @ piece"
      "sq_maxlen q' = 1000000" "sq_offs q' = 0" "sq_len q' = sq_len q + length piece"
      using dstf_append_ok [OF Cons.prems(1) fits] Cons.prems(2,3) by auto
    have window: "rd_slice (sq q') (int (sq_offs q')) (sq_len q') = Some (dstf_queue q')"
      using dstf_read [OF q'(2), of 0 "sq_len q'"] length_dstf_queue [OF q'(2)] by simp
    have len: "length (dstf_queue q') = sq_len q'" by (rule length_dstf_queue [OF q'(2)])
    have none: "\<nexists>i. occurs_at str_Dahua_ZH (dstf_queue q') i"
      using Cons.prems(5) occurs_at_append [of str_Dahua_ZH "dstf_queue q'" _ "concat pieces"] q'(3) by auto
    have "length (dstf_queue q') < 2 ^ 64" using dstf_inv_bounds [OF q'(2)] len by simp
    note decides = identify_decides [OF this]
    define fmt where "fmt = (if (\<exists>i. occurs_at str_DHAV (dstf_queue q') i) \<and> (\<exists>j. occurs_at str_dhav (dstf_queue q') j)
      then MC_FORM_DHAV else MC_FORM_DVR_UNKNOWN)"
    have fmt: "identify_mc_format (dstf_queue q') (sq_len q') = Some fmt"
      using decides none unfolding len fmt_def by auto
    have kinds: "fmt \<in> {MC_FORM_DHAV, MC_FORM_DVR_UNKNOWN}" by (simp add: fmt_def)
    have room': "STREAM_BUFFER_MAXPIPEREAD \<le> dstf_room q'" using True q'(4,6) piece(2) Cons.prems(3) by (auto simp: dstf_room_def)
    have good: "poll_pipe_read p \<ge> 0" using Cons.prems(8) by (simp add: ps)
    have step: "record_identify (ps @ qs) q st =
        (if fmt \<noteq> MC_FORM_DVR_UNKNOWN then Some (Identified fmt, ps1 @ qs, q', st1) else record_identify (ps1 @ qs) q' st1)"
      using True good read sb piece(1) q'(1) window fmt by (simp add: ps room st1_def record_identify.simps)
    show ?thesis
    proof (cases "fmt = MC_FORM_DVR_UNKNOWN")
      case False
      then show ?thesis using step q' room' Cons.prems(10) sbuf kinds
        by (intro exI6 [of _ fmt ps1 q' sbuf "[piece]" pieces]) (auto simp: st1_def ps)
    next
      case unknown: True
      have more: "pieces \<noteq> []"
      proof
        assume "pieces = []"
        then have "fmt = MC_FORM_DHAV" using Cons.prems(6,7) q'(3) by (simp add: fmt_def)
        then show False using unknown by simp
      qed
      have "\<exists>fmt ps' q'' sbuf' got pieces'. record_identify (ps1 @ qs) q' st1 =
          Some (Identified fmt, ps' @ qs, q'', st1\<lparr>rc_pipe := map RdBytes pieces', rc_conv := (rc_conv st1)\<lparr>cv_sbuf := sbuf'\<rparr>\<rparr>) \<and>
        fmt \<in> {MC_FORM_DHAV, MC_FORM_DVR_UNKNOWN} \<and> pieces = got @ pieces' \<and> dstf_inv q'' \<and> dstf_queue q'' = dstf_queue q' @ concat got \<and>
        sq_maxlen q'' = 1000000 \<and> STREAM_BUFFER_MAXPIPEREAD \<le> dstf_room q'' \<and> length pieces' < length ps' \<and> set ps' \<subseteq> set ps1 \<and>
        length sbuf' = STREAM_BUFFER_LEN"
        by (rule Cons.IH [OF q'(2,5,4) room' _ _ _ _ more]) (use Cons.prems q'(3) ps sbuf in \<open>auto simp: st1_def\<close>)
      then obtain fmt' ps' q'' sbuf' got pieces' where ih: "record_identify (ps1 @ qs) q' st1 =
          Some (Identified fmt', ps' @ qs, q'', st1\<lparr>rc_pipe := map RdBytes pieces', rc_conv := (rc_conv st1)\<lparr>cv_sbuf := sbuf'\<rparr>\<rparr>)"
        "fmt' \<in> {MC_FORM_DHAV, MC_FORM_DVR_UNKNOWN}" "pieces = got @ pieces'" "dstf_inv q''" "dstf_queue q'' = dstf_queue q' @ concat got"
        "sq_maxlen q'' = 1000000" "STREAM_BUFFER_MAXPIPEREAD \<le> dstf_room q''" "length pieces' < length ps'" "set ps' \<subseteq> set ps1"
        "length sbuf' = STREAM_BUFFER_LEN" by blast
      show ?thesis
        by (intro exI6 [of _ fmt' ps' q'' sbuf' "piece # got" pieces'])
           (use step unknown ih q'(3) ps in \<open>auto simp: st1_def\<close>)
    qed
  qed
qed simp

section \<open>Whole recordings\<close>

lemma occurs_inside: "occurs_at s (xs @ s @ ys) (length xs)"
  by (simp add: occurs_at_def)

lemma media_identified:
  "\<exists>i. occurs_at str_DHAV (xs @ media_bytes m @ ys) i" "\<exists>i. occurs_at str_dhav (xs @ media_bytes m @ ys) i"
proof -
  obtain hdr body where "media_bytes m = dhav_wrap hdr body" by (auto simp: media_bytes_def dhav_media_def)
  then obtain n where w: "media_bytes m = str_DHAV @ hdr @ n @ body @ str_dhav @ n" by (auto simp: dhav_wrap_def Let_def)
  show "\<exists>i. occurs_at str_DHAV (xs @ media_bytes m @ ys) i"
    using occurs_inside [of str_DHAV xs "hdr @ n @ body @ str_dhav @ n @ ys"] by (auto simp: w)
  show "\<exists>i. occurs_at str_dhav (xs @ media_bytes m @ ys) i"
    using occurs_inside [of str_dhav "xs @ str_DHAV @ hdr @ n @ body" "n @ ys"] by (auto simp: w)
qed

lemma torn_identified:
  assumes "torn L xs (map media_bytes ms) p" "ms \<noteq> []"
  shows "\<exists>i. occurs_at str_DHAV xs i" "\<exists>i. occurs_at str_dhav xs i"
proof -
  obtain ys zs where "xs = ys @ media_bytes (hd ms) @ zs" using torn_contains [OF assms(1), of "media_bytes (hd ms)"] assms(2) by auto
  then show "\<exists>i. occurs_at str_DHAV xs i" "\<exists>i. occurs_at str_dhav xs i" using media_identified by simp_all
qed

definition undisturbed :: "sht_flags \<Rightarrow> signal list list \<Rightarrow> bool" where
  "undisturbed f sgs \<longleftrightarrow> \<not> fl_terminate_nicely f \<and> \<not> fl_sigpipe f \<and> \<not> fl_sigchld f \<and> (\<forall>sns \<in> set sgs. sns = [])"

context recording_mode
begin

lemma file_recorded:
  assumes out: "container_format n = Some mc_format_out"
    and ms: "ms \<noteq> []" "\<forall>m \<in> set ms. media_ok m"
    and input: "torn 750000 (concat pieces) (map media_bytes ms) p" "\<nexists>i. occurs_at str_Dahua_ZH (concat pieces) i"
      "\<forall>b \<in> set pieces. b \<noteq> [] \<and> length b \<le> STREAM_BUFFER_MAXPIPEREAD"
    and polls: "\<forall>p \<in> set ps. poll_pipe_read p \<ge> 0" "poll_pipe_read hup < 0" "length pieces < length ps"
    and mem: "length dstf_mem = 1000000" "1000000 \<le> fuel" and calm: "undisturbed f0 sgs"
    and start: "ready ms (start_conv dvrctl mc_format_out parms0 tsc0 sbuf0 sbuf_20 fd)"
  shows "\<exists>st. stream_media_dvr_to_file VERSION dvrctl n fuel True (Some fd) (Some dstf_mem) parms0 tsc0 sbuf0 sbuf_20 f0 sgs
      (ps @ [hup]) (map RdBytes pieces) = Some (Some 0, Some Unpolled, Some st) \<and>
    made ms (start_conv dvrctl mc_format_out parms0 tsc0 sbuf0 sbuf_20 fd) (rc_conv st)"
proof -
  let ?cv = "start_conv dvrctl mc_format_out parms0 tsc0 sbuf0 sbuf_20 fd"
  define st0 where "st0 = \<lparr>rc_pipe = map RdBytes pieces, rc_flags = f0, rc_signals = sgs, rc_conv = ?cv\<rparr>"
  obtain q0 where q0: "dstf_init (Some dstf_mem) = Some q0" "dstf_inv q0" "dstf_queue q0 = []" "sq_offs q0 = 0"
      "sq_maxlen q0 = 1000000" "dstf_room q0 = 1000000"
    using mem(1) by (auto simp: dstf_init_def dstf_inv_def dstf_queue_def dstf_room_def T_MC_PARMS_DHAV_STF_def)
  have "concat pieces \<noteq> []" using torn_contains [OF input(1), of "media_bytes (hd ms)"] ms media_bytes_frame(3) by fastforce
  then have some: "pieces \<noteq> []" by auto
  have "\<exists>fmt ps' q' sbuf got pieces'. record_identify (ps @ [hup]) q0 st0 =
      Some (Identified fmt, ps' @ [hup], q', st0\<lparr>rc_pipe := map RdBytes pieces', rc_conv := (rc_conv st0)\<lparr>cv_sbuf := sbuf\<rparr>\<rparr>) \<and>
    fmt \<in> {MC_FORM_DHAV, MC_FORM_DVR_UNKNOWN} \<and> pieces = got @ pieces' \<and> dstf_inv q' \<and> dstf_queue q' = dstf_queue q0 @ concat got \<and>
    sq_maxlen q' = 1000000 \<and> STREAM_BUFFER_MAXPIPEREAD \<le> dstf_room q' \<and> length pieces' < length ps' \<and> set ps' \<subseteq> set ps \<and>
    length sbuf = STREAM_BUFFER_LEN"
    by (rule record_identify_loads [OF q0(2,4,5) _ _ _ _ polls(1) some polls(3)])
       (use q0 input torn_identified [OF input(1) ms(1)] ready_buffer [OF start] in \<open>auto simp: st0_def STREAM_BUFFER_MAXPIPEREAD_def\<close>)
  then obtain fmt ps' q sbuf got pieces' where
    ident: "record_identify (ps @ [hup]) q0 st0 =
      Some (Identified fmt, ps' @ [hup], q, st0\<lparr>rc_pipe := map RdBytes pieces', rc_conv := (rc_conv st0)\<lparr>cv_sbuf := sbuf\<rparr>\<rparr>)"
      "fmt \<in> {MC_FORM_DHAV, MC_FORM_DVR_UNKNOWN}" "pieces = got @ pieces'" "dstf_inv q" "dstf_queue q = concat got"
      "sq_maxlen q = 1000000" "STREAM_BUFFER_MAXPIPEREAD \<le> dstf_room q" "length pieces' < length ps'" "set ps' \<subseteq> set ps"
      "length sbuf = STREAM_BUFFER_LEN"
    unfolding q0(3) by auto
  define st1 where "st1 = st0\<lparr>rc_pipe := map RdBytes pieces', rc_conv := (rc_conv st0)\<lparr>cv_sbuf := sbuf\<rparr>\<rparr>"
  have fmt: "(if fmt = MC_FORM_DVR_UNKNOWN then MC_FORM_DHAV else fmt) = MC_FORM_DHAV" using ident(2) by auto
  have load: "(rc_conv st1) = ?cv\<lparr>cv_sbuf := sbuf, cv_dtconv_ret := cv_dtconv_ret ?cv, cv_outfwrite_ret := cv_outfwrite_ret ?cv\<rparr>"
    by (simp add: st1_def st0_def)
  have ready1: "ready ms (rc_conv st1)" unfolding load by (rule ready_load [OF start ident(10)])
  have made1: "made [] ?cv (rc_conv st1)" unfolding load by (rule made_nothing)
  have quiet1: "quiet st1" using calm by (simp add: quiet_def undisturbed_def st1_def st0_def)
  have whole: "concat pieces = concat got @ concat pieces'" using ident(3) by simp
  have all: "dhav_deframe 1000000 (dstf_queue q @ concat pieces') = Some (map media_bytes ms, p)"
    using torn_media(1) [OF input(1)] whole ident(5) by simp
  have parts: "\<forall>zs ys gs r. concat pieces' = zs @ ys \<longrightarrow> dhav_deframe 1000000 (dstf_queue q @ zs) = Some (gs, r) \<longrightarrow> length r \<le> 750000"
  proof (intro allI impI)
    fix zs ys gs r assume "concat pieces' = zs @ ys" and d: "dhav_deframe 1000000 (dstf_queue q @ zs) = Some (gs, r)"
    then have "concat pieces = (dstf_queue q @ zs) @ ys" using whole ident(5) by simp
    from torn_media(3) [OF input(1) _ this d] show "length r \<le> 750000" by simp
  qed
  have "\<exists>q' st'. turns (record_turn VERSION dvrctl mc_format_out MC_FORM_DHAV fuel) (ps' @ [hup]) (q, st1) = Some (Some Unpolled, q', st') \<and>
      (made ms (rc_conv st1) (rc_conv st') \<or> ms = [] \<and> st' = st1)"
    by (rule turns_recorded [OF ident(4,6) mem(2) _ polls(2) _ _ _ all parts ident(7) ready1 quiet1])
       (use polls(1) ident(3,8,9) input(3) in \<open>auto simp: st1_def\<close>)
  then obtain q' st' where loop: "turns (record_turn VERSION dvrctl mc_format_out MC_FORM_DHAV fuel) (ps' @ [hup]) (q, st1) =
      Some (Some Unpolled, q', st')" "made ms (rc_conv st1) (rc_conv st')" using ms(1) by blast
  have "made ms ?cv (rc_conv st')" using made_append [OF made1 loop(2)] by simp
  moreover have "stream_media_dvr_to_file VERSION dvrctl n fuel True (Some fd) (Some dstf_mem) parms0 tsc0 sbuf0 sbuf_20 f0 sgs
      (ps @ [hup]) (map RdBytes pieces) = Some (Some 0, Some Unpolled, Some st')"
    using loop(1) fmt ident(1) by (simp add: stream_media_dvr_to_file_def q0(1) out st0_def [symmetric] st1_def [symmetric])
  ultimately show ?thesis by blast
qed

end

section \<open>The two containers\<close>

abbreviation rec_lens :: "nat \<times> nat" where
  "rec_lens \<equiv> (STREAM_BUFFER_LEN, STREAM_BUFFER_LEN)"

interpretation mkv_mode: recording_mode VERSION dvrctl MC_FORM_MKV "conv_ready rec_lens" converted
proof unfold_locales
  fix m ms cv assume "conv_ready rec_lens (m # ms) cv"
  from convert_into_media [OF this, of VERSION "dvrcontrol.truncate dvrctl"] show
    "\<exists>bs cv1. frame_output VERSION dvrctl MC_FORM_MKV MC_FORM_DHAV (media_bytes m) cv = Some (bs, cv1) \<and>
      conv_ready rec_lens ms (write_out bs cv1) \<and> converted [m] cv (write_out bs cv1) \<and>
      cv_dtconv_ret (write_out bs cv1) = 0 \<and> cv_outfwrite_ret (write_out bs cv1) = 0"
    by (simp add: frame_output_def STREAM_BUFFER_LEN_def)
qed (auto simp: conv_ready_def converted_append intro: converted_nothing)

definition native_ready :: "media list \<Rightarrow> conv \<Rightarrow> bool" where
  "native_ready ms cv \<longleftrightarrow> length (cv_sbuf cv) = STREAM_BUFFER_LEN \<and>
     (\<forall>m \<in> set ms. length (media_bytes m) \<le> STREAM_BUFFER_LEN) \<and>
     length (concat (map media_bytes ms)) \<le> of_room (cv_outfile cv)"

definition copied :: "media list \<Rightarrow> conv \<Rightarrow> conv \<Rightarrow> bool" where
  "copied ms cv cv' \<longleftrightarrow> of_written (cv_outfile cv') = of_written (cv_outfile cv) @ concat (map media_bytes ms)"

interpretation native_mode: recording_mode VERSION dvrctl MC_FORM_DVR_NATIVE native_ready copied
proof unfold_locales
  fix m ms cv assume r: "native_ready (m # ms) cv" "cv_dtconv_ret cv = 0"
  have "0 + length (media_bytes m) \<le> length (cv_sbuf cv)" using r(1) by (simp add: native_ready_def)
  from wr_slice_of_nat [OF this] obtain sbuf where sb: "wr_slice (cv_sbuf cv) 0 (media_bytes m) = Some sbuf" by auto
  have len: "length sbuf = STREAM_BUFFER_LEN" using wr_slice_length [OF sb] r(1) by (simp add: native_ready_def)
  have fits: "length (media_bytes m) \<le> of_room (cv_outfile cv)" using r(1) by (simp add: native_ready_def)
  show "\<exists>bs cv1. frame_output VERSION dvrctl MC_FORM_DVR_NATIVE MC_FORM_DHAV (media_bytes m) cv = Some (bs, cv1) \<and>
      native_ready ms (write_out bs cv1) \<and> copied [m] cv (write_out bs cv1) \<and>
      cv_dtconv_ret (write_out bs cv1) = 0 \<and> cv_outfwrite_ret (write_out bs cv1) = 0"
    using r len
    by (intro exI [of _ "media_bytes m"] exI [of _ "cv\<lparr>cv_sbuf := sbuf\<rparr>"])
       (auto simp: frame_output_def sb write_out_def outfile_write_ok [OF fits] native_ready_def copied_def)
qed (auto simp: native_ready_def copied_def)

section \<open>Properties\<close>

lemma native_recorded:
  assumes ms: "ms \<noteq> []" "\<forall>m \<in> set ms. media_ok m"
    and input: "torn 750000 (concat pieces) (map media_bytes ms) p" "\<nexists>i. occurs_at str_Dahua_ZH (concat pieces) i"
      "\<forall>b \<in> set pieces. b \<noteq> [] \<and> length b \<le> 250000"
    and polls: "\<forall>p \<in> set ps. poll_pipe_read p \<ge> 0" "poll_pipe_read hup < 0" "length pieces < length ps"
    and mem: "length dstf_mem = 1000000" "1000000 \<le> fuel" "length sbuf0 = 1000000"
    and calm: "undisturbed f0 sgs" and room: "length (concat (map media_bytes ms)) \<le> of_room fd"
  shows "\<exists>st. stream_media_dvr_to_file V dvrctl 0 fuel True (Some fd) (Some dstf_mem) parms0 tsc0 sbuf0 sbuf_20 f0 sgs
      (ps @ [hup]) (map RdBytes pieces) = Some (Some 0, Some Unpolled, Some st) \<and>
    of_written (cv_outfile (rc_conv st)) = of_written fd @ concat (map media_bytes ms)"
proof -
  have "native_ready ms (start_conv dvrctl MC_FORM_DVR_NATIVE parms0 tsc0 sbuf0 sbuf_20 fd)"
    using torn_media(2) [OF input(1)] mem(3) room by (fastforce simp: native_ready_def start_conv_def STREAM_BUFFER_LEN_def)
  from native_mode.file_recorded [OF _ ms input(1,2) _ polls mem(1,2) calm this, of 0 V] show ?thesis
    using input by (auto simp: container_format_def copied_def start_conv_def STREAM_BUFFER_MAXPIPEREAD_def)
qed

text \<open>
  C14: A live recording in the native container is a copy: whatever the cut of the stream into reads and
  the order of data and expired waits, and however many sessions with the recorder it took, each of
  them ending anywhere, the file has received exactly the complete frames, byte for byte, and the
  program ends with code 0.
\<close>
theorem live_native_copies:
  assumes ms: "ms \<noteq> []" "\<forall>m \<in> set ms. media_ok m"
    and input: "torn 750000 (concat pieces) (map media_bytes ms) p" "\<nexists>i. occurs_at str_Dahua_ZH (concat pieces) i"
      "\<forall>b \<in> set pieces. b \<noteq> [] \<and> length b \<le> 250000"
    and polls: "\<forall>p \<in> set ps. poll_pipe_read p \<ge> 0" "poll_pipe_read hup < 0" "length pieces < length ps"
    and mem: "length dstf_mem = 1000000" "1000000 \<le> fuel" "length sbuf0 = 1000000"
    and calm: "undisturbed f0 sgs" and room: "length (concat (map media_bytes ms)) \<le> of_room fd"
  shows "\<exists>st. stream_media_dvr_to_file V dvrctl 0 fuel True (Some fd) (Some dstf_mem) parms0 tsc0 sbuf0 sbuf_20 f0 sgs
      (ps @ [hup]) (map RdBytes pieces) = Some (Some 0, Some Unpolled, Some st) \<and>
    of_written (cv_outfile (rc_conv st)) = of_written fd @ concat (map media_bytes ms)"
  by (rule native_recorded [OF assms])

lemma mkv_recorded:
  assumes ms: "ms \<noteq> []" "md_key (hd ms)" "\<forall>m \<in> set ms. media_ok m"
    and input: "torn 750000 (concat pieces) (map media_bytes ms) p" "\<nexists>i. occurs_at str_Dahua_ZH (concat pieces) i"
      "\<forall>b \<in> set pieces. b \<noteq> [] \<and> length b \<le> 250000"
    and polls: "\<forall>p \<in> set ps. poll_pipe_read p \<ge> 0" "poll_pipe_read hup < 0" "length pieces < length ps"
    and mem: "length dstf_mem = 1000000" "1000000 \<le> fuel" "length sbuf0 = 1000000" "length sbuf_20 = 1000000"
    and calm: "undisturbed f0 sgs"
    and room: "420 + sum_list (map (\<lambda>m. 35 + length (md_payload m)) ms) \<le> of_room fd"
  shows "\<exists>st head cl ts.
    stream_media_dvr_to_file V dvrctl 1 fuel True (Some fd) (Some dstf_mem) parms0 tsc0 sbuf0 sbuf_20 f0 sgs
      (ps @ [hup]) (map RdBytes pieces) = Some (Some 0, Some Unpolled, Some st) \<and>
    of_written (cv_outfile (rc_conv st)) = of_written fd @ head @ cl \<and> length head = 420 \<and> length ts = length ms \<and>
    read_clusters (length ms) cl = Some (map (\<lambda>(t, m). (t, media_flag m, md_payload m)) (zip ts ms), [])"
proof -
  let ?cv = "start_conv dvrctl MC_FORM_MKV parms0 tsc0 sbuf0 sbuf_20 fd"
  have "conv_ready rec_lens ms ?cv"
    using ms mem room by (simp add: conv_ready_def start_conv_def STREAM_BUFFER_LEN_def)
  from mkv_mode.file_recorded [OF _ ms(1,3) input(1,2) _ polls mem(1,2) calm this, of 1 V] obtain st where
    st: "stream_media_dvr_to_file V dvrctl 1 fuel True (Some fd) (Some dstf_mem) parms0 tsc0 sbuf0 sbuf_20 f0 sgs
      (ps @ [hup]) (map RdBytes pieces) = Some (Some 0, Some Unpolled, Some st)" "converted ms ?cv (rc_conv st)"
    using input(3) by (auto simp: container_format_def STREAM_BUFFER_MAXPIPEREAD_def)
  obtain head cl ts where c: "of_written (cv_outfile (rc_conv st)) = of_written (cv_outfile ?cv) @ head @ cl"
      "length head = (if cv_header_pending ?cv \<and> ms \<noteq> [] then 420 else 0)" "length ts = length ms"
      "\<forall>xs. read_clusters (length ms) (cl @ xs) = Some (map (\<lambda>(t, m). (t, media_flag m, md_payload m)) (zip ts ms), xs)"
    using st(2) unfolding converted_def by blast
  from c(4) [rule_format, of "[]"] c(1-3) st(1) ms(1) show ?thesis by (auto simp: start_conv_def)
qed

text \<open>
  C4: A live recording in Matroska carries every frame: whatever the cut of the stream into reads and
  the order of data and expired waits, and however many sessions with the recorder it took, each of
  them ending anywhere, the file has received one main header and clusters that parse back to the
  key-frame flag and the payload of every complete frame of every session, in order.
\<close>
theorem live_mkv_converts:
  assumes ms: "ms \<noteq> []" "md_key (hd ms)" "\<forall>m \<in> set ms. media_ok m"
    and input: "torn 750000 (concat pieces) (map media_bytes ms) p" "\<nexists>i. occurs_at str_Dahua_ZH (concat pieces) i"
      "\<forall>b \<in> set pieces. b \<noteq> [] \<and> length b \<le> 250000"
    and polls: "\<forall>p \<in> set ps. poll_pipe_read p \<ge> 0" "poll_pipe_read hup < 0" "length pieces < length ps"
    and mem: "length dstf_mem = 1000000" "1000000 \<le> fuel" "length sbuf0 = 1000000" "length sbuf_20 = 1000000"
    and calm: "undisturbed f0 sgs"
    and room: "420 + sum_list (map (\<lambda>m. 35 + length (md_payload m)) ms) \<le> of_room fd"
  shows "\<exists>st head cl ts.
    stream_media_dvr_to_file V dvrctl 1 fuel True (Some fd) (Some dstf_mem) parms0 tsc0 sbuf0 sbuf_20 f0 sgs
      (ps @ [hup]) (map RdBytes pieces) = Some (Some 0, Some Unpolled, Some st) \<and>
    of_written (cv_outfile (rc_conv st)) = of_written fd @ head @ cl \<and> length head = 420 \<and> length ts = length ms \<and>
    read_clusters (length ms) cl = Some (map (\<lambda>(t, m). (t, media_flag m, md_payload m)) (zip ts ms), [])"
  by (rule mkv_recorded [OF assms])

definition sample_polls :: "(errno + pollflag list) list" where
  "sample_polls = [Inr [POLLIN], Inr [], Inl EINTR]"

lemma sample_polls_good: "\<forall>p \<in> set sample_polls. poll_pipe_read p \<ge> 0" "poll_pipe_read (Inr [POLLHUP]) < 0" "length sample_polls = 3"
  by (simp_all add: sample_polls_def poll_pipe_read_def poll_reports_def hits_def)

definition sample_bytes :: "byte list" where
  "sample_bytes = concat (map media_bytes sample_media)"

lemma sample_media_some: "sample_media \<noteq> []" "md_key (hd sample_media)" "length sample_media = 2"
  by (simp_all add: sample_media_def)

lemma sample_media_length: "30 < length sample_bytes \<and> length sample_bytes \<le> 1000"
proof -
  have "length sample_bytes = sum_list (map (\<lambda>m. 32 + length (concat (map sf_bytes (md_sub m))) + length (md_payload m)) sample_media)"
    using sample_media_ok media_bytes_frame(4) by (simp add: sample_bytes_def length_concat comp_def cong: map_cong)
  then show ?thesis by (simp add: sample_media_def sf_bytes_def)
qed

lemma sample_pieces:
  "torn 750000 (concat [sample_broken_session, sample_last_session]) (map media_bytes sample_media) (take 5 (media_bytes first_media))"
  "\<nexists>i. occurs_at str_Dahua_ZH (concat [sample_broken_session, sample_last_session]) i"
  "\<forall>b \<in> set [sample_broken_session, sample_last_session]. b \<noteq> [] \<and> length b \<le> 250000"
  using sample_sessions [of 750000] first_media_size(2,3) second_media_size(2)
  by (auto simp: sample_broken_session_def sample_last_session_def)

lemma sample_calm: "undisturbed \<lparr>fl_sigchld = False, fl_sigpipe = False, fl_terminate_nicely = False\<rparr> [[]]"
  by (simp add: undisturbed_def)

lemma live_native_copies_witness:
  "\<exists>st. stream_media_dvr_to_file [0x31] sample_dvrctl 0 1000000 True (Some \<lparr>of_written = [5], of_room = 1000\<rparr>)
      (Some (replicate 1000000 0)) sample_parms sample_tsproc (replicate 1000000 0) []
      \<lparr>fl_sigchld = False, fl_sigpipe = False, fl_terminate_nicely = False\<rparr> [[]]
      (sample_polls @ [Inr [POLLHUP]]) (map RdBytes [sample_broken_session, sample_last_session]) = Some (Some 0, Some Unpolled, Some st) \<and>
    of_written (cv_outfile (rc_conv st)) = 5 # sample_bytes"
  using live_native_copies [OF sample_media_some(1) sample_media_ok sample_pieces sample_polls_good(1,2) _ _ _ _ sample_calm,
      of "replicate 1000000 0" 1000000 "replicate 1000000 0" "\<lparr>of_written = [5], of_room = 1000\<rparr>" "[0x31]" sample_dvrctl
      sample_parms sample_tsproc "[]"] sample_media_length sample_polls_good(3)
  by (simp add: sample_bytes_def)

lemma live_mkv_converts_witness:
  "\<exists>st head cl. stream_media_dvr_to_file [0x31] sample_dvrctl 1 1000000 True (Some \<lparr>of_written = [], of_room = 1000\<rparr>)
      (Some (replicate 1000000 0)) sample_parms sample_tsproc (replicate 1000000 0) (replicate 1000000 0)
      \<lparr>fl_sigchld = False, fl_sigpipe = False, fl_terminate_nicely = False\<rparr> [[]]
      (sample_polls @ [Inr [POLLHUP]]) (map RdBytes [sample_broken_session, sample_last_session]) = Some (Some 0, Some Unpolled, Some st) \<and>
    of_written (cv_outfile (rc_conv st)) = head @ cl \<and> length head = 420 \<and>
    (\<exists>cs. read_clusters 2 cl = Some (cs, []))"
proof -
  have "420 + sum_list (map (\<lambda>m. 35 + length (md_payload m)) sample_media) \<le> of_room \<lparr>of_written = [], of_room = 1000\<rparr>"
    by (simp add: sample_media_def)
  from live_mkv_converts [OF sample_media_some(1,2) sample_media_ok sample_pieces sample_polls_good(1,2) _ _ _ _ _ sample_calm this,
      of "replicate 1000000 0" 1000000 "replicate 1000000 0" "replicate 1000000 0" "[0x31]" sample_dvrctl
      sample_parms sample_tsproc] sample_polls_good(3) obtain st head cl where
    "stream_media_dvr_to_file [0x31] sample_dvrctl 1 1000000 True (Some \<lparr>of_written = [], of_room = 1000\<rparr>)
      (Some (replicate 1000000 0)) sample_parms sample_tsproc (replicate 1000000 0) (replicate 1000000 0)
      \<lparr>fl_sigchld = False, fl_sigpipe = False, fl_terminate_nicely = False\<rparr> [[]]
      (sample_polls @ [Inr [POLLHUP]]) (map RdBytes [sample_broken_session, sample_last_session]) = Some (Some 0, Some Unpolled, Some st)"
    "of_written (cv_outfile (rc_conv st)) = [] @ head @ cl" "length head = 420"
    "\<exists>cs. read_clusters (length sample_media) cl = Some (cs, [])" by auto
  then show ?thesis unfolding sample_media_some(3) by auto
qed

text \<open>
  When the pipe ends right after the data that identified the container, all these data are lost:
  the frames loaded into the queue are never deframed, nothing is written, and the code is still 0.
\<close>
lemma identified_data_lost:
  assumes "dstf_init (Some dstf_mem) = Some q" "length dstf_mem = 1000000" "length piece \<le> 250000" "piece \<noteq> []"
    and "\<exists>i. occurs_at str_DHAV piece i" "\<exists>i. occurs_at str_dhav piece i" "length sbuf0 = 1000000"
    and "poll_pipe_read p \<ge> 0" "poll_pipe_read hup < 0"
  shows "\<exists>st. stream_media_dvr_to_file V dvrctl 0 fuel True (Some fd) (Some dstf_mem) parms0 tsc0 sbuf0 sbuf_20 f0 sgs
      [p, hup] [RdBytes piece] = Some (Some 0, Some Unpolled, Some st) \<and> rc_pipe st = [] \<and>
    cv_outfile (rc_conv st) = fd"
proof -
  define st0 where "st0 = \<lparr>rc_pipe = [RdBytes piece], rc_flags = f0, rc_signals = sgs,
      rc_conv = start_conv dvrctl MC_FORM_DVR_NATIVE parms0 tsc0 sbuf0 sbuf_20 fd\<rparr>"
  have q: "dstf_inv q" "dstf_queue q = []" "sq_offs q = 0" "sq_len q = 0" "sq_maxlen q = 1000000"
    using assms(1,2) by (auto simp: dstf_init_def dstf_inv_def dstf_queue_def T_MC_PARMS_DHAV_STF_def)
  obtain q' where q': "dstf_append piece q = Some q'" "dstf_inv q'" "dstf_queue q' = piece" "sq_offs q' = 0" "sq_len q' = length piece"
    using dstf_append_ok [OF q(1), of piece] q assms(3) by auto
  have window: "rd_slice (sq q') (int (sq_offs q')) (sq_len q') = Some piece"
    using dstf_read [OF q'(2), of 0 "sq_len q'"] q'(3,5) by simp
  have "length piece < 2 ^ 64" using assms(3) by simp
  from identify_decides [OF this] assms(5,6) have fmt: "identify_mc_format piece (length piece) = Some MC_FORM_DHAV" by simp
  have "0 + length piece \<le> length (cv_sbuf (rc_conv st0))"
    using assms(3,7) by (simp add: st0_def start_conv_def)
  from wr_slice_of_nat [OF this] obtain sbuf where sb: "wr_slice (cv_sbuf (rc_conv st0)) 0 piece = Some sbuf" by auto
  define st1 where "st1 = st0\<lparr>rc_pipe := [], rc_conv := (rc_conv st0)\<lparr>cv_sbuf := sbuf\<rparr>\<rparr>"
  have "sys_read STREAM_BUFFER_MAXPIPEREAD (rc_pipe st0) = (Inr piece, [])"
    using assms(3) by (simp add: st0_def STREAM_BUFFER_MAXPIPEREAD_def)
  then have "record_identify [p, hup] q st0 = Some (Identified MC_FORM_DHAV, [hup], q', st1)"
    using assms(4,8) q(4,5) q'(1,5) window fmt sb
    by (simp add: record_identify.simps st1_def size_sub_ge STREAM_BUFFER_MAXPIPEREAD_def)
  moreover have "record_turn V dvrctl MC_FORM_DVR_NATIVE MC_FORM_DHAV fuel hup (q', st1) = Some (Some Unpolled, q', st1)"
    using assms(9) by (simp add: record_turn_def)
  ultimately have "stream_media_dvr_to_file V dvrctl 0 fuel True (Some fd) (Some dstf_mem) parms0 tsc0 sbuf0 sbuf_20 f0 sgs
      [p, hup] [RdBytes piece] = Some (Some 0, Some Unpolled, Some st1)"
    by (simp add: stream_media_dvr_to_file_def assms(1) container_format_def st0_def [symmetric])
  then show ?thesis by (simp add: st1_def st0_def start_conv_def)
qed

lemma identified_data_lost_witness:
  "\<exists>st. stream_media_dvr_to_file [0x31] sample_dvrctl 0 1000000 True (Some \<lparr>of_written = [], of_room = 1000\<rparr>)
      (Some (replicate 1000000 0)) sample_parms sample_tsproc (replicate 1000000 0) []
      \<lparr>fl_sigchld = False, fl_sigpipe = False, fl_terminate_nicely = False\<rparr> []
      [Inr [POLLIN], Inr [POLLHUP]] [RdBytes sample_bytes] = Some (Some 0, Some Unpolled, Some st) \<and> rc_pipe st = [] \<and>
    cv_outfile (rc_conv st) = \<lparr>of_written = [], of_room = 1000\<rparr>"
proof -
  obtain q where q: "dstf_init (Some (replicate 1000000 0)) = Some q" by (simp add: dstf_init_def)
  have found: "\<exists>i. occurs_at str_DHAV sample_bytes i" "\<exists>i. occurs_at str_dhav sample_bytes i"
    using media_identified [where xs = "[]" and m = first_media and ys = "media_bytes second_media"]
    by (simp_all add: sample_bytes_def sample_media_def)
  from found sample_media_length sample_polls_good(2) show ?thesis
    by (intro identified_data_lost [OF q]) (auto simp: poll_pipe_read_def poll_reports_def hits_def)
qed

end
