(* ===== verification/Live_Recording.thy ===== *)
theory Live_Recording
  imports Relay_Runs Dvr_Recording
begin

text \<open>
  The three processes of a live recording together (\<open>stream_media_dvr_to_file\<close> in \<open>src/dvrcontrol.c\<close> and
  the processes it forks): the session with the recorder writes into a pipe, the relay moves what
  comes out of it into a second one, and the recording process converts what it reads there into the
  file. Each can end at any point, so what reaches the file is a beginning of what was sent; frames are
  the unit in which it is cut.
\<close>

section \<open>What has arrived of a sequence of frames\<close>

lemma media_started:
  assumes "media_ok m" "length (media_bytes m) \<le> 750000" "j < length (media_bytes m)"
  shows "started 750000 (take j (media_bytes m))"
  using assms media_bytes_frame(1) unfolding started_def by blast

lemma frames_arrived:
  assumes "\<forall>m \<in> set ms. media_ok m \<and> length (media_bytes m) \<le> 750000" "concat (map media_bytes ms) = xs @ ys"
  shows "\<exists>arrived missing p. ms = arrived @ missing \<and> xs = concat (map media_bytes arrived) @ p \<and> started 750000 p \<and>
    (missing \<noteq> [] \<longrightarrow> length p < length (media_bytes (hd missing)))"
  using assms
proof (induction ms arbitrary: xs)
  case Nil
  then show ?case using started_nothing [of 750000] by simp
next
  case (Cons m ms)
  show ?case
  proof (cases "length xs < length (media_bytes m)")
    case True
    have "xs = take (length xs) (xs @ ys)" by simp
    also have "\<dots> = take (length xs) (media_bytes m)" unfolding Cons.prems(2) [symmetric] using True by simp
    finally have "started 750000 xs" using media_started [of m "length xs"] Cons.prems(1) True by simp
    then show ?thesis using True by (intro exI [of _ "[]"] exI [of _ "m # ms"] exI [of _ xs]) simp
  next
    case False
    obtain zs where zs: "xs = media_bytes m @ zs" "concat (map media_bytes ms) = zs @ ys"
      by (rule append_overlap [of "media_bytes m" "concat (map media_bytes ms)" xs ys]) (use Cons.prems(2) False in auto)
    from Cons.IH [OF _ zs(2)] Cons.prems(1) obtain arrived missing p where
      "ms = arrived @ missing" "zs = concat (map media_bytes arrived) @ p" "started 750000 p"
      "missing \<noteq> [] \<longrightarrow> length p < length (media_bytes (hd missing))" by auto
    then show ?thesis using zs(1) by (intro exI [of _ "m # arrived"] exI [of _ missing] exI [of _ p]) simp
  qed
qed

text \<open>
  The relay of one session, after which no other can be started, has passed on a beginning of what came
  out of the pipe.
\<close>

lemma nothing_from_failed: "list_all2 from_child pfs parts \<Longrightarrow> set pfs \<subseteq> {Fork_Failed} \<Longrightarrow> concat parts = []"
  by (induction rule: list_all2_induct) (auto simp: from_child_def)

lemma relay_passes_beginning:
  assumes "length block = 1048576" "written (fd_out_tx t) = []" "set fails \<subseteq> {Fork_Failed}"
    and "stream_dvr_subprocess_to_pipe timeout_us fd_out f0 (Some block) (Forked c # fails) t = Some (r, t')"
  shows "\<exists>rest. rd_stream (c_rx c) = written (fd_out_tx t') @ rest"
proof -
  from relay_keeps [OF assms(1), of "Forked c # fails" timeout_us fd_out f0 t] assms(2,4) obtain n parts rest where
    r: "list_all2 from_child (take n (Forked c # fails)) parts" "written (fd_out_tx t') @ rest = concat parts" by auto
  show ?thesis
  proof (cases n)
    case 0
    then show ?thesis using r by simp
  next
    case (Suc k)
    then obtain bs others where p: "parts = bs # others" "from_child (Forked c) bs" "list_all2 from_child (take k fails) others"
      using r(1) by (auto simp: list_all2_Cons1)
    have "concat others = []"
      using nothing_from_failed [OF p(3)] assms(3) set_take_subset [of k fails] by blast
    then have "written (fd_out_tx t') @ rest = bs" using p(1) r(2) by (simp del: concat_eq_Nil_conv)
    then show ?thesis using p(2) by (fastforce simp: from_child_def)
  qed
qed

section \<open>From the recorder to the file\<close>


definition sample_relay :: tunnel where
  "sample_relay = (sample_tunnel False 0)\<lparr>fd_out_tx := \<lparr>wr_plan = [], written = []\<rparr>\<rparr>"

lemma first_media_unmarked: "\<nexists>i. occurs_at str_Dahua_ZH (media_bytes first_media) i"
proof -
  have "0x5F \<notin> set (media_bytes first_media)" using sample_media_bytes by (simp add: sample_media_def)
  then show ?thesis by (rule no_underscore_free)
qed

end
