(* ===== verification/Marked_Frames.thy ===== *)
theory Marked_Frames
  imports Dhav_Frames
begin

text \<open>
  Frames that hold their markers only where these belong: \<open>DHAV\<close> at the beginning and \<open>dhav\<close> at the
  trailer. Sessions that send such frames and break off anywhere behind the length field can be put one
  behind the other (\<open>sessions\<close>): no trailer can appear by accident where a broken frame announces its own.
\<close>

section \<open>Marked frames\<close>

definition marked :: "nat \<Rightarrow> byte list \<Rightarrow> bool" where
  "marked L f \<longleftrightarrow> dhav_frame f \<and> length f \<le> L \<and>
     (\<forall>i. i + 4 \<le> length f \<longrightarrow> (take 4 (drop i f) = str_DHAV \<longrightarrow> i = 0) \<and> (take 4 (drop i f) = str_dhav \<longrightarrow> i + 8 = length f))"

text \<open>A stream that begins, as far as it has come, with a header.\<close>

definition headed :: "byte list \<Rightarrow> bool" where
  "headed xs \<longleftrightarrow> (\<forall>k < length xs. k < 4 \<longrightarrow> xs ! k = str_DHAV ! k)"

lemma headed_frame: "dhav_frame f \<Longrightarrow> headed (take j f)"
proof -
  assume "dhav_frame f"
  then have "take 4 f = str_DHAV" by (simp add: dhav_frame_def)
  then have "f ! k = str_DHAV ! k" if "k < 4" for k using that by (metis nth_take)
  then show ?thesis by (simp add: headed_def)
qed

lemma headed_append: "dhav_frame f \<Longrightarrow> 4 \<le> j \<Longrightarrow> headed (take j f @ xs)"
  using headed_frame [of f j] by (auto simp: headed_def nth_append dhav_frame_def)

definition length_field :: "nat \<Rightarrow> byte list \<Rightarrow> nat" where
  "length_field i xs = size_of_int32 (BT_LM2NV_U32 (take 4 (drop i xs)))"

text \<open>A length whose highest byte is a letter is larger than any frame.\<close>

lemma letter_too_large:
  assumes "i + 4 \<le> length xs" "0x41 \<le> xs ! (i + 3)"
  shows "2 ^ 30 < length_field i xs"
proof -
  let ?bs = "take 4 (drop i xs)"
  have l: "length ?bs = 4" using assms(1) by simp
  have "?bs = [xs ! i, xs ! (i + 1), xs ! (i + 2), xs ! (i + 3)]"
    by (rule nth_equalityI) (use assms(1) in \<open>auto simp: less_Suc_eq numeral_eq_Suc\<close>)
  then have "2 ^ 24 * unat (xs ! (i + 3)) \<le> le_nat ?bs" by simp
  moreover have "0x41 \<le> unat (xs ! (i + 3))" using assms(2) by (simp add: word_le_nat_alt)
  ultimately have "2 ^ 30 < unat (BT_LM2NV_U32 ?bs)" using unat_LM2NV_U32 [OF l] by simp
  moreover have "unat w \<le> size_of_int32 w" for w by (simp add: size_of_int32_eq)
  ultimately show ?thesis unfolding length_field_def using less_le_trans by blast
qed

text \<open>
  Where a piece of a marked frame is followed by a header, a trailer can only stand in the piece where
  the frame has its own, and only if the frame is whole.
\<close>

lemma window_fits: "length (take 4 (drop i xs)) = 4 \<Longrightarrow> i + 4 \<le> length xs"
  by simp

lemma window_nth: "take 4 (drop i xs) = [a, b, c, d] \<Longrightarrow> i + 4 \<le> length xs \<Longrightarrow> xs ! i = a \<and> xs ! (i + 1) = b \<and> xs ! (i + 2) = c \<and> xs ! (i + 3) = d"
proof -
  assume w: "take 4 (drop i xs) = [a, b, c, d]" and "i + 4 \<le> length xs"
  then have "xs ! (i + k) = [a, b, c, d] ! k" if "k < 4" for k using that by (metis add_leD1 nth_drop nth_take)
  from this [of 0] this [of 1] this [of 2] this [of 3] show ?thesis by simp
qed

lemma piece_trailer:
  assumes f: "marked L f" "L \<le> 2 ^ 30" and j: "j \<le> length f" and xs: "headed xs"
    and o: "i < j" "i + 8 \<le> length (take j f @ xs)" "take 4 (drop i (take j f @ xs)) = str_dhav"
      "length_field (i + 4) (take j f @ xs) \<le> L"
  shows "j = length f \<and> i + 8 = length f"
proof -
  let ?ys = "take j f @ xs"
  have fr: "dhav_frame f" "length f \<le> L" using f(1) by (auto simp: marked_def)
  have head: "?ys ! (j + k) = str_DHAV ! k" if "j + k < length ?ys" "k < 4" for k
    using xs that j by (auto simp: headed_def nth_append)
  have w: "?ys ! i = 0x64" "?ys ! (i + 1) = 0x68" "?ys ! (i + 2) = 0x61" "?ys ! (i + 3) = 0x76"
    using window_nth [of i ?ys "0x64" "0x68" "0x61" "0x76"] o(2,3) by (simp_all add: str_dhav_def)
  have inside: "i + 4 \<le> j"
  proof (rule ccontr)
    assume "\<not> i + 4 \<le> j"
    then have "j = i + 1 \<or> j = i + 2 \<or> j = i + 3" using o(1) by linarith
    moreover have "?ys ! j = 0x44" using head [of 0] o(1,2) \<open>\<not> i + 4 \<le> j\<close> by (simp add: str_DHAV_def)
    ultimately show False using w by auto
  qed
  have at: "i + 8 = length f"
    using f(1) inside j o(3) by (simp add: marked_def drop_take)
  moreover have "j = length f"
  proof (rule ccontr)
    assume "j \<noteq> length f"
    then have "j < i + 8" using at j by simp
    define k where "k = i + 7 - j"
    have k: "i + 7 = j + k" "k < 4" using inside \<open>j < i + 8\<close> by (simp_all add: k_def)
    then have "?ys ! (i + 4 + 3) = str_DHAV ! k" using head [of k] o(2) by (simp add: add.commute)
    moreover have "0x41 \<le> str_DHAV ! k"
    proof -
      from k(2) have "k = 0 \<or> k = 1 \<or> k = 2 \<or> k = 3" by linarith
      then show ?thesis by (elim disjE) (simp_all add: str_DHAV_def)
    qed
    ultimately have "2 ^ 30 < length_field (i + 4) ?ys" using letter_too_large [of "i + 4" ?ys] o(2) by simp
    then show False using o(4) f(2) by simp
  qed
  ultimately show ?thesis by simp
qed

text \<open>No trailer in the stream announces more than what stands in front of it.\<close>

definition trailers_fit :: "nat \<Rightarrow> byte list \<Rightarrow> bool" where
  "trailers_fit L xs \<longleftrightarrow> (\<forall>i. i + 8 \<le> length xs \<longrightarrow> take 4 (drop i xs) = str_dhav \<longrightarrow> length_field (i + 4) xs \<le> L \<longrightarrow>
     length_field (i + 4) xs \<le> i + 8)"

lemma frame_length_field: "dhav_frame f \<Longrightarrow> i + 8 = length f \<Longrightarrow> length_field (i + 4) (f @ xs) = length f"
proof -
  assume f: "dhav_frame f" "i + 8 = length f"
  then have "i + 4 = length f - 4" by simp
  then show ?thesis using f by (simp add: length_field_def dhav_frame_def closes_at_def)
qed

lemma trailers_piece:
  assumes f: "marked L f" "L \<le> 2 ^ 30" and j: "j \<le> length f" and xs: "headed xs" "trailers_fit L xs"
  shows "trailers_fit L (take j f @ xs)"
  unfolding trailers_fit_def
proof (intro allI impI)
  let ?ys = "take j f @ xs"
  fix i assume i: "i + 8 \<le> length ?ys" "take 4 (drop i ?ys) = str_dhav" "length_field (i + 4) ?ys \<le> L"
  show "length_field (i + 4) ?ys \<le> i + 8"
  proof (cases "i < j")
    case True
    from piece_trailer [OF f j xs(1) True i] have e: "j = length f" "i + 8 = length f" by simp_all
    then show ?thesis using frame_length_field [of f i xs] f(1) by (simp add: marked_def)
  next
    case False
    then obtain k where k: "i = j + k" using le_Suc_ex not_less by blast
    have "length_field (k + 4) xs = length_field (i + 4) ?ys" using j k by (simp add: length_field_def)
    then show ?thesis using xs(2) [unfolded trailers_fit_def, rule_format, of k] i j k by simp
  qed
qed

lemma broken_marked:
  assumes f: "marked L f" "L \<le> 2 ^ 30" and j: "16 \<le> j" "j < length f" "length f \<le> j + length xs"
    and xs: "headed xs" "trailers_fit L xs"
  shows "broken L (take j f) xs"
proof -
  let ?ys = "take j f @ xs"
  have fr: "dhav_frame f" "length f \<le> L" using f(1) by (simp_all add: marked_def)
  have "\<not> closes_at (length f) ?ys"
  proof
    assume c: "closes_at (length f) ?ys"
    define i where "i = length f - 8"
    have i: "length f = i + 8" using j by (simp add: i_def)
    have t: "take 4 (drop i ?ys) = str_dhav" "length_field (i + 4) ?ys = length f" "i + 8 \<le> length ?ys"
      using c i j by (simp_all add: closes_at_def length_field_def add.commute)
    show False
    proof (cases "i < j")
      case True
      then show ?thesis using piece_trailer [OF f _ xs(1), of j i] t fr(2) j(2) by simp
    next
      case False
      then obtain k where k: "i = j + k" using le_Suc_ex not_less by blast
      have "length_field (k + 4) xs = length f" "take 4 (drop k xs) = str_dhav" "k + 8 \<le> length xs"
        using t j(2) k by (simp_all add: length_field_def)
      then show ?thesis using xs(2) [unfolded trailers_fit_def, rule_format, of k] fr(2) i k j(1) by simp
    qed
  qed
  moreover have "take 4 (drop i ?ys) \<noteq> str_DHAV" if i: "0 < i" "i < j" for i
  proof
    assume h: "take 4 (drop i ?ys) = str_DHAV"
    then have l: "i + 4 \<le> length ?ys" by (intro window_fits) (simp add: str_DHAV_def del: take_append drop_append)
    have w: "?ys ! (i + 1) = 0x48" "?ys ! (i + 2) = 0x41" "?ys ! (i + 3) = 0x56"
      using window_nth [of i ?ys "0x44" "0x48" "0x41" "0x56"] h l by (simp_all add: str_DHAV_def)
    show False
    proof (cases "i + 4 \<le> j")
      case True
      then have "take 4 (drop i f) = str_DHAV" "i + 4 \<le> length f" using h j(2) by (simp_all add: drop_take)
      then show ?thesis using f(1) i(1) unfolding marked_def by blast
    next
      case False
      then have "?ys ! j = 0x44" using xs(1) [unfolded headed_def, rule_format, of 0] l j(2) False by (cases "xs = []") (simp_all add: nth_append str_DHAV_def)
      moreover have "j = i + 1 \<or> j = i + 2 \<or> j = i + 3" using False i(2) by linarith
      ultimately show ?thesis using w by auto
    qed
  qed
  ultimately show ?thesis using fr j unfolding broken_def by (intro conjI exI [of _ f]) auto
qed

section \<open>Sessions with marked frames\<close>

text \<open>
  \<open>sessions L xs fs p\<close>: \<open>xs\<close> consists of sessions that send marked frames; each but the last ends inside a
  frame of which the length field has come, and after it come at least the bytes that are missing.
\<close>

inductive sessions :: "nat \<Rightarrow> byte list \<Rightarrow> byte list list \<Rightarrow> byte list \<Rightarrow> bool" for L where
  sessions_last: "\<forall>f \<in> set fs. marked L f \<Longrightarrow> marked L g \<Longrightarrow> j < length g \<Longrightarrow> sessions L (concat fs @ take j g) fs (take j g)"
| sessions_next: "\<forall>f \<in> set fs. marked L f \<Longrightarrow> marked L f \<Longrightarrow> 16 \<le> j \<Longrightarrow> j < length f \<Longrightarrow> length f \<le> j + length xs \<Longrightarrow> 16 \<le> length xs \<Longrightarrow>
    sessions L xs gs p \<Longrightarrow> sessions L (concat fs @ take j f @ xs) (fs @ gs) p"

lemma marked_frames_front:
  assumes "\<forall>f \<in> set fs. marked L f" "L \<le> 2 ^ 30" "headed xs" "trailers_fit L xs"
  shows "headed (concat fs @ xs) \<and> trailers_fit L (concat fs @ xs)"
  using assms(1)
proof (induction fs)
  case (Cons f fs)
  have f: "marked L f" "dhav_frame f" "16 \<le> length f" using Cons.prems by (simp_all add: marked_def dhav_frame_def)
  have "headed (concat fs @ xs)" "trailers_fit L (concat fs @ xs)" using Cons by simp_all
  from headed_append [OF f(2), of "length f" "concat fs @ xs"] trailers_piece [OF f(1) assms(2) _ this, of "length f"] f(3)
  show ?case by simp
qed (use assms in simp)

lemma sessions_torn:
  assumes "sessions L xs fs p" "L \<le> 2 ^ 30"
  shows "torn L xs fs p \<and> headed xs \<and> trailers_fit L xs"
  using assms(1)
proof (induction rule: sessions.induct)
  case (sessions_last fs g j)
  have g: "dhav_frame g" "length g \<le> L" using sessions_last(2) by (simp_all add: marked_def)
  have started: "started L (take j g)" using g sessions_last(3) unfolding started_def by blast
  have "headed []" "trailers_fit L []" by (simp_all add: headed_def trailers_fit_def)
  from trailers_piece [OF sessions_last(2) assms(2) _ this, of j] sessions_last(3) have "trailers_fit L (take j g)" by simp
  from marked_frames_front [OF sessions_last(1) assms(2) headed_frame [OF g(1)] this] show ?case
    using sessions_last(1) started by (simp add: marked_def torn_last)
next
  case (sessions_next fs f j xs gs p)
  have f: "dhav_frame f" using sessions_next(2) by (simp add: marked_def)
  have ih: "torn L xs gs p" "headed xs" "trailers_fit L xs" using sessions_next.IH by simp_all
  have "broken L (take j f) xs" by (rule broken_marked [OF sessions_next(2) assms(2) sessions_next(3-5) ih(2,3)])
  then have "torn L (concat fs @ take j f @ xs) (fs @ gs) p"
    using sessions_next(1,6) ih(1) by (intro torn_next) (simp_all add: marked_def)
  moreover have "trailers_fit L (take j f @ xs)"
    by (rule trailers_piece [OF sessions_next(2) assms(2) _ ih(2,3)]) (use sessions_next(4) in simp)
  ultimately show ?case
    using marked_frames_front [OF sessions_next(1) assms(2) headed_append [OF f, of j xs]] sessions_next(3) by simp
qed

end
