(* ===== verification/Recordings.thy ===== *)
theory Recordings
  imports Live_Recording Marked_Frames
begin

text \<open>
  Recordings seen from outside: over reconnections, and native against Matroska. The recorder's frames
  can be kept as they come and converted later by \<open>dhav2mkv\<close>, or converted while they come.
\<close>

section \<open>The sample sessions\<close>

lemma marked_code:
  "marked L f \<longleftrightarrow> dhav_frame f \<and> length f \<le> L \<and>
    list_all (\<lambda>i. (take 4 (drop i f) = str_DHAV \<longrightarrow> i = 0) \<and> (take 4 (drop i f) = str_dhav \<longrightarrow> i + 8 = length f)) [0..<length f - 3]"
proof -
  have "i + 4 \<le> length f \<longleftrightarrow> i < length f - 3" for i by auto
  then show ?thesis by (simp add: marked_def list_all_iff Ball_def)
qed

lemma sample_media_marked: "marked 750000 (media_bytes first_media)" "marked 750000 (media_bytes second_media)"
proof -
  have "dhav_frame (media_bytes first_media)" "dhav_frame (media_bytes second_media)"
    using first_media_size(1) second_media_size(1) media_bytes_frame(1) by simp_all
  moreover have "replicate 7 (0::byte) = [0, 0, 0, 0, 0, 0, 0]" "replicate 8 (0::byte) = [0, 0, 0, 0, 0, 0, 0, 0]"
    by (simp_all add: numeral_eq_Suc)
  ultimately show "marked 750000 (media_bytes first_media)" "marked 750000 (media_bytes second_media)"
    by (simp_all add: marked_code)
      (simp_all add: sample_media_def media_bytes_defs upt_rec)
qed

lemma sample_marked_sessions:
  "sessions 750000 (sample_broken_session @ sample_last_session) (map media_bytes sample_media) (take 5 (media_bytes first_media))"
proof -
  have "sessions 750000 (concat [media_bytes second_media] @ take 5 (media_bytes first_media)) [media_bytes second_media] (take 5 (media_bytes first_media))"
    by (rule sessions_last) (use sample_media_marked first_media_size(2) in simp_all)
  then have "sessions 750000 (concat [media_bytes first_media] @ take 20 (media_bytes first_media) @ sample_last_session)
      ([media_bytes first_media] @ [media_bytes second_media]) (take 5 (media_bytes first_media))"
    by (intro sessions_next) (use sample_media_marked first_media_size(2) second_media_size(2) in \<open>simp_all add: sample_last_session_def\<close>)
  then show ?thesis by (subst sample_media_two(1)) (simp add: sample_broken_session_def)
qed

section \<open>Properties\<close>



text \<open>
  C6: Recording first and converting later gives the same as recording in Matroska: from the same
  stream, of one session or of several that break off inside frames, the native file, put through
  \<open>dhav2mkv\<close>, and the Matroska file of the program itself each consist of a main header and clusters,
  and both read back to the same key-frame flags and payloads in the same order, those of all complete
  frames, whatever the cut into reads was in either recording.
\<close>
theorem record_then_convert:
  assumes ms: "ms \<noteq> []" "md_key (hd ms)" "\<forall>m \<in> set ms. media_ok m"
    and input: "torn 750000 (concat pieces) (map media_bytes ms) p" "concat pieces' = concat pieces"
      "\<nexists>i. occurs_at str_Dahua_ZH (concat pieces) i" "\<nexists>i. occurs_at str_Dahua_ZH (concat (map media_bytes ms)) i"
      "\<forall>b \<in> set pieces. b \<noteq> [] \<and> length b \<le> 250000" "\<forall>b \<in> set pieces'. b \<noteq> [] \<and> length b \<le> 250000"
    and polls: "\<forall>p \<in> set ps. poll_pipe_read p \<ge> 0" "poll_pipe_read hup < 0" "length pieces < length ps" "length pieces' < length ps"
    and mem: "length dstf_mem = 1000000" "1000000 \<le> fuel" "length sbuf0 = 1000000" "length sbuf_20 = 1000000"
      "length big0 = 2000000" "length big_20 = 3000000"
    and calm: "undisturbed f0 sgs"
    and room: "of_written fd = []" "length (concat (map media_bytes ms)) \<le> of_room fd"
      "420 + sum_list (map (\<lambda>m. 35 + length (md_payload m)) ms) \<le> of_room fd"
  shows "\<exists>st st' fd' head cl cs head' cl' cs'.
    stream_media_dvr_to_file V dvrctl 0 fuel True (Some fd) (Some dstf_mem) parms0 tsc0 sbuf0 sbuf_20 f0 sgs
      (ps @ [hup]) (map RdBytes pieces) = Some (Some 0, Some Unpolled, Some st) \<and>
    process_dhav_stream V (dvrcontrol.truncate dvrctl) fuel (Some (of_written (cv_outfile (rc_conv st)))) (Some fd) (Some dstf_mem)
      parms0 tsc0 big0 big_20 = Some (Some 0, Some No_More_Data, Some fd') \<and>
    of_written fd' = head @ cl \<and> length head = 420 \<and> read_clusters (length ms) cl = Some (cs, []) \<and>
    stream_media_dvr_to_file V dvrctl 1 fuel True (Some fd) (Some dstf_mem) parms0 tsc0 sbuf0 sbuf_20 f0 sgs
      (ps @ [hup]) (map RdBytes pieces') = Some (Some 0, Some Unpolled, Some st') \<and>
    of_written (cv_outfile (rc_conv st')) = head' @ cl' \<and> length head' = 420 \<and> read_clusters (length ms) cl' = Some (cs', []) \<and>
    map snd cs = map (\<lambda>m. (media_flag m, md_payload m)) ms \<and> map snd cs' = map snd cs"
proof -
  have flags: "map snd (map (\<lambda>(t, m). (t, media_flag m, md_payload m)) (zip ts ms)) = map (\<lambda>m. (media_flag m, md_payload m)) ms"
    if "length ts = length ms" for ts :: "nat list"
    using that by (induction ts ms rule: list_induct2) simp_all
  from native_recorded [OF ms(1,3) input(1,3,5) polls(1-3) mem(1-3) calm room(2), of V dvrctl parms0 tsc0 sbuf_20] obtain st where
    st: "stream_media_dvr_to_file V dvrctl 0 fuel True (Some fd) (Some dstf_mem) parms0 tsc0 sbuf0 sbuf_20 f0 sgs
      (ps @ [hup]) (map RdBytes pieces) = Some (Some 0, Some Unpolled, Some st)"
      "of_written (cv_outfile (rc_conv st)) = concat (map media_bytes ms)" using room(1) by auto
  have "\<forall>f \<in> set (map media_bytes ms). dhav_frame f \<and> length f \<le> 900000"
    using ms(3) media_bytes_frame(1,2) by simp
  from torn_last [OF this started_nothing] have whole: "torn 900000 (concat (map media_bytes ms)) (map media_bytes ms) []" by simp
  from file_converted [OF ms whole input(4) mem(1,5,6,2) room(3), of V "dvrcontrol.truncate dvrctl" parms0 tsc0] room(1)
  obtain fd' head cl ts where conv: "process_dhav_stream V (dvrcontrol.truncate dvrctl) fuel (Some (concat (map media_bytes ms))) (Some fd)
      (Some dstf_mem) parms0 tsc0 big0 big_20 = Some (Some 0, Some No_More_Data, Some fd')"
    "of_written fd' = head @ cl" "length head = 420" "length ts = length ms"
    "read_clusters (length ms) cl = Some (map (\<lambda>(t, m). (t, media_flag m, md_payload m)) (zip ts ms), [])" by auto
  have torn': "torn 750000 (concat pieces') (map media_bytes ms) p" "\<nexists>i. occurs_at str_Dahua_ZH (concat pieces') i"
    using input(1,3) unfolding input(2) by simp_all
  from mkv_recorded [OF ms torn' input(6) polls(1,2,4) mem(1-4) calm room(3), of V dvrctl parms0 tsc0] room(1)
  obtain st' head' cl' ts' where direct: "stream_media_dvr_to_file V dvrctl 1 fuel True (Some fd) (Some dstf_mem) parms0 tsc0 sbuf0 sbuf_20 f0 sgs
      (ps @ [hup]) (map RdBytes pieces') = Some (Some 0, Some Unpolled, Some st')"
    "of_written (cv_outfile (rc_conv st')) = head' @ cl'" "length head' = 420" "length ts' = length ms"
    "read_clusters (length ms) cl' = Some (map (\<lambda>(t, m). (t, media_flag m, md_payload m)) (zip ts' ms), [])" by auto
  show ?thesis
    by (intro exI [of _ st] exI [of _ st'] exI [of _ fd'] exI [of _ head] exI [of _ cl] exI [of _ head'] exI [of _ cl']
        exI [of _ "map (\<lambda>(t, m). (t, media_flag m, md_payload m)) (zip ts ms)"]
        exI [of _ "map (\<lambda>(t, m). (t, media_flag m, md_payload m)) (zip ts' ms)"] conjI st(1) conv(2,3,5) direct(1-3,5))
       (use conv(1) st(2) flags [OF conv(4)] flags [OF direct(4)] in simp_all)
qed

lemma record_then_convert_witness:
  "\<exists>st st' fd' head cl cs head' cl' cs'.
    stream_media_dvr_to_file [0x31] sample_dvrctl 0 1000000 True (Some \<lparr>of_written = [], of_room = 1000\<rparr>)
      (Some (replicate 1000000 0)) sample_parms sample_tsproc (replicate 1000000 0) (replicate 1000000 0)
      \<lparr>fl_sigchld = False, fl_sigpipe = False, fl_terminate_nicely = False\<rparr> [[]]
      (sample_polls @ [Inr [POLLHUP]]) (map RdBytes [sample_broken_session, sample_last_session]) = Some (Some 0, Some Unpolled, Some st) \<and>
    process_dhav_stream [0x31] (dvrcontrol.truncate sample_dvrctl) 1000000 (Some (of_written (cv_outfile (rc_conv st))))
      (Some \<lparr>of_written = [], of_room = 1000\<rparr>) (Some (replicate 1000000 0)) sample_parms sample_tsproc
      (replicate 2000000 0) (replicate 3000000 0) = Some (Some 0, Some No_More_Data, Some fd') \<and>
    of_written fd' = head @ cl \<and> length head = 420 \<and> read_clusters (length sample_media) cl = Some (cs, []) \<and>
    stream_media_dvr_to_file [0x31] sample_dvrctl 1 1000000 True (Some \<lparr>of_written = [], of_room = 1000\<rparr>)
      (Some (replicate 1000000 0)) sample_parms sample_tsproc (replicate 1000000 0) (replicate 1000000 0)
      \<lparr>fl_sigchld = False, fl_sigpipe = False, fl_terminate_nicely = False\<rparr> [[]]
      (sample_polls @ [Inr [POLLHUP]]) (map RdBytes [sample_broken_session @ sample_last_session]) = Some (Some 0, Some Unpolled, Some st') \<and>
    of_written (cv_outfile (rc_conv st')) = head' @ cl' \<and> length head' = 420 \<and> read_clusters (length sample_media) cl' = Some (cs', []) \<and>
    map snd cs = map (\<lambda>m. (media_flag m, md_payload m)) sample_media \<and> map snd cs' = map snd cs"
proof -
  have frames: "\<nexists>i. occurs_at str_Dahua_ZH (concat (map media_bytes sample_media)) i"
    by (rule no_underscore_free [OF sample_media_bytes])
  have room: "420 + sum_list (map (\<lambda>m. 35 + length (md_payload m)) sample_media) \<le> of_room \<lparr>of_written = [], of_room = 1000\<rparr>"
    by (simp add: sample_media_def)
  have size: "sample_broken_session @ sample_last_session \<noteq> []" "length (sample_broken_session @ sample_last_session) \<le> 250000"
    using first_media_size(2,3) second_media_size(2) by (simp_all add: sample_broken_session_def sample_last_session_def)
  show ?thesis
    by (rule record_then_convert [OF sample_media_some(1,2) sample_media_ok sample_pieces(1) _ sample_pieces(2) frames sample_pieces(3) _
          sample_polls_good(1,2) _ _ _ _ _ _ _ _ sample_calm _ _ room])
      (use size sample_polls_good(3) sample_media_length in \<open>simp_all add: sample_bytes_def\<close>)
qed

end
