(* ===== verification/Console.thy ===== *)
theory Console
  imports Dvr_Session
begin

text \<open>
  What the program prints for people: the listing of a device (\<open>dump_device_information\<close> of
  \<open>src/tanidvr.c\<close>), the heads of log lines with their context (\<open>src/log.c\<close>) and the dumps for debugging.
\<close>

definition ascii :: "string \<Rightarrow> byte list" where
  "ascii s = map (of_nat \<circ> of_char) s"

text \<open>\<open>%s\<close> reads up to a terminator; without one it runs out of the array.\<close>

definition show_str :: "byte list \<Rightarrow> byte list option" where
  "show_str m = (if 0 \<in> set m then Some (c_str m) else None)"

section \<open>The listing of a device\<close>

definition show_video_sys :: "t_di_video_sys \<Rightarrow> string" where
  "show_video_sys v =
     (case v of DI_VS_UNDEFINED \<Rightarrow> ''(undefined)'' | DI_VS_NTSC \<Rightarrow> ''NTSC'' | DI_VS_PAL \<Rightarrow> ''PAL'' | DI_VS_UNKNOWN \<Rightarrow> ''(unknown)'')"

definition show_video_enc :: "t_di_video_enc \<Rightarrow> string" where
  "show_video_enc v =
     (case v of DI_VE_UNDEFINED \<Rightarrow> ''(undefined)'' | DI_VE_MPEG4 \<Rightarrow> ''MPEG4'' | DI_VE_H264 \<Rightarrow> ''H.264'' | DI_VE_UNKNOWN \<Rightarrow> ''(unknown)'')"

definition show_mw_preview :: "t_di_mw_preview \<Rightarrow> string" where
  "show_mw_preview v =
     (case v of DI_MWP_UNDEFINED \<Rightarrow> ''(undefined)'' | DI_MWP_YES \<Rightarrow> ''YES'' | DI_MWP_NO \<Rightarrow> ''NO'' | DI_MWP_UNKNOWN \<Rightarrow> ''(unknown)'')"

definition show_hd_type :: "t_di_hdtype \<Rightarrow> string" where
  "show_hd_type v =
     (case v of DI_HD_UNDEFINED \<Rightarrow> ''(undefined)'' | DI_HD_ATA \<Rightarrow> ''ATA'' | DI_HD_SATA \<Rightarrow> ''SATA'' | DI_HD_UNKNOWN \<Rightarrow> ''(unknown)'')"

definition show_number :: "int \<Rightarrow> byte list" where
  "show_number n = (if n < 0 then ascii ''(undefined)'' else dec n)"

definition line :: "string \<Rightarrow> byte list \<Rightarrow> byte list" where
  "line label text = ascii label @ [0x09] @ text @ [0x0A]"

definition str_line :: "string \<Rightarrow> byte list \<Rightarrow> byte list option" where
  "str_line label m = map_option (line label) (show_str m)"

fun all_lines :: "byte list option list \<Rightarrow> byte list option" where
  "all_lines [] = Some []"
| "all_lines (None # ls) = None"
| "all_lines (Some l # ls) = map_option (\<lambda>rest. l @ rest) (all_lines ls)"

definition dump_device_information :: "t_devinfo \<Rightarrow> byte list option" where
  "dump_device_information d =
     all_lines
       [Some (line ''Video system:'' (ascii (show_video_sys (video_sys d)))),
        Some (line ''Video encoder:'' (ascii (show_video_enc (video_enc d)))),
        Some (line ''Multi-window:'' (ascii (show_mw_preview (mw_preview d)))),
        Some (line ''Total channels:'' (show_number (n_channels d))),
        Some (line ''Device type:'' (show_number (dev_type d))),
        Some (line ''Device subtype:'' (show_number (dev_subtype d))),
        str_line ''Chipset/model:'' (dev_type_chipset d),
        Some (line ''HD type:'' (ascii (show_hd_type (hd_type d)))),
        str_line ''Device S/N:'' (dev_sn d),
        str_line ''Device version:'' (dev_ver d),
        str_line ''Lang. support:'' (lang_sup d),
        str_line ''Function list:'' (func_list d),
        str_line ''OEM info:'' (oem_info d),
        str_line ''Running status:'' (netrun_stat d),
        str_line ''Split screen:'' (split_screen d),
        str_line ''Func. capab.:'' (func_capability d),
        str_line ''HD part. cap.:'' (hd_part_cap d),
        str_line ''Wireless alarm:'' (wi_alarm d),
        str_line ''Access URL:'' (access_url d),
        Some [0x0A]]"

lemma str_line_Some: "0 \<in> set m \<Longrightarrow> str_line label m = Some (line label (c_str m))"
  by (simp add: str_line_def show_str_def)

lemma dump_strings_ok: "strings_ok d \<Longrightarrow> \<exists>text. dump_device_information d = Some text"
  by (simp add: dump_device_information_def strings_ok_def str_line_Some)

lemma dump_needs_chipset: "0 \<notin> set (dev_type_chipset d) \<Longrightarrow> dump_device_information d = None"
  by (simp add: dump_device_information_def str_line_def show_str_def)

section \<open>The log\<close>

definition LOG_CONTEXT_MAX_STRLEN :: nat where "LOG_CONTEXT_MAX_STRLEN = 255"

datatype t_log_type = LOGT_FATAL | LOGT_ERROR | LOGT_WARNING | LOGT_INFO | LOGT_DETAIL

text \<open>The static variables: the array, and whether \<open>log_context_str_p\<close> points to it or is \<open>NULL\<close>.\<close>

record log_context =
  log_context_str :: "byte list"
  log_context_str_p :: bool

text \<open>\<open>ctxname\<close> is the characters in front of the terminator. \<open>strncpy\<close> fills up with zeros.\<close>

definition log_define_context :: "byte list option \<Rightarrow> log_context \<Rightarrow> log_context" where
  "log_define_context ctxname s =
     (case ctxname of
        None \<Rightarrow> s\<lparr>log_context_str_p := False\<rparr>
      | Some name \<Rightarrow>
          let n = LOG_CONTEXT_MAX_STRLEN + 1
          in s\<lparr>log_context_str := (take n (name @ replicate n 0))[LOG_CONTEXT_MAX_STRLEN := 0], log_context_str_p := True\<rparr>)"

definition log_level :: "t_log_type \<Rightarrow> string" where
  "log_level log_type =
     (case log_type of LOGT_FATAL \<Rightarrow> ''FATAL ERROR'' | LOGT_ERROR \<Rightarrow> ''ERROR'' | LOGT_WARNING \<Rightarrow> ''WARNING''
      | LOGT_INFO \<Rightarrow> ''INFO'' | LOGT_DETAIL \<Rightarrow> ''DETAIL'')"

text \<open>\<open>message\<close> is what \<open>vfprintf\<close> makes of the format and its arguments.\<close>

definition log_printf :: "t_log_type \<Rightarrow> byte list \<Rightarrow> log_context \<Rightarrow> byte list option" where
  "log_printf log_type message s =
     (if log_context_str_p s
      then do { ctx \<leftarrow> show_str (log_context_str s); Some (ascii (log_level log_type) @ ascii '' ('' @ ctx @ ascii ''): '' @ message) }
      else Some (ascii (log_level log_type) @ ascii '': '' @ message))"

lemma log_context_shown:
  assumes "0 \<notin> set name"
  shows "show_str (log_context_str (log_define_context (Some name) s)) = Some (take LOG_CONTEXT_MAX_STRLEN name)"
proof -
  let ?n = LOG_CONTEXT_MAX_STRLEN
  let ?a = "take (?n + 1) (name @ replicate (?n + 1) 0)"
  have "?a[?n := 0] = take ?n ?a @ [0]"
    by (simp add: upd_conv_take_nth_drop)
  also have "take ?n ?a = take ?n name @ replicate (?n - length name) 0"
    by (simp add: min_def del: replicate_Suc)
  finally have "?a[?n := 0] = take ?n name @ replicate (Suc (?n - length name)) 0"
    by (simp add: replicate_append_same)
  then have e: "?a[?n := 0] = take ?n name @ 0 # replicate (?n - length name) 0" by simp
  have "takeWhile (\<lambda>b. b \<noteq> 0) (take ?n name @ 0 # replicate (?n - length name) 0) = take ?n name"
    by (subst takeWhile_append2) (use assms in \<open>auto dest: in_set_takeD\<close>)
  moreover have "log_context_str (log_define_context (Some name) s) = take ?n name @ 0 # replicate (?n - length name) 0"
    unfolding log_define_context_def Let_def option.case e by simp
  ultimately show ?thesis by (simp add: show_str_def c_str_def)
qed

section \<open>Dumps for debugging\<close>

text \<open>These functions of \<open>src/log.c\<close> and \<open>src/hlprotocol.c\<close> exist only when the program is compiled with \<open>DEBUG\<close>.\<close>

definition DEBUG_LOG_PRINTF :: "byte list \<Rightarrow> byte list" where
  "DEBUG_LOG_PRINTF message = ascii ''DEBUG: '' @ message"

definition DEBUG_LOG_PRINTF_RAW :: "byte list \<Rightarrow> byte list" where
  "DEBUG_LOG_PRINTF_RAW message = message"

definition curdata_char :: "byte \<Rightarrow> byte" where
  "curdata_char curdata = (if uint curdata > 31 \<and> uint curdata < 128 then curdata else 0x20)"

definition hex_digit :: "nat \<Rightarrow> byte" where
  "hex_digit n = (if n < 10 then 0x30 + of_nat n else 0x57 + of_nat n)"

definition hex :: "byte \<Rightarrow> byte list" where
  "hex w = (if unat w < 16 then [hex_digit (unat w)] else [hex_digit (unat w div 16), hex_digit (unat w mod 16)])"

definition hlp_debug_dump_header :: "bool \<Rightarrow> t_ll_header \<Rightarrow> byte list" where
  "hlp_debug_dump_header nonzero ll_header =
     ascii ''HEAD DUMP info -- extlen: '' @ dec (sint (extlen ll_header)) @ [0x0A] @ ascii ''HEAD DUMP FOLLOWS:'' @ [0x0A] @
     concat (map (\<lambda>(i, curdata).
         if \<not> nonzero \<or> curdata \<noteq> 0
         then ascii ''HEAD DUMP -- ['' @ dec (int i) @ ascii ''] '' @ hex curdata @ ascii '' ('' @ dec (uint curdata) @ [0x29, 0x20, 0x27] @
           [curdata_char curdata] @ [0x27, 0x0A]
         else [])
       (zip [0 ..< LLP_HEADER_SIZE] (raw ll_header)))"

definition hlp_debug_dump_extdata :: "byte list \<Rightarrow> int \<Rightarrow> byte list option" where
  "hlp_debug_dump_extdata extdata extdata_len =
     do {
       bs \<leftarrow> rd_slice extdata 0 (nat extdata_len);
       Some (DEBUG_LOG_PRINTF (ascii ''EXTDATA DUMP FOLLOWS (string data between braces):'' @ [0x0A]) @
         ascii ''[DEBUG] EXTDATA DUMP ['' @ map curdata_char bs @ ascii '']'' @ [0x0A])
     }"

text \<open>A dump inside the data does not fault, and shows each byte as one character that cannot break the line.\<close>

lemma curdata_char_printable: "uint (curdata_char w) \<in> {32 ..< 128}"
  by (simp add: curdata_char_def)

lemma extdata_dump_shows:
  assumes "0 \<le> n" "nat n \<le> length bs"
  shows "\<exists>head shown. hlp_debug_dump_extdata bs n = Some (head @ shown @ [0x5D, 0x0A]) \<and> length shown = nat n \<and>
    (\<forall>c \<in> set shown. uint c \<in> {32 ..< 128})"
proof -
  have r: "rd_slice bs 0 (nat n) = Some (take (nat n) bs)" using assms rd_slice_of_nat [of 0 "nat n" bs] by simp
  show ?thesis unfolding hlp_debug_dump_extdata_def r
    by (intro exI [of _ "DEBUG_LOG_PRINTF (ascii ''EXTDATA DUMP FOLLOWS (string data between braces):'' @ [0x0A]) @ ascii ''[DEBUG] EXTDATA DUMP [''"]
        exI [of _ "map curdata_char (take (nat n) bs)"])
       (use assms curdata_char_printable in \<open>auto simp: ascii_def\<close>)
qed

section \<open>Properties\<close>



end
