(* ===== verification/Timers.thy ===== *)
theory Timers
  imports Prelude
begin

text \<open>
  The timers of the live session (\<open>src/timertools.c\<close>): the time of day is noted, and later the
  difference to it is read in microseconds, as an unsigned number of 32 bits.
\<close>

text \<open>Times are ordered by seconds, then by microseconds.\<close>

datatype timeval = Timeval (tv_sec: int) (tv_usec: int)

instantiation timeval :: linorder
begin

definition less_eq_timeval :: "timeval \<Rightarrow> timeval \<Rightarrow> bool" where
  "less_eq_timeval s t \<longleftrightarrow> tv_sec s < tv_sec t \<or> tv_sec s = tv_sec t \<and> tv_usec s \<le> tv_usec t"

definition less_timeval :: "timeval \<Rightarrow> timeval \<Rightarrow> bool" where
  "less_timeval s t \<longleftrightarrow> tv_sec s < tv_sec t \<or> tv_sec s = tv_sec t \<and> tv_usec s < tv_usec t"

instance
  by standard (auto simp: less_eq_timeval_def less_timeval_def timeval.expand)

end

text \<open>What \<open>gettimeofday\<close> gives: less than a million microseconds.\<close>

definition normal_time :: "timeval \<Rightarrow> bool" where
  "normal_time t \<longleftrightarrow> 0 \<le> tv_usec t \<and> tv_usec t < 1000000"

record spenttime =
  spt_last :: timeval
  spt_current :: timeval

text \<open>\<open>now\<close> is the answer of \<open>gettimeofday\<close>; without one the structure keeps what it holds.\<close>

definition spenttime_set :: "timeval option \<Rightarrow> spenttime \<Rightarrow> int \<times> spenttime" where
  "spenttime_set now spt = (case now of None \<Rightarrow> (-1, spt) | Some t \<Rightarrow> (0, spt\<lparr>spt_last := t\<rparr>))"

definition micros :: "timeval \<Rightarrow> u64" where
  "micros t = of_int (tv_sec t) * 1000000 + of_int (tv_usec t)"

definition spenttime_get :: "timeval option \<Rightarrow> spenttime \<Rightarrow> u32 \<times> spenttime" where
  "spenttime_get now spt =
     (let spt' = (case now of None \<Rightarrow> spt | Some t \<Rightarrow> spt\<lparr>spt_current := t\<rparr>)
      in (ucast (micros (spt_current spt') - micros (spt_last spt')), spt'))"

section \<open>Readings\<close>

definition elapsed :: "timeval \<Rightarrow> timeval \<Rightarrow> int" where
  "elapsed t0 t1 = (tv_sec t1 * 1000000 + tv_usec t1) - (tv_sec t0 * 1000000 + tv_usec t0)"

lemma elapsed_less: "normal_time t0 \<Longrightarrow> normal_time t1 \<Longrightarrow> elapsed t0 t1 < 0 \<longleftrightarrow> t1 < t0"
  by (auto simp: elapsed_def less_timeval_def normal_time_def)

definition timer_reading :: "timeval \<Rightarrow> timeval \<Rightarrow> spenttime \<Rightarrow> u32" where
  "timer_reading t0 t1 spt = fst (spenttime_get (Some t1) (snd (spenttime_set (Some t0) spt)))"

lemma micros_diff: "micros t1 - micros t0 = of_int (elapsed t0 t1)"
  by (simp add: micros_def elapsed_def)

lemma ucast_of_int: "(ucast (of_int k :: u64) :: u32) = of_int k"
  by (rule bit_word_eqI) (simp add: bit_simps)

lemma timer_reading_of_int: "timer_reading t0 t1 spt = of_int (elapsed t0 t1)"
  by (simp add: timer_reading_def spenttime_get_def spenttime_set_def micros_diff ucast_of_int)

lemma timer_reading_mod: "uint (timer_reading t0 t1 spt) = elapsed t0 t1 mod 2 ^ 32"
  by (simp add: timer_reading_of_int uint_word_of_int)

lemma timer_reading_exact:
  assumes "0 \<le> elapsed t0 t1" "elapsed t0 t1 < 2 ^ 32"
  shows "uint (timer_reading t0 t1 spt) = elapsed t0 t1"
  using assms by (simp add: timer_reading_mod)

lemma timer_reading_back:
  assumes "- (2 ^ 32) \<le> elapsed t0 t1" "elapsed t0 t1 < 0"
  shows "uint (timer_reading t0 t1 spt) = 2 ^ 32 + elapsed t0 t1"
proof -
  have "(elapsed t0 t1 + 2 ^ 32) mod 2 ^ 32 = elapsed t0 t1 + 2 ^ 32"
    by (rule mod_pos_pos_trivial) (use assms in simp_all)
  then show ?thesis by (simp add: timer_reading_mod)
qed

end
