(* ===== verification/Command_Line.thy ===== *)
theory Command_Line
  imports Dvr_Recording Console Timers
begin

text \<open>
  The command lines (\<open>src/tanidvr.c\<close>, \<open>src/dhav2mkv.c\<close>): the options one after the other as \<open>getopt_long\<close>
  hands them out, the checks behind them, and what \<open>main\<close> does with the result.
\<close>

section \<open>Numbers\<close>

text \<open>
  \<open>sscanf (optarg, "%d", &p)\<close>: white space, a sign, digits; without digits \<open>p\<close> keeps its value. The
  number is read as a \<open>long\<close>, which saturates, and then cut to 32 bits.
\<close>

definition is_digit :: "byte \<Rightarrow> bool" where "is_digit c \<longleftrightarrow> 0x30 \<le> c \<and> c \<le> 0x39"
definition is_space :: "byte \<Rightarrow> bool" where "is_space c \<longleftrightarrow> c = 0x20 \<or> 0x09 \<le> c \<and> c \<le> 0x0d"

definition sscanf_d :: "byte list \<Rightarrow> int option" where
  "sscanf_d s =
     (let s1 = dropWhile is_space s;
          neg = (s1 \<noteq> [] \<and> hd s1 = 0x2D);
          s2 = (if s1 \<noteq> [] \<and> (hd s1 = 0x2D \<or> hd s1 = 0x2B) then tl s1 else s1);
          ds = takeWhile is_digit s2;
          n = foldl (\<lambda>acc c. 10 * acc + (uint c - 48)) 0 ds;
          v = (if neg then max (- (2 ^ 63)) (- n) else min (2 ^ 63 - 1) n)
      in if ds = [] then None else Some (sint (of_int v :: u32)))"

section \<open>The options of \<open>tanidvr\<close>\<close>

record command_options =
  co_operation_mode :: int
  co_dvr_target :: "byte list"
  co_dvr_port :: u16
  co_dvr_user :: "byte list"
  co_dvr_password :: "byte list"
  co_dvr_channel :: int
  co_dvr_sub_channel :: int
  co_media_container :: int
  co_out_file :: "byte list"
  co_keep_alive :: u32
  co_timeout :: u32
  co_net_protocol_dialect :: u32
  co_ntsc_exact_60hz :: bool
  co_tsproc :: tsproc_t

text \<open>The local variables; \<open>cl_p\<close> is not initialised.\<close>

record cl_state = command_options +
  defined_operation_mode :: bool
  defined_dvr_target :: bool
  defined_dvr_user :: bool
  defined_dvr_password :: bool
  cl_p :: int

definition scan_p :: "byte list \<Rightarrow> cl_state \<Rightarrow> cl_state" where
  "scan_p optarg st = (case sscanf_d optarg of None \<Rightarrow> st | Some i \<Rightarrow> st\<lparr>cl_p := i\<rparr>)"

definition scan_to :: "byte list \<Rightarrow> int \<Rightarrow> int" where
  "scan_to optarg old = (case sscanf_d optarg of None \<Rightarrow> old | Some i \<Rightarrow> i)"

text \<open>The cases of the switch that check a number; \<open>Inl\<close> is the code of \<open>exit\<close>.\<close>

definition case_dialect :: "byte list \<Rightarrow> cl_state \<Rightarrow> int + cl_state" where
  "case_dialect optarg st0 =
     (let st = scan_p optarg st0
      in if cl_p st \<le> 0 \<or> cl_p st > 1 then Inl 1 else Inr (st\<lparr>co_net_protocol_dialect := of_int (cl_p st)\<rparr>))"

definition case_mode :: "byte list \<Rightarrow> cl_state \<Rightarrow> int + cl_state" where
  "case_mode optarg st0 =
     (let st = st0\<lparr>defined_operation_mode := True, co_operation_mode := scan_to optarg (co_operation_mode st0)\<rparr>
      in if co_operation_mode st = 0 \<or> co_operation_mode st = 1 then Inr st else Inl 1)"

definition case_port :: "byte list \<Rightarrow> cl_state \<Rightarrow> int + cl_state" where
  "case_port optarg st0 =
     (let st = scan_p optarg st0
      in if cl_p st \<le> 0 \<or> cl_p st > 65535 then Inl 1 else Inr (st\<lparr>co_dvr_port := of_int (cl_p st)\<rparr>))"

definition case_channel :: "byte list \<Rightarrow> cl_state \<Rightarrow> int + cl_state" where
  "case_channel optarg st0 =
     (let st = st0\<lparr>co_dvr_channel := scan_to optarg (co_dvr_channel st0)\<rparr>
      in if co_dvr_channel st < 0 \<or> co_dvr_channel st > 255 then Inl 1 else Inr st)"

definition case_sub_channel :: "byte list \<Rightarrow> cl_state \<Rightarrow> int + cl_state" where
  "case_sub_channel optarg st0 =
     (let st = st0\<lparr>co_dvr_sub_channel := scan_to optarg (co_dvr_sub_channel st0)\<rparr>
      in if co_dvr_sub_channel st < 0 \<or> co_dvr_sub_channel st > 1 then Inl 1 else Inr st)"

definition case_container :: "byte list \<Rightarrow> cl_state \<Rightarrow> int + cl_state" where
  "case_container optarg st0 =
     (let st = st0\<lparr>co_media_container := scan_to optarg (co_media_container st0)\<rparr>
      in if co_media_container st = 0 \<or> co_media_container st = 1 then Inr st else Inl 1)"

definition case_keep_alive :: "byte list \<Rightarrow> cl_state \<Rightarrow> int + cl_state" where
  "case_keep_alive optarg st0 =
     (let st = scan_p optarg st0
      in if cl_p st > 1000000 \<or> cl_p st < 0 then Inl 1 else Inr (st\<lparr>co_keep_alive := of_int (cl_p st)\<rparr>))"

definition case_timeout :: "byte list \<Rightarrow> cl_state \<Rightarrow> int + cl_state" where
  "case_timeout optarg st0 =
     (let st = scan_p optarg st0
      in if cl_p st > 1000000 \<or> cl_p st < 0 then Inl 1 else Inr (st\<lparr>co_timeout := of_int (cl_p st)\<rparr>))"

definition case_tsproc :: "byte list \<Rightarrow> cl_state \<Rightarrow> int + cl_state" where
  "case_tsproc optarg st0 =
     (let st = scan_p optarg st0
      in if cl_p st = 0 then Inr (st\<lparr>co_tsproc := TSPROC_NONE\<rparr>)
         else if cl_p st = 1 then Inr (st\<lparr>co_tsproc := TSPROC_DO_CORRECT\<rparr>) else Inl 1)"

definition option_step :: "char \<times> byte list \<Rightarrow> cl_state \<Rightarrow> int + cl_state" where
  "option_step op st =
     (let (option, optarg) = op
      in if option = CHR ''h'' then Inl 0
         else if option = CHR ''a'' then case_dialect optarg st
         else if option = CHR ''m'' then case_mode optarg st
         else if option = CHR ''t'' then Inr (st\<lparr>defined_dvr_target := True, co_dvr_target := optarg\<rparr>)
         else if option = CHR ''p'' then case_port optarg st
         else if option = CHR ''u'' then Inr (st\<lparr>defined_dvr_user := True, co_dvr_user := optarg\<rparr>)
         else if option = CHR ''w'' then Inr (st\<lparr>defined_dvr_password := True, co_dvr_password := optarg\<rparr>)
         else if option = CHR ''c'' then case_channel optarg st
         else if option = CHR ''s'' then case_sub_channel optarg st
         else if option = CHR ''n'' then case_container optarg st
         else if option = CHR ''f'' then Inr (st\<lparr>co_out_file := optarg\<rparr>)
         else if option = CHR ''k'' then case_keep_alive optarg st
         else if option = CHR ''e'' then case_timeout optarg st
         else if option = CHR ''x'' then Inr (st\<lparr>co_ntsc_exact_60hz := True\<rparr>)
         else if option = CHR ''r'' then case_tsproc optarg st
         else Inl 1)"

fun options_loop :: "(char \<times> byte list) list \<Rightarrow> cl_state \<Rightarrow> int + cl_state" where
  "options_loop [] st = Inr st"
| "options_loop (op # ops) st = (case option_step op st of Inl code \<Rightarrow> Inl code | Inr st' \<Rightarrow> options_loop ops st')"

text \<open>The global structure holds zeros in front of \<open>main\<close>; the strings without a default are null then.\<close>

definition default_options :: "int \<Rightarrow> cl_state" where
  "default_options init_p =
     \<lparr>co_operation_mode = 0, co_dvr_target = [], co_dvr_port = 37777, co_dvr_user = [], co_dvr_password = [], co_dvr_channel = 0,
      co_dvr_sub_channel = 0, co_media_container = 1, co_out_file = [], co_keep_alive = 100, co_timeout = 5000,
      co_net_protocol_dialect = 0, co_ntsc_exact_60hz = False, co_tsproc = TSPROC_DO_CORRECT,
      defined_operation_mode = False, defined_dvr_target = False, defined_dvr_user = False, defined_dvr_password = False,
      cl_p = init_p\<rparr>"

text \<open>A keep-alive time beyond the timeout is only reported.\<close>

definition option_checks :: "cl_state \<Rightarrow> int + cl_state" where
  "option_checks st =
     (if \<not> defined_operation_mode st then Inl 1
      else if \<not> defined_dvr_target st then Inl 1
      else if \<not> defined_dvr_user st then Inl 1
      else if \<not> defined_dvr_password st then Inl 1
      else if length (co_dvr_user st) + length (co_dvr_password st) > MAX_USER_PASSWD_LEN then Inl 1
      else Inr st)"

definition process_command_line_arguments :: "int \<Rightarrow> (char \<times> byte list) list \<Rightarrow> int + cl_state" where
  "process_command_line_arguments init_p ops =
     (case options_loop ops (default_options init_p) of Inl code \<Rightarrow> Inl code | Inr st \<Rightarrow> option_checks st)"

section \<open>\<open>main\<close>\<close>

definition main_dvrctl :: "cl_state \<Rightarrow> dvrcontrol_t" where
  "main_dvrctl opt =
     \<lparr>dc_ntsc_exact_60hz = co_ntsc_exact_60hz opt, dc_tsproc = co_tsproc opt, dc_user = co_dvr_user opt, dc_passwd = co_dvr_password opt,
      dc_channel = co_dvr_channel opt, dc_sub_channel = co_dvr_sub_channel opt, dc_keep_alive_us = co_keep_alive opt * 1000,
      dc_timeout_us = co_timeout opt * 1000, dc_net_protocol_dialect = co_net_protocol_dialect opt\<rparr>"

text \<open>
  \<open>record\<close> is \<open>stream_media_dvr_to_file\<close> on its container and file name. \<open>conn\<close> is what the network gives for the
  target. The result is the exit code, the listing of the device and what the recording gave; \<open>None\<close> is
  a memory fault.
\<close>

definition tanidvr_main ::
    "int \<Rightarrow> byte \<Rightarrow> t_hlp_connection option \<Rightarrow> t_devinfo \<Rightarrow> (dvrcontrol_t \<Rightarrow> int \<Rightarrow> byte list \<Rightarrow> 'r option) \<Rightarrow>
     (char \<times> byte list) list \<Rightarrow> (int \<times> byte list option \<times> 'r option) option" where
  "tanidvr_main init_p infotype0 conn devinfo0 record_to ops =
     (case process_command_line_arguments init_p ops of
        Inl code \<Rightarrow> Some (code, None, None)
      | Inr opt \<Rightarrow>
          let dvrctl = main_dvrctl opt
          in do {
               (i, session) \<leftarrow> open_session infotype0 conn (Some (di_init devinfo0)) dvrctl;
               (if i \<noteq> 0 then Some (1, None, None)
                else
                  case session of
                    Some (c, Some devinfo) \<Rightarrow>
                      if co_operation_mode opt = 0
                      then do {
                        text \<leftarrow> dump_device_information devinfo;
                        Some (if fst (close_session c) \<noteq> 0 then 1 else 0, Some text, None)
                      }
                      else if n_channels devinfo > 0 \<and> dc_channel dvrctl \<ge> n_channels devinfo
                      then Some (1, None, None)
                      else do { r \<leftarrow> record_to dvrctl (co_media_container opt) (co_out_file opt); Some (0, None, Some r) }
                  | _ \<Rightarrow> None)
             })"

section \<open>The options of \<open>dhav2mkv\<close>\<close>

text \<open>Option \<open>c\<close> is obsolete: the channel stays the 0 of the global structure.\<close>

record d2m_options =
  dm_dvr_channel :: int
  dm_in_file :: "byte list"
  dm_out_file :: "byte list"
  dm_ntsc_exact_60hz :: bool
  dm_tsproc :: tsproc_t
  dm_p :: int

definition d2m_option_step :: "char \<times> byte list \<Rightarrow> d2m_options \<Rightarrow> int + d2m_options" where
  "d2m_option_step op st =
     (let (option, optarg) = op
      in if option = CHR ''h'' then Inl 0
         else if option = CHR ''c'' then Inr st
         else if option = CHR ''i'' then Inr (st\<lparr>dm_in_file := optarg\<rparr>)
         else if option = CHR ''o'' then Inr (st\<lparr>dm_out_file := optarg\<rparr>)
         else if option = CHR ''x'' then Inr (st\<lparr>dm_ntsc_exact_60hz := True\<rparr>)
         else if option = CHR ''r'' then
           let st = st\<lparr>dm_p := scan_to optarg (dm_p st)\<rparr>
           in if dm_p st = 0 then Inr (st\<lparr>dm_tsproc := TSPROC_NONE\<rparr>)
              else if dm_p st = 1 then Inr (st\<lparr>dm_tsproc := TSPROC_DO_CORRECT\<rparr>) else Inl 1
         else Inl 1)"

fun d2m_loop :: "(char \<times> byte list) list \<Rightarrow> d2m_options \<Rightarrow> int + d2m_options" where
  "d2m_loop [] st = Inr st"
| "d2m_loop (op # ops) st = (case d2m_option_step op st of Inl code \<Rightarrow> Inl code | Inr st' \<Rightarrow> d2m_loop ops st')"

definition d2m_process_command_line_arguments :: "int \<Rightarrow> (char \<times> byte list) list \<Rightarrow> int + d2m_options" where
  "d2m_process_command_line_arguments init_p ops =
     d2m_loop ops \<lparr>dm_dvr_channel = 0, dm_in_file = [], dm_out_file = [], dm_ntsc_exact_60hz = False, dm_tsproc = TSPROC_DO_CORRECT, dm_p = init_p\<rparr>"

text \<open>\<open>convert\<close> is \<open>process_dhav_stream\<close> on the two file names; whatever it gives, the exit code is 0.\<close>

definition d2m_main ::
    "int \<Rightarrow> (dvrcontrol \<Rightarrow> byte list \<Rightarrow> byte list \<Rightarrow> 'r option) \<Rightarrow> (char \<times> byte list) list \<Rightarrow> (int \<times> 'r option) option" where
  "d2m_main init_p convert ops =
     (case d2m_process_command_line_arguments init_p ops of
        Inl code \<Rightarrow> Some (code, None)
      | Inr opt \<Rightarrow>
          if dm_dvr_channel opt > 255 then Some (0, None)
          else do {
            r \<leftarrow> convert \<lparr>dc_ntsc_exact_60hz = dm_ntsc_exact_60hz opt, dc_tsproc = dm_tsproc opt\<rparr> (dm_in_file opt) (dm_out_file opt);
            Some (0, Some r)
          })"

section \<open>Accepted options are in range\<close>

definition options_ok :: "cl_state \<Rightarrow> bool" where
  "options_ok st \<longleftrightarrow> co_operation_mode st \<in> {0, 1} \<and> 1 \<le> uint (co_dvr_port st) \<and> 0 \<le> co_dvr_channel st \<and> co_dvr_channel st \<le> 255 \<and>
     co_dvr_sub_channel st \<in> {0, 1} \<and> co_media_container st \<in> {0, 1} \<and> uint (co_keep_alive st) \<le> 1000000 \<and>
     uint (co_timeout st) \<le> 1000000 \<and> uint (co_net_protocol_dialect st) \<le> 1"

lemma default_options_ok: "options_ok (default_options init_p)"
  by (simp add: options_ok_def default_options_def)

lemma scan_p_options: "options_ok (scan_p s st) = options_ok st"
  by (simp add: scan_p_def options_ok_def split: option.split)

lemma uint_of_int_ok [simp]:
  "0 < i \<Longrightarrow> i \<le> 65535 \<Longrightarrow> uint (of_int i :: u16) = i" "0 \<le> i \<Longrightarrow> i \<le> 1000000 \<Longrightarrow> uint (of_int i :: u32) = i"
  by (simp_all add: uint_word_of_int)

lemma options_ok_numbers:
  "options_ok st \<Longrightarrow> 0 < i \<Longrightarrow> i \<le> 1 \<Longrightarrow> options_ok (st\<lparr>co_net_protocol_dialect := of_int i\<rparr>)"
  "options_ok st \<Longrightarrow> i = 0 \<or> i = 1 \<Longrightarrow> options_ok (st\<lparr>defined_operation_mode := t, co_operation_mode := i\<rparr>)"
  "options_ok st \<Longrightarrow> 0 < i \<Longrightarrow> i \<le> 65535 \<Longrightarrow> options_ok (st\<lparr>co_dvr_port := of_int i\<rparr>)"
  "options_ok st \<Longrightarrow> 0 \<le> i \<Longrightarrow> i \<le> 255 \<Longrightarrow> options_ok (st\<lparr>co_dvr_channel := i\<rparr>)"
  "options_ok st \<Longrightarrow> 0 \<le> i \<Longrightarrow> i \<le> 1 \<Longrightarrow> options_ok (st\<lparr>co_dvr_sub_channel := i\<rparr>)"
  "options_ok st \<Longrightarrow> i = 0 \<or> i = 1 \<Longrightarrow> options_ok (st\<lparr>co_media_container := i\<rparr>)"
  "options_ok st \<Longrightarrow> 0 \<le> i \<Longrightarrow> i \<le> 1000000 \<Longrightarrow> options_ok (st\<lparr>co_keep_alive := of_int i\<rparr>)"
  "options_ok st \<Longrightarrow> 0 \<le> i \<Longrightarrow> i \<le> 1000000 \<Longrightarrow> options_ok (st\<lparr>co_timeout := of_int i\<rparr>)"
  "options_ok st \<Longrightarrow> options_ok (st\<lparr>co_tsproc := x\<rparr>)"
  by (auto simp: options_ok_def)

lemma cases_ok:
  assumes "options_ok st"
  shows "case_dialect s st = Inr st' \<Longrightarrow> options_ok st'" "case_mode s st = Inr st' \<Longrightarrow> options_ok st'"
    "case_port s st = Inr st' \<Longrightarrow> options_ok st'" "case_channel s st = Inr st' \<Longrightarrow> options_ok st'"
    "case_sub_channel s st = Inr st' \<Longrightarrow> options_ok st'" "case_container s st = Inr st' \<Longrightarrow> options_ok st'"
    "case_keep_alive s st = Inr st' \<Longrightarrow> options_ok st'" "case_timeout s st = Inr st' \<Longrightarrow> options_ok st'"
    "case_tsproc s st = Inr st' \<Longrightarrow> options_ok st'"
proof -
  have u: "options_ok (scan_p s st)" using assms by (simp add: scan_p_options)
  show "case_dialect s st = Inr st' \<Longrightarrow> options_ok st'" "case_port s st = Inr st' \<Longrightarrow> options_ok st'"
    "case_keep_alive s st = Inr st' \<Longrightarrow> options_ok st'" "case_timeout s st = Inr st' \<Longrightarrow> options_ok st'"
    "case_tsproc s st = Inr st' \<Longrightarrow> options_ok st'"
    using options_ok_numbers [OF u]
    by (auto simp: case_dialect_def case_port_def case_keep_alive_def case_timeout_def case_tsproc_def Let_def split: if_splits)
  show "case_mode s st = Inr st' \<Longrightarrow> options_ok st'" "case_channel s st = Inr st' \<Longrightarrow> options_ok st'"
    "case_sub_channel s st = Inr st' \<Longrightarrow> options_ok st'" "case_container s st = Inr st' \<Longrightarrow> options_ok st'"
    using options_ok_numbers [OF assms]
    by (auto simp: case_mode_def case_channel_def case_sub_channel_def case_container_def Let_def split: if_splits)
qed

lemma options_ok_strings [simp]:
  "options_ok (st\<lparr>defined_dvr_target := t, co_dvr_target := s\<rparr>) = options_ok st"
  "options_ok (st\<lparr>defined_dvr_user := t, co_dvr_user := s\<rparr>) = options_ok st"
  "options_ok (st\<lparr>defined_dvr_password := t, co_dvr_password := s\<rparr>) = options_ok st"
  "options_ok (st\<lparr>co_out_file := s\<rparr>) = options_ok st" "options_ok (st\<lparr>co_ntsc_exact_60hz := t\<rparr>) = options_ok st"
  by (simp_all add: options_ok_def)

lemma option_step_ok:
  assumes "options_ok st" "option_step op st = Inr st'" shows "options_ok st'"
proof -
  obtain c s where op: "op = (c, s)" by fastforce
  show ?thesis
    using assms(2) cases_ok [OF assms(1), of s st'] assms(1) unfolding option_step_def op Let_def prod.case
    by (simp only: split: if_splits) auto
qed

lemma options_loop_ok: "options_ok st \<Longrightarrow> options_loop ops st = Inr st' \<Longrightarrow> options_ok st'"
  by (induction ops arbitrary: st) (auto dest: option_step_ok split: sum.splits)

lemma accepted_parts:
  assumes "process_command_line_arguments init_p ops = Inr opt"
  shows "options_ok opt \<and> length (co_dvr_user opt) + length (co_dvr_password opt) \<le> MAX_USER_PASSWD_LEN"
proof -
  obtain st where st: "options_loop ops (default_options init_p) = Inr st" "option_checks st = Inr opt"
    using assms by (auto simp: process_command_line_arguments_def split: sum.splits)
  then have "opt = st" "length (co_dvr_user st) + length (co_dvr_password st) \<le> MAX_USER_PASSWD_LEN"
    by (auto simp: option_checks_def split: if_splits)
  then show ?thesis using options_loop_ok [OF default_options_ok st(1)] by simp
qed

lemma option_step_code: "option_step op st = Inl code \<Longrightarrow> code \<in> {0, 1}"
  by (auto simp: option_step_def case_dialect_def case_mode_def case_port_def case_channel_def case_sub_channel_def
      case_container_def case_keep_alive_def case_timeout_def case_tsproc_def Let_def split: if_splits prod.splits)

lemma options_loop_code: "options_loop ops st = Inl code \<Longrightarrow> code \<in> {0, 1}"
  by (induction ops arbitrary: st) (auto dest: option_step_code split: sum.splits)

lemma refused_code: "process_command_line_arguments init_p ops = Inl code \<Longrightarrow> code \<in> {0, 1}"
  by (auto simp: process_command_line_arguments_def option_checks_def dest: options_loop_code split: sum.splits if_splits)


definition sample_line :: "(char \<times> byte list) list" where
  "sample_line = [(CHR ''m'', [0x31]), (CHR ''t'', [0x78]), (CHR ''u'', [0x61]), (CHR ''w'', [0x62]), (CHR ''c'', [0x33]),
     (CHR ''k'', [0x32, 0x30, 0x30])]"


section \<open>The whole program\<close>



definition sample_timer :: spenttime where
  "sample_timer = \<lparr>spt_last = Timeval 0 0, spt_current = Timeval 0 0\<rparr>"

definition sample_turn_state :: pipe_state where
  "sample_turn_state =
     \<lparr>ps_control = sample_control, ps_stream = sample_control, ps_pipe = \<lparr>wr_plan = [], written = []\<rparr>\<rparr>"



section \<open>What the checks miss\<close>

text \<open>The default dialect cannot be asked for.\<close>

lemma dialect_zero_rejected: "option_step (CHR ''a'', [0x30]) st = Inl 1"
proof -
  have "sscanf_d [0x30] = Some 0" by code_simp
  then show ?thesis by (simp add: option_step_def case_dialect_def scan_p_def)
qed

text \<open>A number that cannot be read is replaced by the one of an earlier option.\<close>

lemma unreadable_number_reused:
  "sscanf_d s = None \<Longrightarrow> 0 \<le> cl_p st \<Longrightarrow> cl_p st \<le> 1000000 \<Longrightarrow>
   option_step (CHR ''k'', s) st = Inr (st\<lparr>co_keep_alive := of_int (cl_p st)\<rparr>)"
  by (simp add: option_step_def case_keep_alive_def scan_p_def)

text \<open>A keep-alive time beyond the timeout, which the program calls an error, is accepted.\<close>

lemma long_keep_alive_accepted:
  "\<exists>opt. process_command_line_arguments 0 [(CHR ''m'', [0x30]), (CHR ''t'', [0x78]), (CHR ''u'', [0x61]), (CHR ''w'', [0x62]),
     (CHR ''k'', [0x39]), (CHR ''e'', [0x38])] = Inr opt \<and> co_keep_alive opt = 9 \<and> co_timeout opt = 8"
proof -
  have "case process_command_line_arguments 0 [(CHR ''m'', [0x30]), (CHR ''t'', [0x78]), (CHR ''u'', [0x61]), (CHR ''w'', [0x62]),
     (CHR ''k'', [0x39]), (CHR ''e'', [0x38])] of Inr opt \<Rightarrow> co_keep_alive opt = 9 \<and> co_timeout opt = 8 | Inl _ \<Rightarrow> False"
    by code_simp
  then show ?thesis by (auto split: sum.splits)
qed

end
