(* ===== verification/Getopt.thy ===== *)
theory Getopt
  imports Command_Line
begin

text \<open>
  The option tables of both programs (\<open>src/tanidvr.c\<close>, \<open>src/dhav2mkv.c\<close>) and what \<open>getopt_long\<close> makes of the
  arguments with them. The ways of writing an option (\<open>-c 3\<close>, \<open>-c3\<close>, \<open>--dvr-channel=3\<close>, \<open>--dvr-channel 3\<close>, \<open>--dvr-ch 3\<close>,
  flags behind one dash) are a relation between arguments and options that \<open>getopt_long\<close> inverts.
\<close>

section \<open>\<open>getopt_long\<close>\<close>

text \<open>\<open>struct option\<close> without its \<open>flag\<close>, which both programs leave 0.\<close>

record long_option =
  lo_name :: string
  lo_has_arg :: bool
  lo_val :: char

text \<open>The string of short options: a colon behind those that take an argument.\<close>

fun short_options :: "string \<Rightarrow> (char \<times> bool) list" where
  "short_options [] = []"
| "short_options (c # s) =
     (if s \<noteq> [] \<and> hd s = CHR '':'' then (c, True) # short_options (tl s) else (c, False) # short_options s)"

definition byte_of :: "char \<Rightarrow> byte" where
  "byte_of c = of_nat (of_char c)"

definition find_short :: "(char \<times> bool) list \<Rightarrow> byte \<Rightarrow> (char \<times> bool) option" where
  "find_short so x = List.find (\<lambda>(c, _). byte_of c = x) so"

text \<open>An exact name, or the only one that begins with what is given.\<close>

definition find_long :: "long_option list \<Rightarrow> byte list \<Rightarrow> long_option option" where
  "find_long lo name =
     (case List.find (\<lambda>l. ascii (lo_name l) = name) lo of
        Some l \<Rightarrow> Some l
      | None \<Rightarrow> (case filter (\<lambda>l. take (length name) (ascii (lo_name l)) = name) lo of [l] \<Rightarrow> Some l | _ \<Rightarrow> None))"

text \<open>
  The letters behind a single dash, up to one that takes an argument: the rest of them, or, where
  nothing is left, the next argument. A letter that is not known gives a question mark.
\<close>

fun letters :: "(char \<times> bool) list \<Rightarrow> byte list \<Rightarrow> (char \<times> byte list) list \<times> char option" where
  "letters so [] = ([], None)"
| "letters so (x # bs) =
     (case find_short so x of
        None \<Rightarrow> let (ops, open_arg) = letters so bs in ((CHR ''?'', []) # ops, open_arg)
      | Some (c, False) \<Rightarrow> let (ops, open_arg) = letters so bs in ((c, []) # ops, open_arg)
      | Some (c, True) \<Rightarrow> if bs \<noteq> [] then ([(c, bs)], None) else ([], Some c))"

text \<open>
  The options one after the other until there are no more. Arguments that are no options are passed over;
  with \<open>posixly_correct\<close> set in the environment they end the options. An option without argument has a
  null \<open>optarg\<close>, here the empty string.
\<close>

fun getopt_long :: "bool \<Rightarrow> (char \<times> bool) list \<Rightarrow> long_option list \<Rightarrow> byte list list \<Rightarrow> (char \<times> byte list) list" where
  "getopt_long posixly_correct so lo [] = []"
| "getopt_long posixly_correct so lo (a # argv) =
     (if a = [0x2D, 0x2D] then []
      else if take 2 a = [0x2D, 0x2D] then
        let name = takeWhile (\<lambda>x. x \<noteq> 0x3D) (drop 2 a); value = dropWhile (\<lambda>x. x \<noteq> 0x3D) (drop 2 a)
        in case find_long lo name of
             None \<Rightarrow> (CHR ''?'', []) # getopt_long posixly_correct so lo argv
           | Some l \<Rightarrow>
               if lo_has_arg l then
                 if value \<noteq> [] then (lo_val l, tl value) # getopt_long posixly_correct so lo argv
                 else (case argv of
                         [] \<Rightarrow> [(CHR ''?'', [])]
                       | v # argv' \<Rightarrow> (lo_val l, v) # getopt_long posixly_correct so lo argv')
               else (if value \<noteq> [] then CHR ''?'' else lo_val l, []) # getopt_long posixly_correct so lo argv
      else if take 1 a = [0x2D] \<and> length a > 1 then
        (case letters so (tl a) of
           (ops, None) \<Rightarrow> ops @ getopt_long posixly_correct so lo argv
         | (ops, Some c) \<Rightarrow>
             (case argv of
                [] \<Rightarrow> ops @ [(CHR ''?'', [])]
              | v # argv' \<Rightarrow> ops @ (c, v) # getopt_long posixly_correct so lo argv'))
      else if posixly_correct then []
      else getopt_long posixly_correct so lo argv)"

section \<open>The tables\<close>

definition tanidvr_optstring :: string where
  "tanidvr_optstring = ''a:hm:t:p:u:w:c:s:n:f:k:e:xr:''"

definition tanidvr_long_options :: "long_option list" where
  "tanidvr_long_options =
     [\<lparr>lo_name = ''help'', lo_has_arg = False, lo_val = CHR ''h''\<rparr>,
      \<lparr>lo_name = ''operation-mode'', lo_has_arg = True, lo_val = CHR ''m''\<rparr>,
      \<lparr>lo_name = ''dvr-target'', lo_has_arg = True, lo_val = CHR ''t''\<rparr>,
      \<lparr>lo_name = ''dvr-port'', lo_has_arg = True, lo_val = CHR ''p''\<rparr>,
      \<lparr>lo_name = ''dvr-user'', lo_has_arg = True, lo_val = CHR ''u''\<rparr>,
      \<lparr>lo_name = ''dvr-passwd'', lo_has_arg = True, lo_val = CHR ''w''\<rparr>,
      \<lparr>lo_name = ''dvr-channel'', lo_has_arg = True, lo_val = CHR ''c''\<rparr>,
      \<lparr>lo_name = ''dvr-sub-channel'', lo_has_arg = True, lo_val = CHR ''s''\<rparr>,
      \<lparr>lo_name = ''media-container'', lo_has_arg = True, lo_val = CHR ''n''\<rparr>,
      \<lparr>lo_name = ''out-file'', lo_has_arg = True, lo_val = CHR ''f''\<rparr>,
      \<lparr>lo_name = ''keep-alive'', lo_has_arg = True, lo_val = CHR ''k''\<rparr>,
      \<lparr>lo_name = ''timeout'', lo_has_arg = True, lo_val = CHR ''e''\<rparr>,
      \<lparr>lo_name = ''sixty-hertz-ntsc'', lo_has_arg = False, lo_val = CHR ''x''\<rparr>,
      \<lparr>lo_name = ''ts-proc'', lo_has_arg = True, lo_val = CHR ''r''\<rparr>,
      \<lparr>lo_name = ''net-protocol-dialect'', lo_has_arg = True, lo_val = CHR ''a''\<rparr>]"

definition d2m_optstring :: string where
  "d2m_optstring = ''hc:i:o:xr:''"

definition d2m_long_options :: "long_option list" where
  "d2m_long_options =
     [\<lparr>lo_name = ''help'', lo_has_arg = False, lo_val = CHR ''h''\<rparr>,
      \<lparr>lo_name = ''dvr-channel'', lo_has_arg = True, lo_val = CHR ''c''\<rparr>,
      \<lparr>lo_name = ''in-file'', lo_has_arg = True, lo_val = CHR ''i''\<rparr>,
      \<lparr>lo_name = ''out-file'', lo_has_arg = True, lo_val = CHR ''o''\<rparr>,
      \<lparr>lo_name = ''sixty-hertz-ntsc'', lo_has_arg = False, lo_val = CHR ''x''\<rparr>,
      \<lparr>lo_name = ''ts-proc'', lo_has_arg = True, lo_val = CHR ''r''\<rparr>]"

definition tanidvr_getopt :: "bool \<Rightarrow> byte list list \<Rightarrow> (char \<times> byte list) list" where
  "tanidvr_getopt posixly_correct argv =
     getopt_long posixly_correct (short_options tanidvr_optstring) tanidvr_long_options argv"

definition d2m_getopt :: "bool \<Rightarrow> byte list list \<Rightarrow> (char \<times> byte list) list" where
  "d2m_getopt posixly_correct argv =
     getopt_long posixly_correct (short_options d2m_optstring) d2m_long_options argv"


lemma tanidvr_short:
  "short_options tanidvr_optstring = [(CHR ''a'', True), (CHR ''h'', False), (CHR ''m'', True), (CHR ''t'', True), (CHR ''p'', True), (CHR ''u'', True),
     (CHR ''w'', True), (CHR ''c'', True), (CHR ''s'', True), (CHR ''n'', True), (CHR ''f'', True), (CHR ''k'', True), (CHR ''e'', True),
     (CHR ''x'', False), (CHR ''r'', True)]"
  by code_simp

text \<open>Every option of the switch has one long name, which takes an argument exactly when the letter does.\<close>

lemma tanidvr_tables_agree:
  "map (\<lambda>l. (lo_val l, lo_has_arg l)) tanidvr_long_options \<in> lists (set (short_options tanidvr_optstring)) \<and>
   distinct (map lo_val tanidvr_long_options) \<and> length tanidvr_long_options = length (short_options tanidvr_optstring)"
  unfolding tanidvr_short by (simp add: tanidvr_long_options_def)

lemma d2m_tables_agree:
  "map (\<lambda>l. (lo_val l, lo_has_arg l)) d2m_long_options = short_options d2m_optstring"
  by code_simp

section \<open>Ways of writing options\<close>

definition is_short :: "(char \<times> bool) list \<Rightarrow> char \<Rightarrow> bool \<Rightarrow> bool" where
  "is_short so c arg \<longleftrightarrow> find_short so (byte_of c) = Some (c, arg) \<and> byte_of c \<noteq> 0x2D"

definition is_long :: "long_option list \<Rightarrow> byte list \<Rightarrow> long_option \<Rightarrow> bool" where
  "is_long lo name l \<longleftrightarrow> find_long lo name = Some l \<and> name \<noteq> [] \<and> 0x3D \<notin> set name"

inductive spelled :: "bool \<Rightarrow> (char \<times> bool) list \<Rightarrow> long_option list \<Rightarrow> byte list list \<Rightarrow> (char \<times> byte list) list \<Rightarrow> bool"
  for posixly_correct so lo where
  spelled_none: "spelled posixly_correct so lo [] []"
| spelled_end: "spelled posixly_correct so lo ([0x2D, 0x2D] # argv) []"
| spelled_operand: "\<not> posixly_correct \<Longrightarrow> hd (a @ [0]) \<noteq> 0x2D \<or> a = [0x2D] \<Longrightarrow> spelled posixly_correct so lo argv ops \<Longrightarrow>
    spelled posixly_correct so lo (a # argv) ops"
| spelled_short: "is_short so c True \<Longrightarrow> spelled posixly_correct so lo argv ops \<Longrightarrow>
    spelled posixly_correct so lo ([0x2D, byte_of c] # v # argv) ((c, v) # ops)"
| spelled_joined: "is_short so c True \<Longrightarrow> v \<noteq> [] \<Longrightarrow> spelled posixly_correct so lo argv ops \<Longrightarrow>
    spelled posixly_correct so lo ((0x2D # byte_of c # v) # argv) ((c, v) # ops)"
| spelled_flag: "is_short so c False \<Longrightarrow> spelled posixly_correct so lo argv ops \<Longrightarrow>
    spelled posixly_correct so lo ([0x2D, byte_of c] # argv) ((c, []) # ops)"
| spelled_flags: "is_short so c False \<Longrightarrow> s \<noteq> [] \<Longrightarrow> hd s \<noteq> 0x2D \<Longrightarrow> spelled posixly_correct so lo ((0x2D # s) # argv) ops \<Longrightarrow>
    spelled posixly_correct so lo ((0x2D # byte_of c # s) # argv) ((c, []) # ops)"
| spelled_long: "is_long lo name l \<Longrightarrow> lo_has_arg l \<Longrightarrow> spelled posixly_correct so lo argv ops \<Longrightarrow>
    spelled posixly_correct so lo ((0x2D # 0x2D # name) # v # argv) ((lo_val l, v) # ops)"
| spelled_long_value: "is_long lo name l \<Longrightarrow> lo_has_arg l \<Longrightarrow> spelled posixly_correct so lo argv ops \<Longrightarrow>
    spelled posixly_correct so lo ((0x2D # 0x2D # name @ 0x3D # v) # argv) ((lo_val l, v) # ops)"
| spelled_long_flag: "is_long lo name l \<Longrightarrow> \<not> lo_has_arg l \<Longrightarrow> spelled posixly_correct so lo argv ops \<Longrightarrow>
    spelled posixly_correct so lo ((0x2D # 0x2D # name) # argv) ((lo_val l, []) # ops)"

lemma is_long_split:
  assumes "is_long lo name l"
  shows "takeWhile (\<lambda>x. x \<noteq> 0x3D) name = name" "dropWhile (\<lambda>x. x \<noteq> 0x3D) name = []"
    "takeWhile (\<lambda>x. x \<noteq> 0x3D) (name @ 0x3D # v) = name" "dropWhile (\<lambda>x. x \<noteq> 0x3D) (name @ 0x3D # v) = 0x3D # v"
proof -
  have n: "\<forall>x \<in> set name. x \<noteq> 0x3D" using assms by (auto simp: is_long_def)
  then show "takeWhile (\<lambda>x. x \<noteq> 0x3D) name = name" "dropWhile (\<lambda>x. x \<noteq> 0x3D) name = []" by simp_all
  show "takeWhile (\<lambda>x. x \<noteq> 0x3D) (name @ 0x3D # v) = name" "dropWhile (\<lambda>x. x \<noteq> 0x3D) (name @ 0x3D # v) = 0x3D # v"
    using n by (induction name) auto
qed

lemma getopt_spelled: "spelled posixly_correct so lo argv ops \<Longrightarrow> getopt_long posixly_correct so lo argv = ops"
proof (induction rule: spelled.induct)
  case (spelled_operand a argv ops)
  then show ?case by (cases a) (auto split: list.split)
next
  case (spelled_flags c s argv ops)
  then show ?case by (cases s) (auto simp: is_short_def split: prod.splits option.splits list.splits)
qed (auto simp: is_short_def is_long_split, auto simp: is_long_def is_long_split)

lemma d2m_spelled:
  "spelled posixly_correct (short_options d2m_optstring) d2m_long_options argv ops \<Longrightarrow>
   d2m_process_command_line_arguments init_p (d2m_getopt posixly_correct argv) = d2m_process_command_line_arguments init_p ops"
  by (simp add: d2m_getopt_def getopt_spelled)

section \<open>Numbers read back\<close>

lemma dec_digits_read:
  "list_all is_digit (dec_digits n) \<and> dec_digits n \<noteq> [] \<and>
   foldl (\<lambda>acc c. 10 * acc + (uint c - 48)) acc (dec_digits n) = acc * 10 ^ length (dec_digits n) + int n"
proof (induction n arbitrary: acc rule: less_induct)
  case (less n)
  have digit: "is_digit (0x30 + of_nat d) \<and> uint (0x30 + of_nat d :: byte) - 48 = int d" if "d < 10" for d
  proof -
    have "d \<in> {0, 1, 2, 3, 4, 5, 6, 7, 8, 9}" using that by auto
    then show ?thesis by (auto simp: is_digit_def)
  qed
  show ?case
  proof (cases "n < 10")
    case True
    then show ?thesis using digit [OF True] by (simp add: dec_digits.simps [of n] mult.commute)
  next
    case False
    then have "n div 10 < n" by simp
    from less.IH [OF this] have ih: "list_all is_digit (dec_digits (n div 10))"
      "foldl (\<lambda>acc c. 10 * acc + (uint c - 48)) acc (dec_digits (n div 10)) = acc * 10 ^ length (dec_digits (n div 10)) + int (n div 10)" by blast+
    have "10 * (int (n div 10)) + int (n mod 10) = int n" by presburger
    then show ?thesis using False ih digit [of "n mod 10"] by (simp add: dec_digits.simps [of n] algebra_simps)
  qed
qed

lemma sscanf_dec:
  assumes "0 \<le> i" "i < 2 ^ 31"
  shows "sscanf_d (dec i) = Some i"
proof -
  let ?ds = "dec_digits (nat i)"
  note r = dec_digits_read [of "nat i" 0]
  then obtain c ds where ds: "?ds = c # ds" "is_digit c" by (cases ?ds) auto
  then have c: "\<not> is_space c" "c \<noteq> 0x2D" "c \<noteq> 0x2B" by (auto simp: is_digit_def is_space_def word_le_nat_alt)
  have "dec i = ?ds" using assms(1) by (simp add: dec_def)
  moreover have "takeWhile is_digit ?ds = ?ds" using r by (simp add: list_all_iff)
  moreover have "foldl (\<lambda>acc c. 10 * acc + (uint c - 48)) 0 ?ds = i" using r assms(1) by simp
  moreover have "min (2 ^ 63 - 1) i = i" "sint (of_int i :: u32) = i" using assms by (simp_all add: signed_of_int signed_take_bit_int_eq_self)
  ultimately show ?thesis using c by (simp add: sscanf_d_def Let_def ds(1))
qed

section \<open>Settings and their options\<close>

text \<open>All options that ask for the settings of \<open>opt\<close>; two of them have no way to ask for the default.\<close>

definition option_line :: "cl_state \<Rightarrow> (char \<times> byte list) list" where
  "option_line opt =
     [(CHR ''m'', dec (co_operation_mode opt)), (CHR ''t'', co_dvr_target opt), (CHR ''p'', dec (uint (co_dvr_port opt))),
      (CHR ''u'', co_dvr_user opt), (CHR ''w'', co_dvr_password opt), (CHR ''c'', dec (co_dvr_channel opt)),
      (CHR ''s'', dec (co_dvr_sub_channel opt)), (CHR ''n'', dec (co_media_container opt)), (CHR ''f'', co_out_file opt),
      (CHR ''k'', dec (uint (co_keep_alive opt))), (CHR ''e'', dec (uint (co_timeout opt))),
      (CHR ''r'', dec (case co_tsproc opt of TSPROC_NONE \<Rightarrow> 0 | TSPROC_DO_CORRECT \<Rightarrow> 1))] @
     (if co_ntsc_exact_60hz opt then [(CHR ''x'', [])] else []) @
     (if co_net_protocol_dialect opt = 1 then [(CHR ''a'', dec 1)] else [])"

text \<open>What holds once the options \<open>D\<close> have been seen: their settings are those of \<open>opt\<close>, the others the defaults.\<close>

definition seen :: "char set \<Rightarrow> cl_state \<Rightarrow> cl_state \<Rightarrow> bool" where
  "seen D opt st \<longleftrightarrow>
     co_operation_mode st = (if CHR ''m'' \<in> D then co_operation_mode opt else 0) \<and>
     co_dvr_target st = (if CHR ''t'' \<in> D then co_dvr_target opt else []) \<and>
     co_dvr_port st = (if CHR ''p'' \<in> D then co_dvr_port opt else 37777) \<and>
     co_dvr_user st = (if CHR ''u'' \<in> D then co_dvr_user opt else []) \<and>
     co_dvr_password st = (if CHR ''w'' \<in> D then co_dvr_password opt else []) \<and>
     co_dvr_channel st = (if CHR ''c'' \<in> D then co_dvr_channel opt else 0) \<and>
     co_dvr_sub_channel st = (if CHR ''s'' \<in> D then co_dvr_sub_channel opt else 0) \<and>
     co_media_container st = (if CHR ''n'' \<in> D then co_media_container opt else 1) \<and>
     co_out_file st = (if CHR ''f'' \<in> D then co_out_file opt else []) \<and>
     co_keep_alive st = (if CHR ''k'' \<in> D then co_keep_alive opt else 100) \<and>
     co_timeout st = (if CHR ''e'' \<in> D then co_timeout opt else 5000) \<and>
     co_net_protocol_dialect st = (if CHR ''a'' \<in> D then co_net_protocol_dialect opt else 0) \<and>
     co_ntsc_exact_60hz st = (if CHR ''x'' \<in> D then co_ntsc_exact_60hz opt else False) \<and>
     co_tsproc st = (if CHR ''r'' \<in> D then co_tsproc opt else TSPROC_DO_CORRECT) \<and>
     defined_operation_mode st = (CHR ''m'' \<in> D) \<and> defined_dvr_target st = (CHR ''t'' \<in> D) \<and>
     defined_dvr_user st = (CHR ''u'' \<in> D) \<and> defined_dvr_password st = (CHR ''w'' \<in> D)"

lemma seen_nothing: "seen {} opt (default_options init_p)"
  by (simp add: seen_def default_options_def)

lemma seen_p [simp]: "seen D opt (st\<lparr>cl_p := i\<rparr>) = seen D opt st"
  by (simp add: seen_def)

lemma seen_update:
  assumes "seen D opt st"
  shows "seen (insert (CHR ''m'') D) opt (st\<lparr>defined_operation_mode := True, co_operation_mode := co_operation_mode opt\<rparr>)"
    "seen (insert (CHR ''t'') D) opt (st\<lparr>defined_dvr_target := True, co_dvr_target := co_dvr_target opt\<rparr>)"
    "seen (insert (CHR ''p'') D) opt (st\<lparr>co_dvr_port := co_dvr_port opt\<rparr>)"
    "seen (insert (CHR ''u'') D) opt (st\<lparr>defined_dvr_user := True, co_dvr_user := co_dvr_user opt\<rparr>)"
    "seen (insert (CHR ''w'') D) opt (st\<lparr>defined_dvr_password := True, co_dvr_password := co_dvr_password opt\<rparr>)"
    "seen (insert (CHR ''c'') D) opt (st\<lparr>co_dvr_channel := co_dvr_channel opt\<rparr>)"
    "seen (insert (CHR ''s'') D) opt (st\<lparr>co_dvr_sub_channel := co_dvr_sub_channel opt\<rparr>)"
    "seen (insert (CHR ''n'') D) opt (st\<lparr>co_media_container := co_media_container opt\<rparr>)"
    "seen (insert (CHR ''f'') D) opt (st\<lparr>co_out_file := co_out_file opt\<rparr>)"
    "seen (insert (CHR ''k'') D) opt (st\<lparr>co_keep_alive := co_keep_alive opt\<rparr>)"
    "seen (insert (CHR ''e'') D) opt (st\<lparr>co_timeout := co_timeout opt\<rparr>)"
    "seen (insert (CHR ''x'') D) opt (st\<lparr>co_ntsc_exact_60hz := co_ntsc_exact_60hz opt\<rparr>)"
    "seen (insert (CHR ''r'') D) opt (st\<lparr>co_tsproc := co_tsproc opt\<rparr>)"
    "seen (insert (CHR ''a'') D) opt (st\<lparr>co_net_protocol_dialect := co_net_protocol_dialect opt\<rparr>)"
  using assms by (simp_all add: seen_def)

lemma numbers_read:
  assumes "options_ok opt"
  shows "sscanf_d (dec (co_operation_mode opt)) = Some (co_operation_mode opt)"
    "sscanf_d (dec (uint (co_dvr_port opt))) = Some (uint (co_dvr_port opt))"
    "sscanf_d (dec (co_dvr_channel opt)) = Some (co_dvr_channel opt)"
    "sscanf_d (dec (co_dvr_sub_channel opt)) = Some (co_dvr_sub_channel opt)"
    "sscanf_d (dec (co_media_container opt)) = Some (co_media_container opt)"
    "sscanf_d (dec (uint (co_keep_alive opt))) = Some (uint (co_keep_alive opt))"
    "sscanf_d (dec (uint (co_timeout opt))) = Some (uint (co_timeout opt))"
    "sscanf_d (dec 0) = Some 0" "sscanf_d (dec 1) = Some 1"
  using assms uint_bounded [of "co_dvr_port opt"] by (auto simp: options_ok_def intro!: sscanf_dec)

text \<open>Each case of the switch, on the text of a number that is in range.\<close>

lemma cases_read:
  assumes "sscanf_d s = Some i"
  shows "i \<in> {0, 1} \<Longrightarrow> case_mode s st = Inr (st\<lparr>defined_operation_mode := True, co_operation_mode := i\<rparr>)"
    "0 < i \<Longrightarrow> i \<le> 65535 \<Longrightarrow> case_port s st = Inr (st\<lparr>cl_p := i, co_dvr_port := of_int i\<rparr>)"
    "0 \<le> i \<Longrightarrow> i \<le> 255 \<Longrightarrow> case_channel s st = Inr (st\<lparr>co_dvr_channel := i\<rparr>)"
    "i \<in> {0, 1} \<Longrightarrow> case_sub_channel s st = Inr (st\<lparr>co_dvr_sub_channel := i\<rparr>)"
    "i \<in> {0, 1} \<Longrightarrow> case_container s st = Inr (st\<lparr>co_media_container := i\<rparr>)"
    "0 \<le> i \<Longrightarrow> i \<le> 1000000 \<Longrightarrow> case_keep_alive s st = Inr (st\<lparr>cl_p := i, co_keep_alive := of_int i\<rparr>)"
    "0 \<le> i \<Longrightarrow> i \<le> 1000000 \<Longrightarrow> case_timeout s st = Inr (st\<lparr>cl_p := i, co_timeout := of_int i\<rparr>)"
    "i = 0 \<Longrightarrow> case_tsproc s st = Inr (st\<lparr>cl_p := i, co_tsproc := TSPROC_NONE\<rparr>)"
    "i = 1 \<Longrightarrow> case_tsproc s st = Inr (st\<lparr>cl_p := i, co_tsproc := TSPROC_DO_CORRECT\<rparr>)"
    "i = 1 \<Longrightarrow> case_dialect s st = Inr (st\<lparr>cl_p := i, co_net_protocol_dialect := 1\<rparr>)"
  using assms
  by (auto simp: case_mode_def case_port_def case_channel_def case_sub_channel_def case_container_def case_keep_alive_def
      case_timeout_def case_tsproc_def case_dialect_def scan_p_def scan_to_def Let_def)

lemma option_step_cases [simp]:
  "option_step (CHR ''m'', s) st = case_mode s st" "option_step (CHR ''p'', s) st = case_port s st"
  "option_step (CHR ''c'', s) st = case_channel s st" "option_step (CHR ''s'', s) st = case_sub_channel s st"
  "option_step (CHR ''n'', s) st = case_container s st" "option_step (CHR ''k'', s) st = case_keep_alive s st"
  "option_step (CHR ''e'', s) st = case_timeout s st" "option_step (CHR ''r'', s) st = case_tsproc s st"
  "option_step (CHR ''a'', s) st = case_dialect s st"
  "option_step (CHR ''t'', s) st = Inr (st\<lparr>defined_dvr_target := True, co_dvr_target := s\<rparr>)"
  "option_step (CHR ''u'', s) st = Inr (st\<lparr>defined_dvr_user := True, co_dvr_user := s\<rparr>)"
  "option_step (CHR ''w'', s) st = Inr (st\<lparr>defined_dvr_password := True, co_dvr_password := s\<rparr>)"
  "option_step (CHR ''f'', s) st = Inr (st\<lparr>co_out_file := s\<rparr>)"
  "option_step (CHR ''x'', s) st = Inr (st\<lparr>co_ntsc_exact_60hz := True\<rparr>)"
  by (simp_all add: option_step_def)

lemma option_seen:
  assumes ok: "options_ok opt" and op: "op \<in> set (option_line opt)" and st: "seen D opt st"
  shows "\<exists>st'. option_step op st = Inr st' \<and> seen (insert (fst op) D) opt st'"
proof -
  have r: "co_operation_mode opt \<in> {0, 1}" "0 < uint (co_dvr_port opt)" "uint (co_dvr_port opt) \<le> 65535" "0 \<le> co_dvr_channel opt"
    "co_dvr_channel opt \<le> 255" "co_dvr_sub_channel opt \<in> {0, 1}" "co_media_container opt \<in> {0, 1}"
    "0 \<le> uint (co_keep_alive opt)" "uint (co_keep_alive opt) \<le> 1000000" "0 \<le> uint (co_timeout opt)" "uint (co_timeout opt) \<le> 1000000"
    using ok uint_bounded [of "co_dvr_port opt"] by (auto simp: options_ok_def)
  note n = numbers_read [OF ok]
  have p: "seen D opt (st\<lparr>cl_p := i\<rparr>)" for i using st by simp
  define P where "P op \<longleftrightarrow> (\<exists>st'. option_step op st = Inr st' \<and> seen (insert (fst op) D) opt st')" for op
  have strings: "P (CHR ''t'', co_dvr_target opt)" "P (CHR ''u'', co_dvr_user opt)" "P (CHR ''w'', co_dvr_password opt)"
    "P (CHR ''f'', co_out_file opt)"
    using seen_update(2,4,5,9) [OF st] by (simp_all add: P_def)
  have small: "P (CHR ''m'', dec (co_operation_mode opt))" "P (CHR ''s'', dec (co_dvr_sub_channel opt))"
    "P (CHR ''n'', dec (co_media_container opt))" "P (CHR ''c'', dec (co_dvr_channel opt))"
    using cases_read(1) [OF n(1) r(1)] cases_read(4) [OF n(4) r(6)] cases_read(5) [OF n(5) r(7)] cases_read(3) [OF n(3) r(4,5)]
      seen_update(1,6,7,8) [OF st]
    by (simp_all add: P_def)
  have large: "P (CHR ''p'', dec (uint (co_dvr_port opt)))" "P (CHR ''k'', dec (uint (co_keep_alive opt)))" "P (CHR ''e'', dec (uint (co_timeout opt)))"
    using cases_read(2) [OF n(2) r(2,3)] cases_read(6) [OF n(6) r(8,9)] cases_read(7) [OF n(7) r(10,11)] seen_update(3,10,11) [OF p]
    by (simp_all add: P_def)
  have "P (CHR ''r'', dec (case co_tsproc opt of TSPROC_NONE \<Rightarrow> 0 | TSPROC_DO_CORRECT \<Rightarrow> 1))"
    using cases_read(8) [OF n(8) refl] cases_read(9) [OF n(9) refl] seen_update(13) [OF p] by (cases "co_tsproc opt") (simp_all add: P_def)
  moreover have "P (CHR ''x'', [])" if "co_ntsc_exact_60hz opt" using seen_update(12) [OF st] that by (simp add: P_def)
  moreover have "P (CHR ''a'', dec 1)" if "co_net_protocol_dialect opt = 1"
    using cases_read(10) [OF n(9) refl] seen_update(14) [OF p] that by (simp add: P_def)
  ultimately have "list_all P (option_line opt)" by (simp add: option_line_def strings small large)
  then show ?thesis using op by (simp add: list_all_iff P_def)
qed

lemma options_seen:
  "options_ok opt \<Longrightarrow> set ops \<subseteq> set (option_line opt) \<Longrightarrow> seen D opt st \<Longrightarrow>
   \<exists>st'. options_loop ops st = Inr st' \<and> seen (fst ` set ops \<union> D) opt st'"
proof (induction ops arbitrary: D st)
  case (Cons op ops)
  from option_seen [OF Cons.prems(1) _ Cons.prems(3), of op] Cons.prems(2) obtain st1 where
    st1: "option_step op st = Inr st1" "seen (insert (fst op) D) opt st1" by auto
  from Cons.IH [OF Cons.prems(1) _ st1(2)] Cons.prems(2) st1(1) show ?case by auto
qed simp

lemma decimals_differ: "dec i = dec j \<Longrightarrow> 0 \<le> i \<Longrightarrow> i < 2 ^ 31 \<Longrightarrow> 0 \<le> j \<Longrightarrow> j < 2 ^ 31 \<Longrightarrow> i = j"
  by (metis option.inject sscanf_dec)

lemma default_line:
  "option_line (default_options init_p) = [(CHR ''m'', dec 0), (CHR ''t'', []), (CHR ''p'', dec 37777), (CHR ''u'', []), (CHR ''w'', []),
     (CHR ''c'', dec 0), (CHR ''s'', dec 0), (CHR ''n'', dec 1), (CHR ''f'', []), (CHR ''k'', dec 100), (CHR ''e'', dec 5000), (CHR ''r'', dec 1)]"
  by (simp add: option_line_def default_options_def)

lemma settings_left_out:
  assumes ok: "options_ok opt" and line: "set (option_line opt) \<subseteq> set ops \<union> set (option_line (default_options init_p))"
  shows "CHR ''p'' \<notin> fst ` set ops \<Longrightarrow> co_dvr_port opt = 37777" "CHR ''c'' \<notin> fst ` set ops \<Longrightarrow> co_dvr_channel opt = 0"
    "CHR ''s'' \<notin> fst ` set ops \<Longrightarrow> co_dvr_sub_channel opt = 0" "CHR ''n'' \<notin> fst ` set ops \<Longrightarrow> co_media_container opt = 1"
    "CHR ''f'' \<notin> fst ` set ops \<Longrightarrow> co_out_file opt = []" "CHR ''k'' \<notin> fst ` set ops \<Longrightarrow> co_keep_alive opt = 100"
    "CHR ''e'' \<notin> fst ` set ops \<Longrightarrow> co_timeout opt = 5000" "CHR ''r'' \<notin> fst ` set ops \<Longrightarrow> co_tsproc opt = TSPROC_DO_CORRECT"
    "CHR ''x'' \<notin> fst ` set ops \<Longrightarrow> \<not> co_ntsc_exact_60hz opt" "CHR ''a'' \<notin> fst ` set ops \<Longrightarrow> co_net_protocol_dialect opt = 0"
proof -
  have default: "op \<in> set (option_line (default_options init_p))" if "op \<in> set (option_line opt)" "fst op \<notin> fst ` set ops" for op
    using that line by auto
  have r: "uint (co_dvr_port opt) < 2 ^ 31" "0 \<le> co_dvr_channel opt" "co_dvr_channel opt < 2 ^ 31" "0 \<le> co_dvr_sub_channel opt"
    "co_dvr_sub_channel opt < 2 ^ 31" "0 \<le> co_media_container opt" "co_media_container opt < 2 ^ 31"
    "uint (co_keep_alive opt) < 2 ^ 31" "uint (co_timeout opt) < 2 ^ 31" "uint (co_net_protocol_dialect opt) \<le> 1"
    using ok uint_bounded [of "co_dvr_port opt"] by (auto simp: options_ok_def)
  show "co_dvr_port opt = 37777" if "CHR ''p'' \<notin> fst ` set ops"
  proof -
    have "dec (uint (co_dvr_port opt)) = dec 37777"
      using default [of "(CHR ''p'', dec (uint (co_dvr_port opt)))"] that by (simp add: default_line) (simp add: option_line_def)
    from decimals_differ [OF this] r(1) have "uint (co_dvr_port opt) = uint (37777 :: u16)" by simp
    then show ?thesis by (simp only: word_uint_eq_iff)
  qed
  show "co_dvr_channel opt = 0" if "CHR ''c'' \<notin> fst ` set ops"
    using default [of "(CHR ''c'', dec (co_dvr_channel opt))"] that decimals_differ [of "co_dvr_channel opt" 0] r(2,3)
    by (simp add: default_line) (simp add: option_line_def)
  show "co_dvr_sub_channel opt = 0" if "CHR ''s'' \<notin> fst ` set ops"
    using default [of "(CHR ''s'', dec (co_dvr_sub_channel opt))"] that decimals_differ [of "co_dvr_sub_channel opt" 0] r(4,5)
    by (simp add: default_line) (simp add: option_line_def)
  show "co_media_container opt = 1" if "CHR ''n'' \<notin> fst ` set ops"
    using default [of "(CHR ''n'', dec (co_media_container opt))"] that decimals_differ [of "co_media_container opt" 1] r(6,7)
    by (simp add: default_line) (simp add: option_line_def)
  show "co_out_file opt = []" if "CHR ''f'' \<notin> fst ` set ops"
    using default [of "(CHR ''f'', co_out_file opt)"] that by (simp add: default_line) (simp add: option_line_def)
  show "co_keep_alive opt = 100" if "CHR ''k'' \<notin> fst ` set ops"
  proof -
    have "dec (uint (co_keep_alive opt)) = dec 100"
      using default [of "(CHR ''k'', dec (uint (co_keep_alive opt)))"] that by (simp add: default_line) (simp add: option_line_def)
    from decimals_differ [OF this] r(8) have "uint (co_keep_alive opt) = uint (100 :: u32)" by simp
    then show ?thesis by (simp only: word_uint_eq_iff)
  qed
  show "co_timeout opt = 5000" if "CHR ''e'' \<notin> fst ` set ops"
  proof -
    have "dec (uint (co_timeout opt)) = dec 5000"
      using default [of "(CHR ''e'', dec (uint (co_timeout opt)))"] that by (simp add: default_line) (simp add: option_line_def)
    from decimals_differ [OF this] r(9) have "uint (co_timeout opt) = uint (5000 :: u32)" by simp
    then show ?thesis by (simp only: word_uint_eq_iff)
  qed
  show "co_tsproc opt = TSPROC_DO_CORRECT" if "CHR ''r'' \<notin> fst ` set ops"
    using default [of "(CHR ''r'', dec (case co_tsproc opt of TSPROC_NONE \<Rightarrow> 0 | TSPROC_DO_CORRECT \<Rightarrow> 1))"] that decimals_differ [of 0 1]
    by (cases "co_tsproc opt") (simp_all add: default_line, simp add: option_line_def)
  show "\<not> co_ntsc_exact_60hz opt" if "CHR ''x'' \<notin> fst ` set ops"
    using default [of "(CHR ''x'', [])"] that by (auto simp add: default_line) (simp add: option_line_def)
  show "co_net_protocol_dialect opt = 0" if "CHR ''a'' \<notin> fst ` set ops"
  proof -
    have "co_net_protocol_dialect opt \<noteq> 1"
      using default [of "(CHR ''a'', dec 1)"] that by (auto simp add: default_line) (simp add: option_line_def)
    then have "uint (co_net_protocol_dialect opt) \<noteq> 1" by (metis uint_1 word_uint_eqI)
    then have "uint (co_net_protocol_dialect opt) = 0" using r(10) uint_nonnegative [of "co_net_protocol_dialect opt"] by linarith
    then show ?thesis by (simp add: unsigned_eq_0_iff)
  qed
qed

lemma settings_read:
  assumes ok: "options_ok opt" and fits: "length (co_dvr_user opt) + length (co_dvr_password opt) \<le> MAX_USER_PASSWD_LEN"
    and ops: "set ops \<subseteq> set (option_line opt)" "set (option_line opt) \<subseteq> set ops \<union> set (option_line (default_options 0))"
      "{CHR ''m'', CHR ''t'', CHR ''u'', CHR ''w''} \<subseteq> fst ` set ops"
  shows "\<exists>st. process_command_line_arguments init_p ops = Inr st \<and> command_options.truncate st = command_options.truncate opt"
proof -
  from options_seen [OF ok ops(1) seen_nothing] obtain st where
    st: "options_loop ops (default_options init_p) = Inr st" "seen (fst ` set ops) opt st" by auto
  note left = settings_left_out [OF ok ops(2)]
  have same: "command_options.truncate st = command_options.truncate opt"
    using st(2) ops(3) left unfolding command_options.truncate_def seen_def by (intro command_options.equality) simp_all
  have "option_checks st = Inr st"
    using st(2) ops(3) fits unfolding seen_def by (simp add: option_checks_def)
  then show ?thesis using st(1) same by (simp add: process_command_line_arguments_def)
qed

section \<open>Properties\<close>

text \<open>
  C31: The command line can be written in any of the ways the system allows: with short and long options,
  abbreviated or not, their arguments attached or apart, flags behind one dash, in any order, repeated, other
  words in between, and options left out where the default is wanted. Whatever the way, the program takes
  exactly the settings that are asked for.
\<close>
theorem command_line_reads_back:
  assumes "options_ok opt" "length (co_dvr_user opt) + length (co_dvr_password opt) \<le> MAX_USER_PASSWD_LEN"
    and "spelled posixly_correct (short_options tanidvr_optstring) tanidvr_long_options argv ops"
    and "set ops \<subseteq> set (option_line opt)" "set (option_line opt) \<subseteq> set ops \<union> set (option_line (default_options 0))"
      "{CHR ''m'', CHR ''t'', CHR ''u'', CHR ''w''} \<subseteq> fst ` set ops"
  shows "\<exists>st. process_command_line_arguments init_p (tanidvr_getopt posixly_correct argv) = Inr st \<and>
    command_options.truncate st = command_options.truncate opt"
  using settings_read [OF assms(1,2,4-6)] getopt_spelled [OF assms(3)] by (simp add: tanidvr_getopt_def)

definition sample_settings :: cl_state where
  "sample_settings = (default_options 0)\<lparr>co_operation_mode := 1, co_dvr_target := ascii ''host'', co_dvr_user := ascii ''me'',
     co_dvr_password := ascii ''pw'', co_dvr_channel := 3, co_keep_alive := 200, co_ntsc_exact_60hz := True\<rparr>"

definition sample_argv :: "byte list list" where
  "sample_argv = map ascii [''--dvr-ch=3'', ''word'', ''-xm'', ''1'', ''-thost'', ''--dvr-user'', ''me'', ''-w'', ''pw'', ''--keep-alive=200'', ''--'', ''-x'']"

definition sample_ops :: "(char \<times> byte list) list" where
  "sample_ops = [(CHR ''c'', ascii ''3''), (CHR ''x'', []), (CHR ''m'', ascii ''1''), (CHR ''t'', ascii ''host''), (CHR ''u'', ascii ''me''),
     (CHR ''w'', ascii ''pw''), (CHR ''k'', ascii ''200'')]"

lemma sample_spelled: "spelled False (short_options tanidvr_optstring) tanidvr_long_options sample_argv sample_ops"
proof -
  let ?so = "short_options tanidvr_optstring" and ?lo = "tanidvr_long_options"
  let ?channel = "\<lparr>lo_name = ''dvr-channel'', lo_has_arg = True, lo_val = CHR ''c''\<rparr>"
  let ?user = "\<lparr>lo_name = ''dvr-user'', lo_has_arg = True, lo_val = CHR ''u''\<rparr>"
  let ?keep = "\<lparr>lo_name = ''keep-alive'', lo_has_arg = True, lo_val = CHR ''k''\<rparr>"
  have short: "is_short ?so (CHR ''x'') False" "is_short ?so (CHR ''m'') True" "is_short ?so (CHR ''t'') True" "is_short ?so (CHR ''w'') True"
    by (simp_all add: tanidvr_short is_short_def find_short_def byte_of_def)
  have long: "is_long ?lo (ascii ''dvr-ch'') ?channel" "is_long ?lo (ascii ''dvr-user'') ?user" "is_long ?lo (ascii ''keep-alive'') ?keep"
    by (simp_all add: is_long_def find_long_def ascii_def tanidvr_long_options_def)
  have "spelled False ?so ?lo [[0x2D, 0x2D], ascii ''-x''] []" by (rule spelled_end)
  from spelled_long_value [OF long(3) _ this, of "ascii ''200''"]
  have "spelled False ?so ?lo [0x2D # 0x2D # ascii ''keep-alive'' @ 0x3D # ascii ''200'', [0x2D, 0x2D], ascii ''-x''] [(CHR ''k'', ascii ''200'')]" by simp
  from spelled_long [OF long(2) _ spelled_short [OF short(4) this, of "ascii ''pw''"], of "ascii ''me''"] spelled_joined [OF short(3), of "ascii ''host''"]
  have "spelled False ?so ?lo ((0x2D # byte_of (CHR ''t'') # ascii ''host'') # (0x2D # 0x2D # ascii ''dvr-user'') # ascii ''me'' #
      [0x2D, byte_of (CHR ''w'')] # ascii ''pw'' # [0x2D # 0x2D # ascii ''keep-alive'' @ 0x3D # ascii ''200'', [0x2D, 0x2D], ascii ''-x''])
    [(CHR ''t'', ascii ''host''), (CHR ''u'', ascii ''me''), (CHR ''w'', ascii ''pw''), (CHR ''k'', ascii ''200'')]" by (simp add: ascii_def)
  note tail = spelled_flags [OF short(1) _ _ spelled_short [OF short(2) this, of "ascii ''1''"]]
  have "hd [byte_of (CHR ''m'')] \<noteq> 0x2D" by code_simp
  from spelled_long_value [OF long(1) _ spelled_operand [OF _ _ tail [OF _ this]], of "ascii ''word''" "ascii ''3''"]
  show ?thesis unfolding sample_argv_def sample_ops_def by (simp add: ascii_def byte_of_def)
qed

lemma sample_line_settings:
  "option_line sample_settings = [(CHR ''m'', ascii ''1''), (CHR ''t'', ascii ''host''), (CHR ''p'', dec 37777), (CHR ''u'', ascii ''me''),
     (CHR ''w'', ascii ''pw''), (CHR ''c'', ascii ''3''), (CHR ''s'', dec 0), (CHR ''n'', dec 1), (CHR ''f'', []), (CHR ''k'', ascii ''200''),
     (CHR ''e'', dec 5000), (CHR ''r'', dec 1), (CHR ''x'', [])]"
proof -
  have "dec 1 = ascii ''1''" "dec 3 = ascii ''3''" "dec 200 = ascii ''200''"
    by (simp_all add: dec_def ascii_def dec_digits.simps [of 200] dec_digits.simps [of 20] dec_digits.simps [of 3] dec_digits.simps [of 2]
        dec_digits.simps [of "Suc 0"])
  then show ?thesis by (simp add: option_line_def sample_settings_def default_options_def)
qed

lemma command_line_reads_back_witness:
  "\<exists>st. process_command_line_arguments 0 (tanidvr_getopt False sample_argv) = Inr st \<and>
    command_options.truncate st = command_options.truncate sample_settings"
proof (rule command_line_reads_back [OF _ _ sample_spelled])
  show "options_ok sample_settings" by (simp add: sample_settings_def options_ok_def default_options_def)
  show "length (co_dvr_user sample_settings) + length (co_dvr_password sample_settings) \<le> MAX_USER_PASSWD_LEN"
    by (simp add: sample_settings_def default_options_def ascii_def MAX_USER_PASSWD_LEN_def)
  show "set sample_ops \<subseteq> set (option_line sample_settings)" "{CHR ''m'', CHR ''t'', CHR ''u'', CHR ''w''} \<subseteq> fst ` set sample_ops"
    by (simp_all add: sample_line_settings sample_ops_def)
  show "set (option_line sample_settings) \<subseteq> set sample_ops \<union> set (option_line (default_options 0))"
    by (simp add: sample_line_settings default_line sample_ops_def)
qed

end
