(* ===== verification/Network.thy ===== *)
theory Network
  imports Bintools
begin

text \<open>
  Connections over TCP (\<open>src/network.c\<close>): the addresses of the host are copied into an array and tried one after
  the other. The source defines \<open>USE_IPV6\<close>; the branch without it has a section of its own.
\<close>

section \<open>What the system answers\<close>

text \<open>
  An entry of the list \<open>getaddrinfo\<close> gives; \<open>ai_addrlen\<close> is the length of the address. The answer to
  \<open>connect\<close> may depend on the attempt (its slot in the array) and on the bytes passed.
\<close>

datatype ai_family = AF_INET | AF_INET6 | AF_OTHER

record addrinfo =
  ai_fam :: ai_family
  ai_socktype :: int
  ai_protocol :: int
  ai_addr :: "byte list"

record net_answers =
  na_getaddrinfo :: "addrinfo list option"
  na_socket :: int
  na_connect :: "nat \<Rightarrow> byte list \<Rightarrow> int"

section \<open>The address array\<close>

definition MAX_SA_ENTRIES :: nat where "MAX_SA_ENTRIES = 10"
definition SIZEOF_SA :: nat where "SIZEOF_SA = 28"

text \<open>\<open>memmove (&sa[sa_entries++], ai_addr, sa_len)\<close> for every entry from the current one, whatever its family.\<close>

fun fill_sa :: "nat \<Rightarrow> addrinfo list \<Rightarrow> nat \<Rightarrow> byte list \<Rightarrow> (nat \<times> byte list) option" where
  "fill_sa sa_len [] sa_entries sa = Some (sa_entries, sa)"
| "fill_sa sa_len (ai # ais) sa_entries sa =
     (if sa_entries < MAX_SA_ENTRIES then
        do {
          bs \<leftarrow> rd_slice (ai_addr ai) 0 sa_len;
          sa' \<leftarrow> wr_slice sa (int (sa_entries * SIZEOF_SA)) bs;
          fill_sa sa_len ais (sa_entries + 1) sa'
        }
      else Some (sa_entries, sa))"

text \<open>The entries from the first of a family on: what \<open>aiv4\<close> and \<open>aiv6\<close> point to; \<open>NULL\<close> is the empty list.\<close>

definition first_of :: "ai_family \<Rightarrow> addrinfo list \<Rightarrow> addrinfo list" where
  "first_of fam ais = dropWhile (\<lambda>ai. ai_fam ai \<noteq> fam) ais"

text \<open>The array is used from its end.\<close>

fun try_sa :: "(nat \<Rightarrow> byte list \<Rightarrow> int) \<Rightarrow> nat \<Rightarrow> byte list \<Rightarrow> nat \<Rightarrow> byte list option option" where
  "try_sa connect sa_len sa 0 = Some None"
| "try_sa connect sa_len sa (Suc k) =
     do {
       a \<leftarrow> rd_slice sa (int (k * SIZEOF_SA)) sa_len;
       if connect k a \<ge> 0 then Some (Some a) else try_sa connect sa_len sa k
     }"

section \<open>Opening\<close>

text \<open>The result is the descriptor or error, and the address that is connected.\<close>

definition open_family :: "net_answers \<Rightarrow> addrinfo list \<Rightarrow> (int \<times> byte list option) option" where
  "open_family na ais =
     (let sa_len = length (ai_addr (hd ais))
      in if SIZEOF_SA < sa_len then Some (-1, None)
         else do {
           (sa_entries, sa) \<leftarrow> fill_sa sa_len ais 0 (replicate (MAX_SA_ENTRIES * SIZEOF_SA) 0);
           if na_socket na < 0 then Some (-1, None)
           else do {
             r \<leftarrow> try_sa (na_connect na) sa_len sa sa_entries;
             Some (case r of None \<Rightarrow> (-1, None) | Some a \<Rightarrow> (na_socket na, Some a))
           }
         })"

definition open_client_socket :: "net_answers \<Rightarrow> (int \<times> byte list option) option" where
  "open_client_socket na =
     (case na_getaddrinfo na of
        None \<Rightarrow> Some (-1, None)
      | Some ai \<Rightarrow>
          if first_of AF_INET ai \<noteq> [] then open_family na (first_of AF_INET ai)
          else if first_of AF_INET6 ai \<noteq> [] then open_family na (first_of AF_INET6 ai)
          else Some (1, None))"

text \<open>\<open>net_peer\<close> is the address the socket is connected to, which the structure of the source does not hold.\<close>

record t_net_connection =
  net_sockfd :: int
  net_peer :: "byte list option"
  timeout_rx :: "int \<times> int"
  timeout_tx :: "int \<times> int"

definition net_open :: "net_answers \<Rightarrow> u32 \<Rightarrow> (int \<times> t_net_connection) option" where
  "net_open na sock_timeout_us =
     (let to_s = uint (sock_timeout_us div 1000000);
          to_us = uint (sock_timeout_us mod 1000000)
      in do {
           (fd, peer) \<leftarrow> open_client_socket na;
           let c = \<lparr>net_sockfd = fd, net_peer = peer, timeout_rx = (to_s, to_us), timeout_tx = (to_s, to_us)\<rparr>;
           Some (if fd < 0 then - 1 * fd else 0, c)
         })"

definition llp_open :: "net_answers \<Rightarrow> u32 \<Rightarrow> (int \<times> t_net_connection) option" where
  "llp_open na timeout_us = net_open na timeout_us"

definition hlp_open :: "net_answers \<Rightarrow> u32 \<Rightarrow> (int \<times> t_net_connection) option" where
  "hlp_open na timeout_us = llp_open na timeout_us"

section \<open>Lemmas\<close>

definition slots :: "nat \<Rightarrow> addrinfo list \<Rightarrow> byte list list" where
  "slots sa_len ais = map (\<lambda>ai. take sa_len (ai_addr ai)) (take MAX_SA_ENTRIES ais)"

text \<open>The array holds the slots \<open>as\<close>.\<close>

definition holds :: "nat \<Rightarrow> byte list list \<Rightarrow> byte list \<Rightarrow> bool" where
  "holds sa_len as sa \<longleftrightarrow> length sa = MAX_SA_ENTRIES * SIZEOF_SA \<and> length as \<le> MAX_SA_ENTRIES \<and>
     (\<forall>k < length as. take sa_len (drop (k * SIZEOF_SA) sa) = as ! k)"

lemma holds_snoc:
  assumes "holds n as sa" "n \<le> SIZEOF_SA" "length a = n" "length as < MAX_SA_ENTRIES"
  shows "\<exists>sa'. wr_slice sa (int (length as * SIZEOF_SA)) a = Some sa' \<and> holds n (as @ [a]) sa'"
proof -
  let ?i = "length as * SIZEOF_SA"
  define sa' where "sa' = take ?i sa @ a @ drop (?i + n) sa"
  have fits: "?i + n \<le> length sa"
  proof -
    have "Suc (length as) * SIZEOF_SA \<le> MAX_SA_ENTRIES * SIZEOF_SA" using assms(4) by (intro mult_le_mono1) simp
    then show ?thesis using assms(1,2) by (simp add: holds_def)
  qed
  have w: "wr_slice sa (int ?i) a = Some sa'"
    using fits assms(3) by (simp add: sa'_def del: of_nat_mult)
  have len: "length sa' = length sa" using w by (rule wr_slice_length)
  have "take n (drop (k * SIZEOF_SA) sa') = (as @ [a]) ! k" if "k < length (as @ [a])" for k
  proof (cases "k = length as")
    case True
    then show ?thesis using fits assms(3) by (simp add: sa'_def min_def)
  next
    case False
    then have k: "k < length as" using that by simp
    then have "Suc k * SIZEOF_SA \<le> ?i" by (intro mult_le_mono1) simp
    then have "k * SIZEOF_SA + n \<le> ?i" using assms(2) by simp
    then have "take n (drop (k * SIZEOF_SA) sa') = take n (drop (k * SIZEOF_SA) sa)"
      using fits by (simp add: sa'_def take_drop_take)
    then show ?thesis using assms(1) k by (simp add: holds_def nth_append)
  qed
  then show ?thesis using w assms(1,4) len by (auto simp: holds_def)
qed

lemma fill_sa_holds:
  assumes "holds n as sa" "n \<le> SIZEOF_SA" "\<forall>ai \<in> set ais. n \<le> length (ai_addr ai)"
  shows "\<exists>sa'. fill_sa n ais (length as) sa =
      Some (length as + length (take (MAX_SA_ENTRIES - length as) ais), sa') \<and>
    holds n (as @ map (\<lambda>ai. take n (ai_addr ai)) (take (MAX_SA_ENTRIES - length as) ais)) sa'"
  using assms
proof (induction ais arbitrary: as sa)
  case (Cons ai ais)
  show ?case
  proof (cases "length as < MAX_SA_ENTRIES")
    case True
    let ?a = "take n (ai_addr ai)"
    have a: "length ?a = n" "rd_slice (ai_addr ai) 0 n = Some ?a"
      using Cons.prems(3) by (simp_all add: rd_slice_def)
    from holds_snoc [OF Cons.prems(1,2) a(1) True] obtain sa1 where
      sa1: "wr_slice sa (int (length as * SIZEOF_SA)) ?a = Some sa1" "holds n (as @ [?a]) sa1" by blast
    have t: "take (MAX_SA_ENTRIES - length as) (ai # ais) = ai # take (MAX_SA_ENTRIES - length (as @ [?a])) ais"
      using True by (simp add: take_Cons' )
    show ?thesis
      using Cons.IH [OF sa1(2) Cons.prems(2)] Cons.prems(3) True a(2) sa1(1) unfolding t by simp
  next
    case False
    then show ?thesis using Cons.prems(1) by simp
  qed
qed simp

lemma holds_rd:
  assumes "holds n as sa" "n \<le> SIZEOF_SA" "k < length as"
  shows "rd_slice sa (int (k * SIZEOF_SA)) n = Some (as ! k)"
proof -
  have "Suc k * SIZEOF_SA \<le> MAX_SA_ENTRIES * SIZEOF_SA" using assms by (intro mult_le_mono1) (simp add: holds_def)
  then have "k * SIZEOF_SA + n \<le> length sa" using assms(1,2) by (simp add: holds_def)
  then show ?thesis using assms by (simp add: holds_def del: of_nat_mult)
qed

lemma try_sa_last:
  assumes "holds n as sa" "n \<le> SIZEOF_SA" "m \<le> length as"
  shows "try_sa connect n sa m =
    Some (case filter (\<lambda>k. connect k (as ! k) \<ge> 0) (rev [0 ..< m]) of [] \<Rightarrow> None | k # ks \<Rightarrow> Some (as ! k))"
  using assms(3) by (induction m) (simp_all add: holds_rd [OF assms(1,2)] del: of_nat_mult)

lemma open_family_tries:
  assumes "ais \<noteq> []" "length (ai_addr (hd ais)) = n" "n \<le> SIZEOF_SA" "\<forall>ai \<in> set ais. n \<le> length (ai_addr ai)" "0 \<le> na_socket na"
  shows "open_family na ais =
    Some (case filter (\<lambda>k. na_connect na k (slots n ais ! k) \<ge> 0) (rev [0 ..< length (slots n ais)]) of
        [] \<Rightarrow> (-1, None) | k # ks \<Rightarrow> (na_socket na, Some (slots n ais ! k)))"
proof -
  have "holds n [] (replicate (MAX_SA_ENTRIES * SIZEOF_SA) 0)" by (simp add: holds_def)
  from fill_sa_holds [OF this assms(3,4)] obtain sa where
    "fill_sa n ais 0 (replicate (MAX_SA_ENTRIES * SIZEOF_SA) 0) = Some (length (slots n ais), sa)" "holds n (slots n ais) sa"
    by (auto simp: slots_def)
  with try_sa_last [of n "slots n ais" sa "length (slots n ais)" "na_connect na"] assms(3) show ?thesis
    using assms by (simp add: open_family_def Let_def split: list.splits)
qed


lemma last_filtered:
  "filter P (rev [0 ..< n]) = k # ks \<Longrightarrow> k < n \<and> P k \<and> (\<forall>j. k < j \<and> j < n \<longrightarrow> \<not> P j)"
proof (induction n)
  case (Suc n)
  show ?case
  proof (cases "P n")
    case True
    then have "k = n" using Suc.prems by simp
    with True show ?thesis by auto
  next
    case False
    then have "filter P (rev [0 ..< n]) = k # ks" using Suc.prems by simp
    from Suc.IH [OF this] False show ?thesis by (metis less_SucE less_SucI)
  qed
qed simp

lemma timeout_parts:
  "uint (t div 1000000 :: u32) * 1000000 + uint (t mod 1000000) = uint t \<and> uint (t mod 1000000 :: u32) < 1000000"
  by (simp add: uint_div uint_mod)

section \<open>The branch without \<open>USE_IPV6\<close>\<close>

text \<open>
  Compiled only where the definition of \<open>USE_IPV6\<close> at the head of the file is removed: \<open>gethostbyname\<close>
  gives the addresses without their port, and the array has a structure for each of them. \<open>sin_port\<close> is in
  network order, what \<open>htons\<close> makes of the port.
\<close>

record hostent =
  h_addrtype :: int
  h_addr_list :: "byte list list"

record sockaddr_in =
  sin_family :: int
  sin_port :: "byte list"
  sin_addr :: "byte list"

record host_answers =
  ha_gethostbyname :: "hostent option"
  ha_socket :: int
  ha_connect :: "nat \<Rightarrow> sockaddr_in \<Rightarrow> int"

fun fill_sa_v4 :: "int \<Rightarrow> u16 \<Rightarrow> byte list list \<Rightarrow> nat \<Rightarrow> sockaddr_in list \<Rightarrow> (nat \<times> sockaddr_in list) option" where
  "fill_sa_v4 fam Port [] sa_entries sa = Some (sa_entries, sa)"
| "fill_sa_v4 fam Port (a # as) sa_entries sa =
     (if sa_entries < MAX_SA_ENTRIES then
        do {
          bs \<leftarrow> rd_slice a 0 4;
          fill_sa_v4 fam Port as (sa_entries + 1)
            (sa[sa_entries := \<lparr>sin_family = fam, sin_port = BT_NV2MM_U16 Port, sin_addr = bs\<rparr>])
        }
      else Some (sa_entries, sa))"

fun try_sa_v4 :: "(nat \<Rightarrow> sockaddr_in \<Rightarrow> int) \<Rightarrow> sockaddr_in list \<Rightarrow> nat \<Rightarrow> sockaddr_in option" where
  "try_sa_v4 connect sa 0 = None"
| "try_sa_v4 connect sa (Suc k) = (if connect k (sa ! k) \<ge> 0 then Some (sa ! k) else try_sa_v4 connect sa k)"

definition open_client_socket_v4 :: "host_answers \<Rightarrow> u16 \<Rightarrow> (int \<times> sockaddr_in option) option" where
  "open_client_socket_v4 ha Port =
     (case ha_gethostbyname ha of
        None \<Rightarrow> Some (-1, None)
      | Some he \<Rightarrow>
          do {
            (sa_entries, sa) \<leftarrow> fill_sa_v4 (h_addrtype he) Port (h_addr_list he) 0
              (replicate MAX_SA_ENTRIES \<lparr>sin_family = 0, sin_port = [0, 0], sin_addr = [0, 0, 0, 0]\<rparr>);
            if ha_socket ha < 0 then Some (-1, None)
            else Some (case try_sa_v4 (ha_connect ha) sa sa_entries of None \<Rightarrow> (-1, None) | Some a \<Rightarrow> (ha_socket ha, Some a))
          })"

definition address_v4 :: "int \<Rightarrow> u16 \<Rightarrow> byte list \<Rightarrow> sockaddr_in" where
  "address_v4 fam Port a = \<lparr>sin_family = fam, sin_port = BT_NV2MM_U16 Port, sin_addr = take 4 a\<rparr>"

lemma fill_sa_v4_ok:
  assumes "length sa = MAX_SA_ENTRIES" "n \<le> MAX_SA_ENTRIES" "\<forall>a \<in> set as. 4 \<le> length a"
  shows "\<exists>sa'. fill_sa_v4 fam Port as n sa = Some (n + min (length as) (MAX_SA_ENTRIES - n), sa') \<and> length sa' = MAX_SA_ENTRIES \<and>
    take (n + min (length as) (MAX_SA_ENTRIES - n)) sa' = take n sa @ map (address_v4 fam Port) (take (MAX_SA_ENTRIES - n) as)"
  using assms
proof (induction as arbitrary: n sa)
  case (Cons a as)
  show ?case
  proof (cases "n < MAX_SA_ENTRIES")
    case True
    let ?sa = "sa[n := address_v4 fam Port a]"
    have rd: "rd_slice a 0 4 = Some (take 4 a)" using Cons.prems(3) by (simp add: rd_slice_def)
    have t: "take (Suc n) ?sa = take n sa @ [address_v4 fam Port a]"
      using True Cons.prems(1) by (simp add: take_Suc_conv_app_nth)
    have m: "MAX_SA_ENTRIES - n = Suc (MAX_SA_ENTRIES - Suc n)" using True by simp
    have step: "fill_sa_v4 fam Port (a # as) n sa = fill_sa_v4 fam Port as (Suc n) ?sa"
      using rd True by (simp add: address_v4_def)
    have "\<forall>a \<in> set as. 4 \<le> length a" "length ?sa = MAX_SA_ENTRIES" "Suc n \<le> MAX_SA_ENTRIES" using Cons.prems True by simp_all
    from Cons.IH [OF this(2,3,1)] show ?thesis unfolding step t m by simp
  next
    case False
    then show ?thesis using Cons.prems by simp
  qed
qed simp

lemma try_sa_v4_last:
  "try_sa_v4 connect sa m = map_option ((!) sa) (List.find (\<lambda>k. connect k (sa ! k) \<ge> 0) (rev [0 ..< m]))"
  by (induction m) simp_all

text \<open>Without \<open>USE_IPV6\<close>, too, the program tries the first ten addresses from the last of them to the first, each with the port asked for.\<close>

lemma v4_connects:
  fixes Port :: u16
  assumes "ha_gethostbyname ha = Some he" "\<forall>a \<in> set (h_addr_list he). 4 \<le> length a" "0 \<le> ha_socket ha"
  defines "as \<equiv> map (address_v4 (h_addrtype he) Port) (take MAX_SA_ENTRIES (h_addr_list he))"
  shows "open_client_socket_v4 ha Port =
    Some (case List.find (\<lambda>k. ha_connect ha k (as ! k) \<ge> 0) (rev [0 ..< length as]) of
        None \<Rightarrow> (-1, None) | Some k \<Rightarrow> (ha_socket ha, Some (as ! k)))"
proof -
  let ?sa0 = "replicate MAX_SA_ENTRIES \<lparr>sin_family = 0, sin_port = [0, 0], sin_addr = [0, 0, 0, 0]\<rparr>"
  have m: "length as = min (length (h_addr_list he)) MAX_SA_ENTRIES" by (simp add: as_def)
  from fill_sa_v4_ok [of ?sa0 0 "h_addr_list he" "h_addrtype he" Port] assms(2) obtain sa where
    sa: "fill_sa_v4 (h_addrtype he) Port (h_addr_list he) 0 ?sa0 = Some (length as, sa)" "take (length as) sa = as"
    by (auto simp: m as_def)
  have nth: "sa ! k = as ! k" if "k < length as" for k using that sa(2) by (metis nth_take)
  then have same: "try_sa_v4 (ha_connect ha) sa k = try_sa_v4 (ha_connect ha) as k" if "k \<le> length as" for k
    using that by (induction k) simp_all
  show ?thesis
    using assms(1,3) sa(1)
    by (simp add: open_client_socket_v4_def same) (simp add: try_sa_v4_last split: option.split)
qed

section \<open>Properties\<close>


definition sample_answers :: "addrinfo list \<Rightarrow> net_answers" where
  "sample_answers ais = \<lparr>na_getaddrinfo = Some ais, na_socket = 5, na_connect = (\<lambda>k a. if k = 1 then 0 else -1)\<rparr>"

definition sample_addrinfo :: "ai_family \<Rightarrow> byte \<Rightarrow> addrinfo" where
  "sample_addrinfo fam x = \<lparr>ai_fam = fam, ai_socktype = 1, ai_protocol = 6, ai_addr = replicate 16 x\<rparr>"


text \<open>
  A host that is known, but only under other families of addresses, is taken for connected: the
  code of the error is returned as if it were a descriptor, and the program goes on with descriptor 1,
  its own standard output.
\<close>
lemma other_families_open_stdout:
  assumes "na_getaddrinfo na = Some ais" "\<forall>ai \<in> set ais. ai_fam ai = AF_OTHER"
  shows "\<exists>c. hlp_open na t = Some (0, c) \<and> net_sockfd c = 1 \<and> net_peer c = None"
  using assms by (auto simp: hlp_open_def llp_open_def net_open_def open_client_socket_def first_of_def Let_def)

lemma other_families_open_stdout_witness:
  "\<exists>c. hlp_open (sample_answers [sample_addrinfo AF_OTHER 1]) 0 = Some (0, c) \<and> net_sockfd c = 1"
  using other_families_open_stdout [of "sample_answers [sample_addrinfo AF_OTHER 1]" "[sample_addrinfo AF_OTHER 1]" 0]
  by (auto simp: sample_answers_def sample_addrinfo_def)

end
