(* ===== verification/Polling.thy ===== *)
theory Polling
  imports Network Dvr_Session
begin

text \<open>
  The polls on connections (\<open>llp_check_incoming_data\<close>, \<open>llp_wait_for_incoming_data\<close> in \<open>src/llprotocol.c\<close>
  and their wrappers in \<open>src/hlprotocol.c\<close>): how the numbers that the loop of a session receives as
  events come from the state of the descriptors.
\<close>

section \<open>\<open>poll\<close> on descriptors\<close>

text \<open>
  What the system answers: an error, or what it would report of each descriptor when the wait ends.
  \<open>poll\<close> ignores negative descriptors and returns the number of those with something to report.
\<close>

datatype poll_answer = Poll_Failed errno | Poll_State "int \<Rightarrow> pollflag list"

definition sys_poll :: "poll_answer \<Rightarrow> pollfd list \<Rightarrow> int" where
  "sys_poll ans ps =
     (case ans of
        Poll_Failed e \<Rightarrow> -1
      | Poll_State state \<Rightarrow> int (length (filter (\<lambda>p. 0 \<le> pfd p \<and> poll_reports (events p) (state (pfd p)) \<noteq> []) ps)))"

definition sock_pollfd :: "t_net_connection \<Rightarrow> pollfd" where
  "sock_pollfd c = \<lparr>pfd = net_sockfd c, events = [POLLIN], revents = []\<rparr>"

definition llp_check_incoming_data :: "poll_answer \<Rightarrow> t_net_connection \<Rightarrow> int" where
  "llp_check_incoming_data ans c = sys_poll ans [sock_pollfd c]"

definition llp_wait_for_incoming_data :: "poll_answer \<Rightarrow> t_net_connection list \<Rightarrow> int" where
  "llp_wait_for_incoming_data ans cs = sys_poll ans (map sock_pollfd cs)"

definition hlp_check_incoming_data :: "poll_answer \<Rightarrow> t_net_connection \<Rightarrow> int" where
  "hlp_check_incoming_data ans c = llp_check_incoming_data ans c"

definition hlp_wait_for_incoming_data :: "poll_answer \<Rightarrow> t_net_connection list \<Rightarrow> int" where
  "hlp_wait_for_incoming_data ans cs = llp_wait_for_incoming_data ans cs"

text \<open>A turn of the session's loop with the answers of the system instead of numbers.\<close>

record poll_event =
  pe_wait :: poll_answer
  pe_checks :: "(poll_answer \<times> u32) list"
  pe_discards :: "poll_answer list"
  pe_ka_spent :: u32
  pe_to_spent :: u32

definition polled_event :: "t_net_connection \<Rightarrow> t_net_connection \<Rightarrow> poll_event \<Rightarrow> stream_event" where
  "polled_event conn_control conn_stream pe =
     \<lparr>ev_wait = hlp_wait_for_incoming_data (pe_wait pe) [conn_control, conn_stream],
      ev_checks = map (\<lambda>(ans, t). (hlp_check_incoming_data ans conn_stream, t)) (pe_checks pe),
      ev_polls = map (\<lambda>ans. llp_check_incoming_data ans conn_control) (pe_discards pe),
      ev_ka_spent = pe_ka_spent pe, ev_to_spent = pe_to_spent pe\<rparr>"

section \<open>What the numbers mean\<close>

definition reported :: "(int \<Rightarrow> pollflag list) \<Rightarrow> t_net_connection \<Rightarrow> bool" where
  "reported state c \<longleftrightarrow> 0 \<le> net_sockfd c \<and> hits [POLLIN, POLLERR, POLLHUP, POLLNVAL] (state (net_sockfd c))"

lemma poll_reports_in: "poll_reports [POLLIN] fs \<noteq> [] \<longleftrightarrow> hits [POLLIN, POLLERR, POLLHUP, POLLNVAL] fs"
  by (auto simp: poll_reports_def hits_def filter_empty_conv)

lemma sys_poll_counts: "sys_poll (Poll_State state) (map sock_pollfd cs) = int (length (filter (reported state) cs))"
  by (simp add: sys_poll_def filter_map comp_def sock_pollfd_def poll_reports_in reported_def [abs_def])

lemma check_reports:
  "hlp_check_incoming_data (Poll_State state) c = (if reported state c then 1 else 0)"
  "hlp_check_incoming_data (Poll_Failed e) c = -1"
  using sys_poll_counts [of state "[c]"]
  by (simp_all add: hlp_check_incoming_data_def llp_check_incoming_data_def sys_poll_def)

text \<open>The wait is over with a positive number exactly when one of the connections has data, an error or a hang-up.\<close>

lemma wait_reports:
  "hlp_wait_for_incoming_data (Poll_State state) cs > 0 \<longleftrightarrow> (\<exists>c \<in> set cs. reported state c)"
  "hlp_wait_for_incoming_data (Poll_State state) cs \<le> int (length cs)"
  by (auto simp: hlp_wait_for_incoming_data_def llp_wait_for_incoming_data_def sys_poll_counts filter_empty_conv)

text \<open>
  A poll that fails, by a signal for instance, ends the wait and makes the loop discard what comes on the
  control connection: it then waits for a message there, and the session ends when none comes.
\<close>

lemma failed_poll_reads_control:
  assumes "pe_wait pe = Poll_Failed e" "pe_checks pe = []" "pe_discards pe = [Poll_Failed e]" "rx (ps_control s) = []"
  shows "stream_turn dvrctl (polled_event conn_control conn_stream pe) s = Some (Some 7, s)"
  using assms
  by (simp add: stream_turn_def collect_pending_def polled_event_def hlp_wait_for_incoming_data_def llp_wait_for_incoming_data_def
      llp_check_incoming_data_def sys_poll_def hlp_discard_incoming_data_def llp_get_header_def net_fread_def LLP_HEADER_SIZE_def)

text \<open>
  The polls see the socket, but the messages are read through a buffered stream: a message that is
  wholly in the stream's buffer is not seen. When the recorder sends nothing more, the session ends
  with the code for silence and without a look at what \<open>rx (ps_stream s)\<close> still holds.
\<close>

lemma buffered_media_times_out:
  assumes "pe_wait pe = Poll_State state" "\<not> reported state conn_control" "\<not> reported state conn_stream"
    and "dc_keep_alive_us dvrctl = 0" "dc_timeout_us dvrctl \<noteq> 0" "pe_to_spent pe > dc_timeout_us dvrctl"
  shows "stream_turn dvrctl (polled_event conn_control conn_stream pe) s = Some (Some 9, s)"
proof -
  have "hlp_wait_for_incoming_data (pe_wait pe) [conn_control, conn_stream] = 0"
    using assms(1-3) sys_poll_counts [of state "[conn_control, conn_stream]"]
    by (simp add: hlp_wait_for_incoming_data_def llp_wait_for_incoming_data_def)
  then show ?thesis using assms(4-6) by (simp add: stream_turn_def collect_pending_def polled_event_def)
qed

end
