(* ===== verification/Processes.thy ===== *)
theory Processes
  imports Prelude
begin

text \<open>
  Processes joined by two pipes (\<open>src/mptools.c\<close>): which end of which pipe each descriptor of the parent
  and of the child is; and the files of \<open>src/filetools.c\<close>, which may be the standard streams.
\<close>

section \<open>Descriptors\<close>

text \<open>\<open>Reads k\<close> and \<open>Writes k\<close> are the two ends of the pipe \<open>k\<close>; a process has a table of its descriptors.\<close>

datatype file_end = Reads nat | Writes nat | Elsewhere

type_synonym descriptors = "(int \<times> file_end) list"

definition fd_close :: "int \<Rightarrow> descriptors \<Rightarrow> descriptors" where
  "fd_close fd t = filter (\<lambda>(d, e). d \<noteq> fd) t"

text \<open>\<open>pipe\<close> answers with two new descriptors, or fails; \<open>k\<close> is the name of the new pipe.\<close>

definition sys_pipe :: "nat \<Rightarrow> (int \<times> int) option \<Rightarrow> descriptors \<Rightarrow> (int \<times> int) option \<times> descriptors" where
  "sys_pipe k answer t = (case answer of None \<Rightarrow> (None, t) | Some (r, w) \<Rightarrow> (Some (r, w), (r, Reads k) # (w, Writes k) # t))"

section \<open>Pipedfork\<close>

text \<open>The fields are not set when the function fails.\<close>

record mptools_pipedfork_t =
  fd_read :: int
  fd_write :: int
  child_pid :: int
  wait_status :: int

text \<open>
  \<open>answer\<close> is that of \<open>fork\<close>: \<open>-1\<close> or the number of the child. The two results are those of the parent and
  of the child, if there is one, each with its descriptors.
\<close>

type_synonym fork_result = "int \<times> mptools_pipedfork_t \<times> descriptors"

definition mptools_create_pipedfork ::
    "nat \<Rightarrow> (int \<times> int) option \<Rightarrow> (int \<times> int) option \<Rightarrow> int \<Rightarrow> mptools_pipedfork_t \<Rightarrow> descriptors \<Rightarrow>
     fork_result \<times> fork_result option" where
  "mptools_create_pipedfork k pipe1 pipe2 answer ppfk0 t0 =
     (let ppfk = ppfk0\<lparr>wait_status := 0\<rparr>
      in case sys_pipe k pipe1 t0 of
           (None, t) \<Rightarrow> ((-1, ppfk, t), None)
         | (Some (r1, w1), t1) \<Rightarrow>
             (case sys_pipe (k + 1) pipe2 t1 of
                (None, t) \<Rightarrow> ((-1, ppfk, fd_close w1 (fd_close r1 t)), None)
              | (Some (r2, w2), t2) \<Rightarrow>
                  let ppfk1 = ppfk\<lparr>child_pid := answer\<rparr>
                  in if answer \<noteq> -1 then
                       ((answer, ppfk1\<lparr>fd_read := r1, fd_write := w2\<rparr>, fd_close r2 (fd_close w1 t2)),
                        Some (0, ppfk\<lparr>child_pid := 0, fd_read := r2, fd_write := w1\<rparr>, fd_close w2 (fd_close r1 t2)))
                     else ((-1, ppfk1, fd_close w1 (fd_close r1 (fd_close w2 (fd_close r2 t2)))), None)))"

definition mptools_child_close_pipedfork :: "mptools_pipedfork_t \<Rightarrow> descriptors \<Rightarrow> descriptors" where
  "mptools_child_close_pipedfork ppfk t = fd_close (fd_write ppfk) (fd_close (fd_read ppfk) t)"

text \<open>
  The end of a child: its descriptors are closed, it is sent \<open>SIGTERM\<close> and waited for. The second result
  is the number of the process that is killed, the third the status that is noted.
\<close>

definition mptools_destroy_pipedfork :: "int \<Rightarrow> mptools_pipedfork_t \<Rightarrow> descriptors \<Rightarrow> descriptors \<times> int \<times> mptools_pipedfork_t" where
  "mptools_destroy_pipedfork status ppfk t =
     (fd_close (fd_write ppfk) (fd_close (fd_read ppfk) t), child_pid ppfk, ppfk\<lparr>wait_status := status\<rparr>)"

text \<open>\<open>answer\<close> is that of \<open>waitpid\<close> without waiting: 0 while the child runs.\<close>

definition mptools_check_pipedfork_child :: "int \<Rightarrow> int \<Rightarrow> mptools_pipedfork_t \<Rightarrow> bool \<times> mptools_pipedfork_t" where
  "mptools_check_pipedfork_child answer status ppfk =
     (answer = 0, if answer = 0 then ppfk else ppfk\<lparr>wait_status := status\<rparr>)"

section \<open>Blocking descriptors\<close>

text \<open>\<open>set_fd_blocking\<close> (\<open>src/dvrcontrol.c\<close>): the flags of the descriptor before and after.\<close>

definition O_NONBLOCK :: u32 where "O_NONBLOCK = 0x800"

definition set_fd_blocking :: "bool \<Rightarrow> u32 \<Rightarrow> u32" where
  "set_fd_blocking doesblock fd_flags = (if doesblock then fd_flags AND NOT O_NONBLOCK else fd_flags OR O_NONBLOCK)"

lemma set_fd_blocking_restores:
  "fd_flags AND O_NONBLOCK = 0 \<Longrightarrow> set_fd_blocking True (set_fd_blocking False fd_flags) = fd_flags"
  by (simp add: set_fd_blocking_def bit_eq_iff bit_simps) blast

section \<open>Connections are closed\<close>

text \<open>
  The two streams of a connection are over the same descriptor \<open>net_sockfd\<close>, which is closed with each of
  them; the second time it is no longer there. The data sent have been flushed before.
\<close>

definition net_close :: "int \<Rightarrow> descriptors \<Rightarrow> descriptors" where
  "net_close net_sockfd t = fd_close net_sockfd (fd_close net_sockfd t)"

definition llp_close :: "int \<Rightarrow> descriptors \<Rightarrow> descriptors" where
  "llp_close net_sockfd t = net_close net_sockfd t"

definition hlp_close :: "int \<Rightarrow> descriptors \<Rightarrow> descriptors" where
  "hlp_close net_sockfd t = llp_close net_sockfd t"

section \<open>Files\<close>

datatype stream = Stdin | Stdout | File "byte list"

record t_inoutfile =
  io_fd :: stream
  io_fd_close :: bool

text \<open>\<open>memory\<close> and \<open>opened\<close>: whether \<open>malloc\<close> and \<open>fopen\<close> succeed. The name is the characters before the terminator.\<close>

definition outfile_open :: "bool \<Rightarrow> byte list \<Rightarrow> bool \<Rightarrow> t_inoutfile option" where
  "outfile_open memory given_filename opened =
     (if \<not> memory then None
      else if given_filename = [] then Some \<lparr>io_fd = Stdout, io_fd_close = False\<rparr>
      else if \<not> opened then None
      else Some \<lparr>io_fd = File given_filename, io_fd_close = True\<rparr>)"

definition infile_open :: "bool \<Rightarrow> byte list \<Rightarrow> bool \<Rightarrow> t_inoutfile option" where
  "infile_open memory given_filename opened =
     (if \<not> memory then None
      else if given_filename = [] then Some \<lparr>io_fd = Stdin, io_fd_close = False\<rparr>
      else if \<not> opened then None
      else Some \<lparr>io_fd = File given_filename, io_fd_close = True\<rparr>)"

text \<open>The streams that are closed.\<close>

definition outfile_close :: "t_inoutfile \<Rightarrow> stream list" where
  "outfile_close f = (if io_fd_close f then [io_fd f] else [])"

definition infile_close :: "t_inoutfile \<Rightarrow> stream list" where
  "infile_close f = (if io_fd_close f then [io_fd f] else [])"

text \<open>A file is closed exactly when it was opened here; the standard streams stay open.\<close>

lemma files_closed:
  "outfile_open memory name opened = Some f \<Longrightarrow> outfile_close f = (if name = [] then [] else [File name])"
  "infile_open memory name opened = Some f \<Longrightarrow> infile_close f = (if name = [] then [] else [File name])"
  by (auto simp: outfile_open_def infile_open_def outfile_close_def infile_close_def split: if_splits)

section \<open>Lemmas\<close>

lemma fd_close_same [simp]: "fd_close d ((d, e) # t) = fd_close d t"
  by (simp add: fd_close_def)

lemma fd_close_other [simp]: "d \<noteq> d' \<Longrightarrow> fd_close d ((d', e) # t) = (d', e) # fd_close d t"
  by (simp add: fd_close_def)

lemma fd_close_unused [simp]: "d \<notin> fst ` set t \<Longrightarrow> fd_close d t = t"
  by (force simp: fd_close_def intro!: filter_True)

text \<open>What \<open>pipe\<close> documents: the descriptors are new and not the same.\<close>

definition new_fds :: "(int \<times> int) option \<Rightarrow> (int \<times> int) option \<Rightarrow> descriptors \<Rightarrow> bool" where
  "new_fds pipe1 pipe2 t \<longleftrightarrow>
     (case pipe1 of None \<Rightarrow> True
      | Some (r1, w1) \<Rightarrow> distinct [r1, w1] \<and> {r1, w1} \<inter> fst ` set t = {} \<and>
          (case pipe2 of None \<Rightarrow> True
           | Some (r2, w2) \<Rightarrow> distinct [r1, w1, r2, w2] \<and> {r2, w2} \<inter> fst ` set t = {}))"

lemma create_both:
  assumes "new_fds (Some (r1, w1)) (Some (r2, w2)) t" "answer \<noteq> -1"
  shows "mptools_create_pipedfork k (Some (r1, w1)) (Some (r2, w2)) answer p t =
    ((answer, p\<lparr>wait_status := 0, child_pid := answer, fd_read := r1, fd_write := w2\<rparr>, (w2, Writes (k + 1)) # (r1, Reads k) # t),
     Some (0, p\<lparr>wait_status := 0, child_pid := 0, fd_read := r2, fd_write := w1\<rparr>, (r2, Reads (k + 1)) # (w1, Writes k) # t))"
  using assms by (auto simp: mptools_create_pipedfork_def sys_pipe_def new_fds_def Let_def)

lemma create_fails:
  assumes "new_fds pipe1 pipe2 t" "pipe1 = None \<or> pipe2 = None \<or> answer = -1"
  shows "\<exists>p'. mptools_create_pipedfork k pipe1 pipe2 answer p t = ((-1, p', t), None) \<and>
    fd_read p' = fd_read p \<and> fd_write p' = fd_write p"
  using assms by (auto simp: mptools_create_pipedfork_def sys_pipe_def new_fds_def Let_def split: option.splits)

section \<open>Properties\<close>

text \<open>
  C29: Parent and child are joined both ways and no descriptor leaks: when everything succeeds each
  process has exactly two descriptors more, what the child writes is what the parent reads and the
  other way round, and destroying the child afterwards leaves the parent with the descriptors it had;
  when a pipe or the fork fails, the descriptors are the same as before and the code is -1.
\<close>
theorem pipedfork_joins:
  assumes "new_fds pipe1 pipe2 t"
  shows "(pipe1 \<noteq> None \<and> pipe2 \<noteq> None \<and> answer \<noteq> -1 \<longrightarrow>
      (\<exists>p pt c ct. mptools_create_pipedfork k pipe1 pipe2 answer p0 t = ((answer, p, pt), Some (0, c, ct)) \<and>
         map_of pt (fd_read p) = Some (Reads k) \<and> map_of ct (fd_write c) = Some (Writes k) \<and>
         map_of pt (fd_write p) = Some (Writes (k + 1)) \<and> map_of ct (fd_read c) = Some (Reads (k + 1)) \<and>
         length pt = length t + 2 \<and> length ct = length t + 2 \<and>
         child_pid p = answer \<and> child_pid c = 0 \<and>
         mptools_destroy_pipedfork status p pt = (t, answer, p\<lparr>wait_status := status\<rparr>) \<and>
         mptools_child_close_pipedfork c ct = t)) \<and>
    (pipe1 = None \<or> pipe2 = None \<or> answer = -1 \<longrightarrow>
      (\<exists>p. mptools_create_pipedfork k pipe1 pipe2 answer p0 t = ((-1, p, t), None)))"
proof (cases "pipe1 \<noteq> None \<and> pipe2 \<noteq> None \<and> answer \<noteq> -1")
  case True
  then obtain r1 w1 r2 w2 where p: "pipe1 = Some (r1, w1)" "pipe2 = Some (r2, w2)" by auto
  then have "distinct [r1, w1, r2, w2]" "{r1, w1, r2, w2} \<inter> fst ` set t = {}"
    using assms by (auto simp: new_fds_def)
  then show ?thesis
    using True create_both [of r1 w1 r2 w2 t answer k p0] assms
    by (auto simp: p mptools_destroy_pipedfork_def mptools_child_close_pipedfork_def)
next
  case False
  with create_fails [OF assms, of answer k p0] show ?thesis by auto
qed

definition sample_pipedfork :: mptools_pipedfork_t where
  "sample_pipedfork = \<lparr>fd_read = 0, fd_write = 0, child_pid = 0, wait_status = 0\<rparr>"

lemma pipedfork_joins_witness:
  "\<exists>p pt c ct. mptools_create_pipedfork 0 (Some (3, 4)) (Some (5, 6)) 77 sample_pipedfork [(0, Elsewhere), (1, Elsewhere)] =
      ((77, p, pt), Some (0, c, ct)) \<and> map_of pt (fd_read p) = Some (Reads 0) \<and> map_of ct (fd_write c) = Some (Writes 0)"
  using pipedfork_joins [of "Some (3, 4)" "Some (5, 6)" "[(0, Elsewhere), (1, Elsewhere)]" 77 0 sample_pipedfork 0]
  by (force simp: new_fds_def)

end
